(* ===== verification/Prelude.thy ===== *)
theory Prelude
  imports Complex_Main "HOL-Library.AList" "HOL-Library.Sublist"
begin

text \<open>
  Shared vocabulary of the development: the types that stand for Python's strings, UUIDs, time
  stamps and insertion-ordered dictionaries, the string operations of the standard library the
  auditor uses, the first-maximum selection of \<^verbatim>\<open>max(..., key=...)\<close>, and the lemmas on them that
  several components share.

  A string is a list of \<^typ>\<open>char\<close>, that is of code points below 256; \<^verbatim>\<open>lower\<close> and \<^verbatim>\<open>strip\<close>
  follow Python on that range. A UUID is represented by its canonical text, so that \<^verbatim>\<open>str(u)\<close>
  is the identity on it.
\<close>

named_theorems py_defs \<open>definitions of the Python operations, unfolded on concrete inputs\<close>

type_synonym uuid = string
type_synonym timestamp = int \<comment> \<open>microseconds since the epoch, UTC\<close>
type_synonym ('k, 'v) pydict = "('k \<times> 'v) list" \<comment> \<open>in insertion order\<close>

text \<open>JSON values, for the free-form dictionaries of the code; a float is its exact value.\<close>

datatype json =
    JNull | JBool bool | JInt int | JFloat rat | JStr string
  | JList "json list" | JObj "(string \<times> json) list"

section \<open>Strings\<close>

definition lower_char :: "char \<Rightarrow> char" where
  "lower_char c =
     (let n = of_char c :: nat in
      if (65 \<le> n \<and> n \<le> 90) \<or> (192 \<le> n \<and> n \<le> 222 \<and> n \<noteq> 215) then char_of (n + 32) else c)"

definition py_lower :: "string \<Rightarrow> string" where
  "py_lower = map lower_char"

definition py_isspace :: "char \<Rightarrow> bool" where
  "py_isspace c =
     (let n = of_char c :: nat in
      (9 \<le> n \<and> n \<le> 13) \<or> (28 \<le> n \<and> n \<le> 32) \<or> n = 133 \<or> n = 160)"

definition py_strip :: "string \<Rightarrow> string" where
  "py_strip s = rev (dropWhile py_isspace (rev (dropWhile py_isspace s)))"

fun startswith :: "string \<Rightarrow> string \<Rightarrow> bool" where
  "startswith s [] = True"
| "startswith [] (p # ps) = False"
| "startswith (c # s) (p # ps) = (c = p \<and> startswith s ps)"

text \<open>\<^verbatim>\<open>needle in hay\<close> on strings.\<close>

fun str_in :: "string \<Rightarrow> string \<Rightarrow> bool" where
  "str_in n [] = (n = [])"
| "str_in n (c # s) = (startswith (c # s) n \<or> str_in n s)"

text \<open>\<^verbatim>\<open>s.split(sep, 1)\<close> around the first occurrence of a single character.\<close>

definition before_char :: "char \<Rightarrow> string \<Rightarrow> string" where
  "before_char c s = takeWhile (\<lambda>x. x \<noteq> c) s"

definition after_char :: "char \<Rightarrow> string \<Rightarrow> string" where
  "after_char c s = drop 1 (dropWhile (\<lambda>x. x \<noteq> c) s)"

fun py_join :: "string \<Rightarrow> string list \<Rightarrow> string" where
  "py_join sep [] = []"
| "py_join sep [x] = x"
| "py_join sep (x # y # ys) = x @ sep @ py_join sep (y # ys)"

definition digit_char :: "nat \<Rightarrow> char" where
  "digit_char d = char_of (48 + d)"

fun str_nat :: "nat \<Rightarrow> string" where
  "str_nat n = (if n < 10 then [digit_char n] else str_nat (n div 10) @ [digit_char (n mod 10)])"

declare str_nat.simps [simp del]

definition str_int :: "int \<Rightarrow> string" where
  "str_int i = (if i < 0 then CHR ''-'' # str_nat (nat (- i)) else str_nat (nat i))"

lemma startswith_prefix: "startswith s p \<longleftrightarrow> prefix p s"
  by (induction s p rule: startswith.induct) auto

lemma str_in_sublist: "str_in n s \<longleftrightarrow> sublist n s"
proof (induction s)
  case Nil
  then show ?case by simp
next
  case (Cons c s)
  then show ?case
    by (simp add: startswith_prefix sublist_Cons_right)
qed

lemma str_in_append: "str_in n (xs @ n @ ys)"
  by (auto simp: str_in_sublist)

lemma length_py_lower [simp]: "length (py_lower s) = length s"
  by (simp add: py_lower_def)

lemma py_lower_Nil [simp]: "py_lower [] = []"
  by (simp add: py_lower_def)

section \<open>UUID texts\<close>

text \<open>\<^verbatim>\<open>s.replace(p, "")\<close> for a non-empty \<open>p\<close>.\<close>

function py_remove :: "string \<Rightarrow> string \<Rightarrow> string" where
  "py_remove p [] = []"
| "py_remove p (c # s) =
     (if p \<noteq> [] \<and> startswith (c # s) p then py_remove p (drop (length p) (c # s)) else c # py_remove p s)"
  by pat_completeness auto
termination by (relation "measure (length o snd)") auto

text \<open>\<^verbatim>\<open>int(s, 16)\<close>: surrounding space, a sign, a \<^verbatim>\<open>0x\<close> prefix and single underscores between
  digits are accepted; \<open>None\<close> is \<^verbatim>\<open>ValueError\<close>.\<close>

definition hex_value :: "char \<Rightarrow> nat option" where
  "hex_value c =
     (let n = of_char c in
      if 48 \<le> n \<and> n \<le> 57 then Some (n - 48)
      else if 65 \<le> n \<and> n \<le> 70 then Some (n - 55)
      else if 97 \<le> n \<and> n \<le> 102 then Some (n - 87) else None)"

fun hex_digits :: "int \<Rightarrow> string \<Rightarrow> int option" where
  "hex_digits a [] = None"
| "hex_digits a [c] = map_option (\<lambda>d. 16 * a + int d) (hex_value c)"
| "hex_digits a (c # c' # s) =
     (case hex_value c of
        None \<Rightarrow> None
      | Some d \<Rightarrow> if c' = CHR ''_'' then hex_digits (16 * a + int d) s else hex_digits (16 * a + int d) (c' # s))"

definition hex_prefixed :: "string \<Rightarrow> int option" where
  "hex_prefixed s =
     (if startswith s ''0x'' \<or> startswith s ''0X''
      then (let t = drop 2 s in hex_digits 0 (if startswith t ''_'' then drop 1 t else t))
      else hex_digits 0 s)"

definition int16 :: "string \<Rightarrow> int option" where
  "int16 s =
     (let t = py_strip s in
      if startswith t ''-'' then map_option uminus (hex_prefixed (drop 1 t))
      else if startswith t ''+'' then hex_prefixed (drop 1 t)
      else hex_prefixed t)"

fun hex_text :: "nat \<Rightarrow> int \<Rightarrow> string" where
  "hex_text 0 n = []"
| "hex_text (Suc k) n = hex_text k (n div 16) @ [''0123456789abcdef'' ! nat (n mod 16)]"

definition strip_braces :: "string \<Rightarrow> string" where
  "strip_braces s =
     (let b = (\<lambda>c. c = CHR ''{'' \<or> c = CHR ''}'') in rev (dropWhile b (rev (dropWhile b s))))"

text \<open>\<^verbatim>\<open>str(uuid.UUID(s))\<close>; \<open>None\<close> is \<^verbatim>\<open>ValueError\<close>.\<close>

definition parse_uuid :: "string \<Rightarrow> uuid option" where
  "parse_uuid s =
     (let h = filter (\<lambda>c. c \<noteq> CHR ''-'') (strip_braces (py_remove ''uuid:'' (py_remove ''urn:'' s))) in
      if length h \<noteq> 32 then None
      else case int16 h of
        None \<Rightarrow> None
      | Some n \<Rightarrow>
          if n < 0 then None
          else (let t = hex_text 32 n in
            Some (take 8 t @ ''-'' @ take 4 (drop 8 t) @ ''-'' @ take 4 (drop 12 t) @ ''-'' @
                  take 4 (drop 16 t) @ ''-'' @ drop 20 t)))"

section \<open>Dictionaries\<close>

text \<open>
  A dictionary is its list of items in insertion order. Assignment to a present key keeps its
  place, a new key goes to the end; this is the \<^const>\<open>AList.update\<close> of the library.
\<close>

abbreviation dict_get :: "('k, 'v) pydict \<Rightarrow> 'k \<Rightarrow> 'v option" where
  "dict_get d k \<equiv> map_of d k"

abbreviation dict_set :: "'k \<Rightarrow> 'v \<Rightarrow> ('k, 'v) pydict \<Rightarrow> ('k, 'v) pydict" where
  "dict_set \<equiv> AList.update"

definition dict_get_or :: "'v \<Rightarrow> ('k, 'v) pydict \<Rightarrow> 'k \<Rightarrow> 'v" where
  "dict_get_or v d k = (case map_of d k of None \<Rightarrow> v | Some x \<Rightarrow> x)"

definition wf_dict :: "('k, 'v) pydict \<Rightarrow> bool" where
  "wf_dict d = distinct (map fst d)"

lemma wf_dict_Nil [simp]: "wf_dict []"
  by (simp add: wf_dict_def)

lemma wf_dict_set [intro]: "wf_dict d \<Longrightarrow> wf_dict (dict_set k v d)"
  by (simp add: wf_dict_def distinct_update)

lemma dict_get_set: "dict_get (dict_set k v d) k' = (if k' = k then Some v else dict_get d k')"
  by (simp add: update_conv)

lemma keys_dict_set: "set (map fst (dict_set k v d)) = insert k (set (map fst d))"
  by (simp add: update_keys insert_absorb)

section \<open>Exceptions\<close>

text \<open>The built-in exceptions the modelled code lets escape or catches by class.\<close>

datatype py_error = ValueError | TypeError | KeyError | AttributeError | RuntimeError

text \<open>A comprehension whose element expression may raise.\<close>

fun traverse :: "('a \<Rightarrow> 'e + 'b) \<Rightarrow> 'a list \<Rightarrow> 'e + 'b list" where
  "traverse f [] = Inr []"
| "traverse f (x # xs) =
     (case f x of Inl e \<Rightarrow> Inl e | Inr y \<Rightarrow> map_sum id (\<lambda>ys. y # ys) (traverse f xs))"

text \<open>Statements in sequence, the second one only when the first does not raise.\<close>

definition sum_bind :: "'e + 'a \<Rightarrow> ('a \<Rightarrow> 'e + 'b) \<Rightarrow> 'e + 'b" where
  "sum_bind r f = (case r of Inl e \<Rightarrow> Inl e | Inr x \<Rightarrow> f x)"

lemma sum_bind_simps [simp]: "sum_bind (Inl e) f = Inl e" "sum_bind (Inr x) f = f x"
  by (simp_all add: sum_bind_def)

lemma sum_bind_Inr_iff: "sum_bind r f = Inr z \<longleftrightarrow> (\<exists>x. r = Inr x \<and> f x = Inr z)"
  by (cases r) auto

lemma map_sum_Inr_iff: "map_sum f g r = Inr z \<longleftrightarrow> (\<exists>y. r = Inr y \<and> z = g y)"
  by (cases r) auto

lemma traverse_Inr_iff:
  "traverse f xs = Inr ys \<longleftrightarrow> list_all2 (\<lambda>x y. f x = Inr y) xs ys"
proof (induction xs arbitrary: ys)
  case (Cons x xs)
  show ?case
    using Cons.IH by (auto simp: list_all2_Cons1 map_sum_Inr_iff split: sum.split)
qed auto

lemma traverse_total: "(\<And>x. x \<in> set xs \<Longrightarrow> f x = Inr (g x)) \<Longrightarrow> traverse f xs = Inr (map g xs)"
  by (induction xs) auto

lemma traverse_Inr_set:
  assumes "traverse f xs = Inr ys"
  shows "\<And>y. y \<in> set ys \<Longrightarrow> \<exists>x \<in> set xs. f x = Inr y"
    and "\<And>x. x \<in> set xs \<Longrightarrow> \<exists>y \<in> set ys. f x = Inr y"
  using assms unfolding traverse_Inr_iff by (fastforce simp: list_all2_conv_all_nth in_set_conv_nth)+

section \<open>First maximum\<close>

text \<open>\<^verbatim>\<open>max(xs, key=f)\<close>: the first element among those of greatest key; the caller excludes
  the empty list.\<close>

fun max_by :: "('a \<Rightarrow> 'b::linorder) \<Rightarrow> 'a \<Rightarrow> 'a list \<Rightarrow> 'a" where
  "max_by f m [] = m"
| "max_by f m (x # xs) = max_by f (if f m < f x then x else m) xs"

lemma max_by_in: "max_by f m xs \<in> set (m # xs)"
  by (induction f m xs rule: max_by.induct) auto

lemma max_by_upper: "x \<in> set (m # xs) \<Longrightarrow> f x \<le> f (max_by f m xs)"
proof (induction f m xs arbitrary: x rule: max_by.induct)
  case (1 f m)
  then show ?case by simp
next
  case (2 f m y ys)
  let ?m = "if f m < f y then y else m"
  have top: "f ?m \<le> f (max_by f ?m ys)"
    by (rule "2.IH") simp
  show ?case
  proof (cases "x \<in> set ys")
    case True
    then show ?thesis using "2.IH" [of x] by simp
  next
    case False
    with "2.prems" have "f x \<le> f ?m" by auto
    with top show ?thesis by simp
  qed
qed

lemma max_by_key: "f (max_by f m xs) = Max (f ` set (m # xs))"
proof (rule Max_eqI [symmetric])
  show "f (max_by f m xs) \<in> f ` set (m # xs)"
    using max_by_in by (rule imageI)
qed (auto intro: max_by_upper [simplified])

end
