(* ===== verification/Binary64.thy ===== *)
theory Binary64
  imports Prelude Complex_Main "HOL-Library.Log_Nat"
begin

text \<open>
  Python floats. A finite binary64 number is represented by its exact rational value, and every
  arithmetic operation of the source is the exact operation followed by \<open>rnd64\<close>, the IEEE 754
  rounding to nearest, ties to even, with gradual underflow. A literal such as \<^verbatim>\<open>0.85\<close> is
  \<open>f64 (85/100)\<close>, the nearest binary64 number. Infinities, NaN, overflow and the sign of zero
  are outside the model: no operation of the modelled code divides by zero without a test, and
  its magnitudes are far from the overflow threshold.

  The locale \<open>rounding\<close> states what the components rely on (monotonicity and exactness on
  integers below \<open>2 ^ 53\<close>) and derives their numeric facts once; it is interpreted on
  \<open>rnd64\<close> at the end.
\<close>

section \<open>Rounding to an integer, ties to even\<close>

definition rne :: "rat \<Rightarrow> int" where
  "rne x =
     (let n = \<lfloor>x\<rfloor>; f = x - of_int n in
      if f < 1 / 2 then n else if 1 / 2 < f then n + 1 else if even n then n else n + 1)"

lemma rne_of_int [simp]: "rne (of_int n) = n"
  by (simp add: rne_def)

lemma rne_0 [simp]: "rne 0 = 0"
  using rne_of_int [of 0] by simp

lemma rne_bounds: "\<lfloor>x\<rfloor> \<le> rne x" "rne x \<le> \<lfloor>x\<rfloor> + 1"
  by (auto simp: rne_def Let_def)

lemma rne_mono:
  assumes "x \<le> y"
  shows "rne x \<le> rne y"
proof -
  have fl: "\<lfloor>x\<rfloor> \<le> \<lfloor>y\<rfloor>" using assms by (rule floor_mono)
  show ?thesis
  proof (cases "\<lfloor>x\<rfloor> = \<lfloor>y\<rfloor>")
    case True
    with assms show ?thesis by (auto simp: rne_def Let_def)
  next
    case False
    with fl have "\<lfloor>x\<rfloor> + 1 \<le> \<lfloor>y\<rfloor>" by simp
    with rne_bounds(2) [of x] rne_bounds(1) [of y] show ?thesis by linarith
  qed
qed

section \<open>The binary exponent\<close>

definition pow2 :: "int \<Rightarrow> rat" where
  "pow2 k = 2 powi k"

lemma pow2_pos [simp]: "0 < pow2 k"
  by (simp add: pow2_def)

lemma pow2_nonneg [simp]: "0 \<le> pow2 k"
  by (simp add: pow2_def)

lemma pow2_nonzero [simp]: "pow2 k \<noteq> 0"
  by (simp add: pow2_def)

lemma pow2_add: "pow2 (a + b) = pow2 a * pow2 b"
  by (simp add: pow2_def power_int_add)

lemma pow2_diff: "pow2 (a - b) = pow2 a / pow2 b"
  by (simp add: pow2_def power_int_diff)

lemma pow2_mono: "a \<le> b \<Longrightarrow> pow2 a \<le> pow2 b"
  by (simp add: pow2_def power_int_increasing)

lemma pow2_nat: "0 \<le> k \<Longrightarrow> pow2 k = of_int (2 ^ nat k)"
  by (simp add: pow2_def power_int_def)

lemma pow2_less_cancel: "pow2 a < pow2 b \<Longrightarrow> a < b"
  using pow2_mono [of b a] by linarith

text \<open>The \<open>e\<close> with \<open>2 powi e \<le> x < 2 powi (e + 1)\<close>, for a positive \<open>x\<close>.\<close>

function bit_length :: "int \<Rightarrow> int" where
  "bit_length n = (if n \<le> 0 then 0 else 1 + bit_length (n div 2))"
  by auto
termination by (relation "measure nat") auto

declare bit_length.simps [simp del]

lemma bit_length_floorlog: "bit_length n = int (floorlog 2 (nat n))"
proof (induction n rule: bit_length.induct)
  case (1 n)
  show ?case
  proof (cases "n \<le> 0")
    case False
    then have "floorlog 2 (nat n) = Suc (floorlog 2 (nat (n div 2)))"
      by (subst compute_floorlog) (simp add: nat_div_distrib)
    with 1 False show ?thesis by (subst bit_length.simps) simp
  qed (simp add: bit_length.simps floorlog_def)
qed

definition binexp :: "rat \<Rightarrow> int" where
  "binexp x =
     (let (a, b) = quotient_of x;
          k = bit_length a - bit_length b
      in if pow2 k \<le> x then k else k - 1)"

lemma floorlog2_pow2:
  assumes "0 < (n::int)"
  shows "pow2 (int (floorlog 2 (nat n)) - 1) \<le> of_int n"
    and "of_int n < pow2 (int (floorlog 2 (nat n)))"
proof -
  let ?l = "floorlog 2 (nat n)"
  from assms have b: "2 ^ (?l - 1) \<le> nat n" "nat n < 2 ^ ?l" and l: "0 < ?l"
    using floorlog_bounds [of "nat n" 2] by (auto simp: floorlog_def)
  have "int (2 ^ (?l - 1)) \<le> n" using b(1) assms by linarith
  then have "rat_of_int (2 ^ (?l - 1)) \<le> of_int n" by (simp only: of_int_le_iff) simp
  moreover have "pow2 (int ?l - 1) = of_int (2 ^ (?l - 1))"
    using l by (simp add: pow2_def power_int_def nat_diff_distrib)
  ultimately show "pow2 (int ?l - 1) \<le> of_int n" by simp
  have "n < int (2 ^ ?l)" using b(2) assms by linarith
  then have "rat_of_int n < of_int (2 ^ ?l)" by (simp only: of_int_less_iff) simp
  then show "of_int n < pow2 (int ?l)" by (simp add: pow2_nat)
qed

lemma binexp_bounds:
  assumes "0 < x"
  shows "pow2 (binexp x) \<le> x" and "x < pow2 (binexp x + 1)"
proof -
  obtain a b where q: "quotient_of x = (a, b)" by (cases "quotient_of x")
  have b: "0 < b" and x: "x = of_int a / of_int b"
    using q by (auto intro: quotient_of_denom_pos quotient_of_div)
  with assms have a: "0 < a" by (simp add: zero_less_divide_iff)
  let ?A = "int (floorlog 2 (nat a))" and ?B = "int (floorlog 2 (nat b))"
  note fa = floorlog2_pow2 [OF a] and fb = floorlog2_pow2 [OF b]
  have "x < pow2 ?A / pow2 (?B - 1)"
    unfolding x using fa(2) fb(1) by (intro frac_less) (use a in auto)
  then have up: "x < pow2 (?A - ?B + 1)" by (simp add: pow2_diff [symmetric] algebra_simps)
  have "pow2 (?A - 1) / pow2 ?B \<le> x"
    unfolding x using fa(1) fb(2) a b by (intro frac_le) auto
  then have lo: "pow2 (?A - ?B - 1) \<le> x" by (simp add: pow2_diff [symmetric] algebra_simps)
  show "pow2 (binexp x) \<le> x" "x < pow2 (binexp x + 1)"
    using up lo by (auto simp: binexp_def q Let_def bit_length_floorlog)
qed

section \<open>Rounding to binary64\<close>

definition ulp_exp :: "rat \<Rightarrow> int" where
  "ulp_exp x = max (binexp \<bar>x\<bar>) (-1022) - 52"

definition rnd64 :: "rat \<Rightarrow> rat" where
  "rnd64 x =
     (if x = 0 then 0
      else sgn x * (of_int (rne (\<bar>x\<bar> / pow2 (ulp_exp x))) * pow2 (ulp_exp x)))"

abbreviation f64 :: "rat \<Rightarrow> rat" where
  "f64 \<equiv> rnd64"

definition fadd :: "rat \<Rightarrow> rat \<Rightarrow> rat" where
  "fadd a b = rnd64 (a + b)"

definition fsub :: "rat \<Rightarrow> rat \<Rightarrow> rat" where
  "fsub a b = rnd64 (a - b)"

definition fmul :: "rat \<Rightarrow> rat \<Rightarrow> rat" where
  "fmul a b = rnd64 (a * b)"

definition fdiv :: "rat \<Rightarrow> rat \<Rightarrow> rat" where
  "fdiv a b = rnd64 (a / b)"

text \<open>\<^verbatim>\<open>int(x)\<close> truncates towards zero; \<^verbatim>\<open>round(x, n)\<close> rounds the exact value to \<open>n\<close>
  decimals, ties to even, and returns the nearest float.\<close>

definition py_int :: "rat \<Rightarrow> int" where
  "py_int x = (if x < 0 then \<lceil>x\<rceil> else \<lfloor>x\<rfloor>)"

definition py_round :: "rat \<Rightarrow> nat \<Rightarrow> rat" where
  "py_round x n = rnd64 (of_int (rne (x * 10 ^ n)) / 10 ^ n)"

text \<open>
  \<^verbatim>\<open>sum\<close> over floats. Since Python 3.12 it accumulates with Neumaier's compensation: the
  running total \<open>t\<close>, and the correction \<open>c\<close> added once at the end.
\<close>

definition neumaier_corr :: "rat \<Rightarrow> rat \<Rightarrow> rat \<Rightarrow> rat" where
  "neumaier_corr t x t' =
     (if \<bar>x\<bar> \<le> \<bar>t\<bar> then fadd (fsub t t') x else fadd (fsub x t') t)"

definition neumaier_next :: "rat \<Rightarrow> rat \<Rightarrow> rat \<Rightarrow> rat \<Rightarrow> rat \<times> rat" where
  "neumaier_next t c x t' = (t', fadd c (neumaier_corr t x t'))"

definition neumaier_step :: "rat \<times> rat \<Rightarrow> rat \<Rightarrow> rat \<times> rat" where
  "neumaier_step = (\<lambda>(t, c) x. neumaier_next t c x (fadd t x))"

definition neumaier_end :: "rat \<times> rat \<Rightarrow> rat" where
  "neumaier_end = (\<lambda>(t, c). if c = 0 then t else fadd t c)"

definition fsum :: "rat list \<Rightarrow> rat" where
  "fsum xs = neumaier_end (foldl neumaier_step (0, 0) xs)"

lemma rnd64_0 [simp]: "rnd64 0 = 0"
  by (simp add: rnd64_def)

lemma rnd64_minus: "rnd64 (- x) = - rnd64 x"
  by (simp add: rnd64_def ulp_exp_def sgn_minus)

lemma rnd64_pos_form:
  "0 < x \<Longrightarrow> rnd64 x = of_int (rne (x / pow2 (ulp_exp x))) * pow2 (ulp_exp x)"
  by (simp add: rnd64_def)

lemma rnd64_nonneg: "0 \<le> x \<Longrightarrow> 0 \<le> rnd64 x"
proof (cases "x = 0")
  case False
  assume "0 \<le> x"
  with False have "0 < x" by simp
  moreover from this have "rne 0 \<le> rne (x / pow2 (ulp_exp x))"
    by (intro rne_mono) (simp add: less_imp_le)
  ultimately show ?thesis by (simp add: rnd64_pos_form)
qed simp

lemma below_next_binade:
  assumes "0 < x"
  shows "x < pow2 (ulp_exp x + 53)"
proof -
  have "x < pow2 (binexp x + 1)" using assms by (rule binexp_bounds)
  also have "\<dots> \<le> pow2 (ulp_exp x + 53)"
    using assms by (intro pow2_mono) (simp add: ulp_exp_def)
  finally show ?thesis .
qed

lemma rnd64_le_next:
  assumes "0 < x"
  shows "rnd64 x \<le> pow2 (ulp_exp x + 53)"
proof -
  have "x < pow2 (ulp_exp x + 53)" using assms by (rule below_next_binade)
  also have "\<dots> = of_int (2 ^ 53) * pow2 (ulp_exp x)"
    by (simp add: pow2_add pow2_nat)
  finally have "x / pow2 (ulp_exp x) \<le> of_int (2 ^ 53)"
    by (simp add: pos_divide_le_eq del: of_int_power)
  then have "rne (x / pow2 (ulp_exp x)) \<le> rne (of_int (2 ^ 53))"
    by (rule rne_mono)
  then have "rnd64 x \<le> of_int (2 ^ 53) * pow2 (ulp_exp x)"
    unfolding rnd64_pos_form [OF assms] rne_of_int
    by (intro mult_right_mono) (simp_all only: of_int_le_iff, simp add: less_imp_le)
  then show ?thesis by (simp add: pow2_add pow2_nat)
qed

lemma rnd64_ge_binade:
  assumes "0 < x" "- 1022 \<le> binexp x"
  shows "pow2 (ulp_exp x + 52) \<le> rnd64 x"
proof -
  have u: "ulp_exp x + 52 = binexp x" using assms by (simp add: ulp_exp_def)
  have "of_int (2 ^ 52) * pow2 (ulp_exp x) = pow2 (binexp x)"
    using u by (simp add: pow2_nat flip: u pow2_add) (simp add: pow2_add pow2_nat)
  also have "\<dots> \<le> x" using assms(1) by (rule binexp_bounds)
  finally have "of_int (2 ^ 52) \<le> x / pow2 (ulp_exp x)"
    by (simp add: pos_le_divide_eq del: of_int_power)
  then have "rne (of_int (2 ^ 52)) \<le> rne (x / pow2 (ulp_exp x))"
    by (rule rne_mono)
  then have "of_int (2 ^ 52) * pow2 (ulp_exp x) \<le> rnd64 x"
    unfolding rnd64_pos_form [OF assms(1)] rne_of_int
    by (intro mult_right_mono) (simp_all only: of_int_le_iff, simp add: less_imp_le)
  then show ?thesis by (simp add: pow2_add pow2_nat)
qed

lemma rnd64_mono_pos:
  assumes "0 < x" "x \<le> y"
  shows "rnd64 x \<le> rnd64 y"
proof -
  have y: "0 < y" using assms by simp
  consider "ulp_exp x = ulp_exp y" | "ulp_exp x < ulp_exp y" | "ulp_exp y < ulp_exp x"
    by linarith
  then show ?thesis
  proof cases
    case 1
    have "rne (x / pow2 (ulp_exp y)) \<le> rne (y / pow2 (ulp_exp y))"
      using assms(2) by (intro rne_mono divide_right_mono) simp_all
    then show ?thesis
      unfolding rnd64_pos_form [OF assms(1)] rnd64_pos_form [OF y] 1
      by (intro mult_right_mono) (simp_all only: of_int_le_iff, simp)
  next
    case 2
    then have "- 1022 \<le> binexp y" using y by (auto simp: ulp_exp_def)
    then have "pow2 (ulp_exp y + 52) \<le> rnd64 y" by (rule rnd64_ge_binade [OF y])
    moreover have "rnd64 x \<le> pow2 (ulp_exp x + 53)" by (rule rnd64_le_next [OF assms(1)])
    moreover have "pow2 (ulp_exp x + 53) \<le> pow2 (ulp_exp y + 52)"
      using 2 by (intro pow2_mono) simp
    ultimately show ?thesis by linarith
  next
    case 3
    then have "ulp_exp x + 52 = binexp x" using assms(1) by (auto simp: ulp_exp_def)
    then have "pow2 (ulp_exp x + 52) \<le> x" using binexp_bounds(1) [OF assms(1)] by simp
    moreover have "pow2 (ulp_exp y + 53) \<le> pow2 (ulp_exp x + 52)"
      using 3 by (intro pow2_mono) simp
    ultimately show ?thesis using below_next_binade [OF y] assms(2) by linarith
  qed
qed

lemma rnd64_mono:
  assumes "x \<le> y"
  shows "rnd64 x \<le> rnd64 y"
proof (cases "0 < x")
  case True
  then show ?thesis using assms by (rule rnd64_mono_pos)
next
  case False
  show ?thesis
  proof (cases "y < 0")
    case True
    then have "rnd64 (- y) \<le> rnd64 (- x)" using assms by (intro rnd64_mono_pos) simp_all
    then show ?thesis by (simp add: rnd64_minus)
  next
    case yn: False
    have "0 \<le> rnd64 (- x)" using False by (intro rnd64_nonneg) simp
    moreover have "0 \<le> rnd64 y" using yn by (intro rnd64_nonneg) simp
    ultimately show ?thesis by (simp add: rnd64_minus)
  qed
qed

text \<open>Integers below \<open>2 ^ 53\<close> in magnitude are representable.\<close>

lemma rnd64_of_nat_exact:
  assumes "0 < n" "n < 2 ^ 53"
  shows "rnd64 (of_int n) = of_int n"
proof -
  let ?x = "rat_of_int n" and ?u = "ulp_exp (of_int n)"
  have x: "0 < ?x" using assms by simp
  have "pow2 (binexp ?x) < pow2 53"
    using binexp_bounds(1) [OF x] assms(2)
    by (simp add: pow2_nat)
  then have u: "?u \<le> 0" using x pow2_less_cancel by (fastforce simp: ulp_exp_def)
  then have "?x / pow2 ?u = of_int (n * 2 ^ nat (- ?u))"
    using pow2_nat [of "- ?u"] pow2_diff [of 0 ?u] by (simp add: pow2_def)
  then have "of_int (rne (?x / pow2 ?u)) = ?x / pow2 ?u" by (simp only: rne_of_int)
  then show ?thesis by (simp add: rnd64_pos_form [OF x])
qed

lemma rnd64_of_int:
  assumes "\<bar>n\<bar> < 2 ^ 53"
  shows "rnd64 (of_int n) = of_int n"
proof -
  consider "n = 0" | "0 < n" | "n < 0" by linarith
  then show ?thesis
  proof cases
    case 3
    then have "rnd64 (of_int (- n)) = of_int (- n)"
      using assms by (intro rnd64_of_nat_exact) auto
    then show ?thesis by (simp add: rnd64_minus)
  qed (use assms rnd64_of_nat_exact in auto)
qed

section \<open>What the components rely on\<close>

locale rounding =
  fixes rnd :: "rat \<Rightarrow> rat"
  assumes rnd_mono: "x \<le> y \<Longrightarrow> rnd x \<le> rnd y"
    and rnd_int: "\<bar>n\<bar> < 2 ^ 53 \<Longrightarrow> rnd (of_int n) = of_int n"
begin

lemma rnd_zero: "rnd 0 = 0"
  using rnd_int [of 0] by simp

lemma rnd_one: "rnd 1 = 1"
  using rnd_int [of 1] by simp

lemma rnd_ge_int: "\<bar>n\<bar> < 2 ^ 53 \<Longrightarrow> of_int n \<le> x \<Longrightarrow> of_int n \<le> rnd x"
  using rnd_mono rnd_int by metis

lemma rnd_le_int: "\<bar>n\<bar> < 2 ^ 53 \<Longrightarrow> x \<le> of_int n \<Longrightarrow> rnd x \<le> of_int n"
  using rnd_mono rnd_int by metis

lemma rnd_unit: "0 \<le> x \<Longrightarrow> x \<le> 1 \<Longrightarrow> 0 \<le> rnd x \<and> rnd x \<le> 1"
  using rnd_ge_int [of 0 x] rnd_le_int [of 1 x] by simp

text \<open>A ratio of counts lies in the unit interval after rounding.\<close>

lemma rnd_ratio_unit:
  assumes "0 \<le> a" "a \<le> b"
  shows "0 \<le> rnd (a / b) \<and> rnd (a / b) \<le> 1"
proof (cases "b = 0")
  case True
  then show ?thesis by (simp add: rnd_zero)
next
  case False
  with assms have "0 < b" by simp
  with assms show ?thesis by (intro rnd_unit) (simp_all add: divide_le_eq_1)
qed

text \<open>The integer threshold \<^verbatim>\<open>int(rate * 10_000)\<close> of a rate between 0 and 1.\<close>

lemma scaled_floor_mono: "x \<le> y \<Longrightarrow> \<lfloor>rnd (x * 10000)\<rfloor> \<le> \<lfloor>rnd (y * 10000)\<rfloor>"
  by (intro floor_mono rnd_mono) simp

lemma scaled_floor_bounds:
  assumes "0 \<le> x" "x \<le> 1"
  shows "0 \<le> \<lfloor>rnd (x * 10000)\<rfloor>" "\<lfloor>rnd (x * 10000)\<rfloor> \<le> 10000"
proof -
  have "of_int 0 \<le> rnd (x * 10000)" "rnd (x * 10000) \<le> of_int 10000"
    using assms rnd_ge_int [of 0 "x * 10000"] rnd_le_int [of 10000 "x * 10000"] by simp_all
  then show "0 \<le> \<lfloor>rnd (x * 10000)\<rfloor>" "\<lfloor>rnd (x * 10000)\<rfloor> \<le> 10000"
    by (simp_all add: floor_le_iff)
qed

end

interpretation b64: rounding rnd64
  by unfold_locales (auto intro: rnd64_mono rnd64_of_int)

lemma rnd64_1 [simp]: "rnd64 1 = 1"
  by (rule b64.rnd_one)

lemma py_int_nonneg: "0 \<le> x \<Longrightarrow> py_int x = \<lfloor>x\<rfloor>"
  by (simp add: py_int_def)

lemma py_round_mono: "x \<le> y \<Longrightarrow> py_round x n \<le> py_round y n"
  unfolding py_round_def
  by (intro rnd64_mono divide_right_mono) (simp_all add: rne_mono mult_right_mono)

lemma py_round_of_int: "\<bar>k\<bar> < 2 ^ 53 \<Longrightarrow> py_round (of_int k) n = of_int k"
  using rne_of_int [of "k * 10 ^ n"] by (simp add: py_round_def rnd64_of_int)

lemma py_round_unit: "0 \<le> x \<Longrightarrow> x \<le> 1 \<Longrightarrow> 0 \<le> py_round x n \<and> py_round x n \<le> 1"
  using py_round_mono [of 0 x n] py_round_mono [of x 1 n] py_round_of_int [of 0 n] py_round_of_int [of 1 n]
  by simp

end
