(* ===== verification/Verdicts.thy ===== *)
theory Verdicts
  imports Prelude Binary64 "HOL-Library.Char_ord" "HOL-Library.List_Lexorder"
begin

text \<open>
  The verdicts component: \<^verbatim>\<open>auditor/verdicts/schemas.py\<close> (the data), \<^verbatim>\<open>severity.py\<close>
  (classification of one verdict and of a run), \<^verbatim>\<open>aggregator.py\<close> (the reduction of a run's
  verdicts to one flag) and \<^verbatim>\<open>checks.py\<close> (the four operator lenses). Identifiers and time
  stamps that the code draws from \<^verbatim>\<open>uuid7()\<close> and the clock are arguments of the operations.
\<close>

section \<open>Data\<close>

datatype verdict_result = VIOLATION | OK | NEEDS_REVIEW

datatype severity = LOW | MEDIUM | HIGH | CRITICAL

record evidence =
  ev_event_id :: "uuid option"
  ev_reason :: string

record verdict =
  vd_verdict_id :: uuid
  vd_run_id :: uuid
  vd_tenant_id :: uuid
  vd_detector :: string
  vd_asi_category :: string
  vd_result :: verdict_result
  vd_confidence :: rat
  vd_evidence :: "evidence list"
  vd_judge_model :: "string option"
  vd_judge_prompt_v :: "int option"
  vd_rubric_scores :: "(string, json) pydict option"
  vd_ts :: timestamp

section \<open>Severity\<close>

fun ORDER :: "severity \<Rightarrow> nat" where
  "ORDER LOW = 0"
| "ORDER MEDIUM = 1"
| "ORDER HIGH = 2"
| "ORDER CRITICAL = 3"

instantiation severity :: linorder
begin

definition less_eq_severity :: "severity \<Rightarrow> severity \<Rightarrow> bool" where
  "less_eq_severity a b = (ORDER a \<le> ORDER b)"

definition less_severity :: "severity \<Rightarrow> severity \<Rightarrow> bool" where
  "less_severity a b = (ORDER a < ORDER b)"

instance
proof
  fix a b :: severity
  show "a \<le> b \<Longrightarrow> b \<le> a \<Longrightarrow> a = b"
    by (cases a; cases b) (simp_all add: less_eq_severity_def)
qed (auto simp: less_eq_severity_def less_severity_def)

end

definition severity_value :: "severity \<Rightarrow> string" where
  "severity_value s =
     (case s of LOW \<Rightarrow> ''low'' | MEDIUM \<Rightarrow> ''medium'' | HIGH \<Rightarrow> ''high'' | CRITICAL \<Rightarrow> ''critical'')"

text \<open>\<^verbatim>\<open>Severity(x)\<close>: the member with that value, or \<^verbatim>\<open>ValueError\<close> (\<open>None\<close>).\<close>

definition severity_of :: "json \<Rightarrow> severity option" where
  "severity_of j =
     (case j of
        JStr s \<Rightarrow> find (\<lambda>m. severity_value m = s) [LOW, MEDIUM, HIGH, CRITICAL]
      | _ \<Rightarrow> None)"

definition CRITICAL_CATEGORIES :: "string list" where
  "CRITICAL_CATEGORIES = [''ASI04'', ''ASI07'']"

definition HIGH_CONFIDENCE :: rat where
  "HIGH_CONFIDENCE = f64 (75 / 100)"

definition classify_violation :: "verdict \<Rightarrow> severity" where
  "classify_violation v =
     (if vd_detector v = ''channel_divergence'' \<or> vd_asi_category v \<in> set CRITICAL_CATEGORIES
      then CRITICAL
      else if HIGH_CONFIDENCE \<le> vd_confidence v then HIGH else MEDIUM)"

definition classify :: "verdict \<Rightarrow> severity option" where
  "classify v =
     (case vd_result v of
        OK \<Rightarrow> None
      | NEEDS_REVIEW \<Rightarrow> Some LOW
      | VIOLATION \<Rightarrow>
          (let scores = (case vd_rubric_scores v of None \<Rightarrow> [] | Some d \<Rightarrow> d) in
           case dict_get scores ''severity'' of
             Some x \<Rightarrow> (case severity_of x of Some s \<Rightarrow> Some s | None \<Rightarrow> Some (classify_violation v))
           | None \<Rightarrow> Some (classify_violation v)))"

definition score_severity :: "verdict list \<Rightarrow> severity" where
  "score_severity vs =
     (case List.map_filter classify vs of
        [] \<Rightarrow> LOW
      | s # ss \<Rightarrow> max_by ORDER s ss)"

section \<open>Aggregation into a flag\<close>

definition JUDGE_DETECTORS :: "string list" where
  "JUDGE_DETECTORS =
     [''asi01_goal_hijack'', ''asi06_memory_poisoning'', ''asi09_trust_exploit'', ''asi10_rogue_agent'']"

record flag =
  fl_flag_id :: uuid
  fl_run_id :: uuid
  fl_tenant_id :: uuid
  fl_severity :: severity
  fl_asi_categories :: "string list"
  fl_verdict_ids :: "uuid list"
  fl_status :: string
  fl_confidence :: rat
  fl_evidence :: "evidence list"
  fl_created_at :: timestamp

text \<open>\<^verbatim>\<open>x or d\<close> on a float.\<close>

definition or_float :: "rat \<Rightarrow> rat \<Rightarrow> rat" where
  "or_float x d = (if x = 0 then d else x)"

definition verdict_weight :: "verdict \<Rightarrow> rat" where
  "verdict_weight v =
     (if vd_detector v \<in> set JUDGE_DETECTORS then or_float (vd_confidence v) 0 else 1)"

definition verdict_conf :: "verdict \<Rightarrow> rat" where
  "verdict_conf v = fmul (or_float (vd_confidence v) 1) (verdict_weight v)"

definition weighted_confidence :: "verdict list \<Rightarrow> rat" where
  "weighted_confidence vs =
     (if fsum (map verdict_weight vs) = 0 then 1
      else fdiv (fsum (map verdict_conf vs)) (fsum (map verdict_weight vs)))"

definition evidence_key :: "evidence \<Rightarrow> string \<times> string" where
  "evidence_key e = (case ev_event_id e of None \<Rightarrow> ''None'' | Some u \<Rightarrow> u, ev_reason e)"

text \<open>The deduplication loop, with its \<^verbatim>\<open>seen\<close> set.\<close>

fun dedupe :: "(string \<times> string) list \<Rightarrow> evidence list \<Rightarrow> evidence list" where
  "dedupe seen [] = []"
| "dedupe seen (e # es) =
     (if evidence_key e \<in> set seen then dedupe seen es
      else e # dedupe (evidence_key e # seen) es)"

definition aggregate :: "uuid \<Rightarrow> timestamp \<Rightarrow> uuid \<Rightarrow> uuid \<Rightarrow> verdict list \<Rightarrow> flag option" where
  "aggregate fresh now run_id tenant_id verdicts =
     (let actionable = filter (\<lambda>v. vd_result v \<noteq> OK) verdicts in
      if actionable = [] then None
      else Some \<lparr>
        fl_flag_id = fresh,
        fl_run_id = run_id,
        fl_tenant_id = tenant_id,
        fl_severity = score_severity actionable,
        fl_asi_categories = sort (remdups (map vd_asi_category actionable)),
        fl_verdict_ids = map vd_verdict_id actionable,
        fl_status = ''open'',
        fl_confidence = py_round (weighted_confidence actionable) 4,
        fl_evidence = dedupe [] (concat (map vd_evidence actionable)),
        fl_created_at = now \<rparr>)"

section \<open>The operator checks\<close>

datatype check =
  INSTRUCTION_FOLLOWING | UNAUTHORIZED_ACCESS | DATA_EXFILTRATION | SENSITIVE_DATA_HYGIENE

definition check_value :: "check \<Rightarrow> string" where
  "check_value c =
     (case c of
        INSTRUCTION_FOLLOWING \<Rightarrow> ''instruction_following''
      | UNAUTHORIZED_ACCESS \<Rightarrow> ''unauthorized_access''
      | DATA_EXFILTRATION \<Rightarrow> ''data_exfiltration''
      | SENSITIVE_DATA_HYGIENE \<Rightarrow> ''sensitive_data_hygiene'')"

definition DETECTOR_CHECK :: "(string, check) pydict" where
  "DETECTOR_CHECK =
     [(''instruction_following'', INSTRUCTION_FOLLOWING),
      (''asi01_goal_hijack'', INSTRUCTION_FOLLOWING),
      (''asi10_rogue_agent'', INSTRUCTION_FOLLOWING),
      (''asi09_trust_exploit'', INSTRUCTION_FOLLOWING),
      (''asi02_tool_misuse'', UNAUTHORIZED_ACCESS),
      (''asi03_identity_abuse'', UNAUTHORIZED_ACCESS),
      (''asi04_supply_chain'', UNAUTHORIZED_ACCESS),
      (''asi04_catalog_integrity'', UNAUTHORIZED_ACCESS),
      (''asi05_code_execution'', UNAUTHORIZED_ACCESS),
      (''asi08_cascading'', UNAUTHORIZED_ACCESS),
      (''asi07_inter_agent'', DATA_EXFILTRATION),
      (''channel_divergence'', DATA_EXFILTRATION),
      (''asi06_memory_poisoning'', SENSITIVE_DATA_HYGIENE)]"

definition CATEGORY_CHECK :: "(string, check) pydict" where
  "CATEGORY_CHECK =
     [(''INSTRUCTION_FOLLOWING'', INSTRUCTION_FOLLOWING),
      (''ASI01'', INSTRUCTION_FOLLOWING),
      (''ASI10'', INSTRUCTION_FOLLOWING),
      (''ASI09'', INSTRUCTION_FOLLOWING),
      (''ASI02'', UNAUTHORIZED_ACCESS),
      (''ASI03'', UNAUTHORIZED_ACCESS),
      (''ASI04'', UNAUTHORIZED_ACCESS),
      (''ASI05'', UNAUTHORIZED_ACCESS),
      (''ASI08'', UNAUTHORIZED_ACCESS),
      (''ASI07'', DATA_EXFILTRATION),
      (''ASI06'', SENSITIVE_DATA_HYGIENE)]"

definition check_for_detector :: "string \<Rightarrow> string option \<Rightarrow> check option" where
  "check_for_detector detector asi_category =
     (case dict_get DETECTOR_CHECK detector of
        Some c \<Rightarrow> Some c
      | None \<Rightarrow>
          (case asi_category of
             None \<Rightarrow> None
           | Some a \<Rightarrow> if a = [] then None else dict_get CATEGORY_CHECK a))"

text \<open>One turn of the grouping loop; \<^verbatim>\<open>grouped.setdefault(k, []).append(v)\<close>.\<close>

definition check_of :: "verdict \<Rightarrow> check option" where
  "check_of v =
     (if vd_result v = OK then None else check_for_detector (vd_detector v) (Some (vd_asi_category v)))"

definition group_add :: "(string, verdict list) pydict \<Rightarrow> verdict \<Rightarrow> (string, verdict list) pydict" where
  "group_add grouped v =
     (case check_of v of
        None \<Rightarrow> grouped
      | Some c \<Rightarrow> dict_set (check_value c) (dict_get_or [] grouped (check_value c) @ [v]) grouped)"

definition checks_for_verdicts :: "verdict list \<Rightarrow> (string, verdict list) pydict" where
  "checks_for_verdicts vs = foldl group_add [] vs"


section \<open>Facts about the loops\<close>

lemma severity_of_value: "severity_of (JStr (severity_value s)) = Some s"
  by (cases s) (simp_all add: severity_of_def severity_value_def)

lemma set_map_filter_these: "set (List.map_filter f xs) = Option.these (f ` set xs)"
  by (induction xs) (auto simp: map_filter_def Option.these_def)

lemma score_severity_alt: "score_severity vs = Max (insert LOW (set (List.map_filter classify vs)))"
proof (cases "List.map_filter classify vs")
  case Nil
  then show ?thesis by (simp add: score_severity_def)
next
  case (Cons s ss)
  have "max_by ORDER s ss = Max (insert LOW (set (s # ss)))"
  proof (rule Max_eqI [symmetric])
    fix x assume "x \<in> insert LOW (set (s # ss))"
    then show "x \<le> max_by ORDER s ss"
      using max_by_upper [of x s ss ORDER] by (auto simp: less_eq_severity_def)
  qed (use max_by_in [of ORDER s ss] in auto)
  with Cons show ?thesis by (simp add: score_severity_def)
qed

lemma score_severity_append: "score_severity (vs @ ws) = max (score_severity vs) (score_severity ws)"
proof -
  have "insert LOW (set (List.map_filter classify (vs @ ws))) =
      insert LOW (set (List.map_filter classify vs)) \<union> insert LOW (set (List.map_filter classify ws))"
    by (auto simp: map_filter_def)
  then show ?thesis by (simp only: score_severity_alt) (rule Max_Un, auto)
qed

lemma classify_None_iff [simp]: "classify v = None \<longleftrightarrow> vd_result v = OK"
  by (auto simp: classify_def Let_def split: verdict_result.splits option.splits)

lemma score_severity_actionable:
  "score_severity (filter (\<lambda>v. vd_result v \<noteq> OK) vs) = score_severity vs"
  by (simp add: score_severity_def map_filter_def filter_filter)

lemma dedupe_sublist: "subseq (dedupe seen es) es"
  by (induction seen es rule: dedupe.induct) auto

lemma dedupe_keys:
  "evidence_key ` set (dedupe seen es) = evidence_key ` set es - set seen"
  by (induction seen es rule: dedupe.induct) auto

lemma dedupe_distinct: "distinct (map evidence_key (dedupe seen es))"
proof (induction seen es rule: dedupe.induct)
  case (2 seen e es)
  then show ?case
    using dedupe_keys [of "evidence_key e # seen" es] by (auto simp flip: set_map)
qed simp

lemma group_add_get:
  "dict_get (group_add g v) k =
     (if map_option check_value (check_of v) = Some k then Some (dict_get_or [] g k @ [v]) else dict_get g k)"
  by (auto simp: group_add_def update_conv split: option.splits)

lemma group_fold_get:
  "dict_get_or [] (foldl group_add g vs) k =
     dict_get_or [] g k @ filter (\<lambda>v. map_option check_value (check_of v) = Some k) vs"
  by (induction vs arbitrary: g) (auto simp: dict_get_or_def group_add_get)

lemma group_fold_keys:
  "dict_get (foldl group_add g vs) k = None \<longleftrightarrow>
     dict_get g k = None \<and> (\<forall>v \<in> set vs. map_option check_value (check_of v) \<noteq> Some k)"
  by (induction vs arbitrary: g) (auto simp: group_add_get)

lemma group_add_wf: "wf_dict g \<Longrightarrow> wf_dict (group_add g v)"
  by (auto simp: group_add_def split: option.splits)

lemma group_fold_wf: "wf_dict g \<Longrightarrow> wf_dict (foldl group_add g vs)"
  by (induction vs arbitrary: g) (auto intro: group_add_wf)

lemma neumaier_one:
  assumes "k + 1 < 2 ^ 53"
  shows "neumaier_step (of_nat k, 0) 1 = (of_nat (k + 1), 0)"
proof -
  have "int (k + 1) < 2 ^ 53" using assms by (simp flip: of_nat_less_iff)
  then have t: "rnd64 (rat_of_nat k + 1) = rat_of_nat k + 1"
    using rnd64_of_int [of "int (k + 1)"] by (simp add: add.commute)
  have m: "rnd64 (- 1) = - 1" using rnd64_minus [of 1] by simp
  show ?thesis
  proof (cases "k = 0")
    case True
    then show ?thesis
      by (simp add: neumaier_step_def neumaier_next_def neumaier_corr_def fadd_def fsub_def)
  next
    case False
    then have "1 \<le> rat_of_nat k" by simp
    then show ?thesis
      using t m by (simp add: neumaier_step_def neumaier_next_def neumaier_corr_def fadd_def fsub_def add.commute)
  qed
qed

lemma sum_of_ones:
  assumes "k + length xs < 2 ^ 53" "set xs \<subseteq> {1}"
  shows "foldl neumaier_step (of_nat k, 0) xs = (of_nat (k + length xs), 0)"
  using assms
proof (induction xs arbitrary: k)
  case (Cons x xs)
  then have "neumaier_step (of_nat k, 0) x = (of_nat (k + 1), 0)"
    using neumaier_one [of k] by simp
  then show ?case using Cons.IH [of "k + 1"] Cons.prems by simp
qed simp

lemma fsum_ones:
  assumes "length xs < 2 ^ 53" "set xs \<subseteq> {1}"
  shows "fsum xs = of_nat (length xs)"
  using sum_of_ones [of 0 xs] assms by (simp add: fsum_def neumaier_end_def)


lemma dedupe_append: "\<exists>zs. dedupe seen (xs @ ys) = dedupe seen xs @ zs"
  by (induction seen xs rule: dedupe.induct) auto

section \<open>Properties\<close>

text \<open>
  C1. \<^verbatim>\<open>aggregate\<close> returns nothing exactly when every verdict is OK; otherwise the flag carries
  the greatest severity among the verdicts, the sorted set of the categories of the non-OK
  verdicts, their identifiers in order, and their evidence with exactly one entry per
  (event, reason) pair, the first one.
\<close>

theorem aggregate_correct:
  "case aggregate fresh now r t vs of
     None \<Rightarrow> list_all (\<lambda>v. vd_result v = OK) vs
   | Some f \<Rightarrow>
       list_ex (\<lambda>v. vd_result v \<noteq> OK) vs \<and>
       fl_run_id f = r \<and> fl_tenant_id f = t \<and> fl_status f = ''open'' \<and>
       fl_severity f = Max (insert LOW (Option.these (classify ` set vs))) \<and>
       sorted (fl_asi_categories f) \<and> distinct (fl_asi_categories f) \<and>
       set (fl_asi_categories f) = {vd_asi_category v | v. v \<in> set vs \<and> vd_result v \<noteq> OK} \<and>
       fl_verdict_ids f = [vd_verdict_id v. v \<leftarrow> vs, vd_result v \<noteq> OK] \<and>
       distinct (map evidence_key (fl_evidence f)) \<and>
       subseq (fl_evidence f) (concat [vd_evidence v. v \<leftarrow> vs, vd_result v \<noteq> OK]) \<and>
       evidence_key ` set (fl_evidence f) =
         {evidence_key e | e v. v \<in> set vs \<and> vd_result v \<noteq> OK \<and> e \<in> set (vd_evidence v)}"
proof -
  let ?act = "filter (\<lambda>v. vd_result v \<noteq> OK) vs"
  have sev: "score_severity ?act = Max (insert LOW (Option.these (classify ` set vs)))"
    by (simp only: score_severity_actionable) (simp add: score_severity_alt set_map_filter_these)
  have keys: "evidence_key ` set (dedupe [] (concat (map vd_evidence ?act))) =
      {evidence_key e | e v. v \<in> set vs \<and> vd_result v \<noteq> OK \<and> e \<in> set (vd_evidence v)}"
    by (auto simp: dedupe_keys)
  have comp: "[f v. v \<leftarrow> vs, vd_result v \<noteq> OK] = map f ?act" for f :: "verdict \<Rightarrow> 'b"
    by (induction vs) auto
  show ?thesis
  proof (cases "?act = []")
    case True
    then show ?thesis by (auto simp: aggregate_def filter_empty_conv list_all_iff)
  next
    case False
    then show ?thesis
      using sev keys dedupe_sublist [of "[]" "concat (map vd_evidence ?act)"]
      by (auto simp: aggregate_def Let_def dedupe_distinct comp filter_empty_conv list_ex_iff)
  qed
qed

text \<open>
  C2. A run's flag only grows: with further verdicts there is still a flag, its severity is at
  least as high, and its verdicts and evidence extend the earlier ones.
\<close>

theorem aggregate_grows:
  assumes "aggregate fresh now r t vs = Some f"
  shows "\<exists>g. aggregate fresh now r t (vs @ ws) = Some g \<and> fl_severity f \<le> fl_severity g \<and>
    prefix (fl_verdict_ids f) (fl_verdict_ids g) \<and> prefix (fl_evidence f) (fl_evidence g) \<and>
    set (fl_asi_categories f) \<subseteq> set (fl_asi_categories g)"
proof -
  let ?a = "filter (\<lambda>v. vd_result v \<noteq> OK)"
  have a: "?a vs \<noteq> []" and f: "fl_severity f = score_severity (?a vs)"
      "fl_verdict_ids f = map vd_verdict_id (?a vs)"
      "fl_evidence f = dedupe [] (concat (map vd_evidence (?a vs)))"
      "set (fl_asi_categories f) = vd_asi_category ` set (?a vs)"
    using assms by (auto simp: aggregate_def Let_def split: if_splits)
  obtain g where g: "aggregate fresh now r t (vs @ ws) = Some g"
    using a by (simp add: aggregate_def Let_def)
  then have "fl_severity g = score_severity (?a vs @ ?a ws)"
      "fl_verdict_ids g = map vd_verdict_id (?a vs @ ?a ws)"
      "fl_evidence g = dedupe [] (concat (map vd_evidence (?a vs)) @ concat (map vd_evidence (?a ws)))"
      "set (fl_asi_categories g) = vd_asi_category ` set (?a vs @ ?a ws)"
    by (auto simp: aggregate_def Let_def split: if_splits)
  with f g show ?thesis
    using dedupe_append [of "[]" "concat (map vd_evidence (?a vs))" "concat (map vd_evidence (?a ws))"]
    by (auto simp: score_severity_append)
qed

definition sample_verdict :: "string \<Rightarrow> string \<Rightarrow> verdict_result \<Rightarrow> rat \<Rightarrow> verdict" where
  "sample_verdict d a r c =
     \<lparr> vd_verdict_id = ''v1'', vd_run_id = ''r1'', vd_tenant_id = ''t1'', vd_detector = d,
       vd_asi_category = a, vd_result = r, vd_confidence = c,
       vd_evidence = [\<lparr> ev_event_id = None, ev_reason = ''x'' \<rparr>],
       vd_judge_model = None, vd_judge_prompt_v = None, vd_rubric_scores = None, vd_ts = 0 \<rparr>"

theorem aggregate_grows_witness:
  "\<exists>f g. aggregate ''f1'' 0 ''r1'' ''t1'' [sample_verdict ''asi08_cascading'' ''ASI08'' NEEDS_REVIEW 1] = Some f \<and>
     fl_severity f = LOW \<and>
     aggregate ''f1'' 0 ''r1'' ''t1'' ([sample_verdict ''asi08_cascading'' ''ASI08'' NEEDS_REVIEW 1] @
       [sample_verdict ''asi07_inter_agent'' ''ASI07'' VIOLATION 1]) = Some g \<and>
     fl_severity f \<le> fl_severity g \<and> fl_severity g = CRITICAL"
proof -
  let ?v = "sample_verdict ''asi08_cascading'' ''ASI08'' NEEDS_REVIEW 1"
  let ?w = "sample_verdict ''asi07_inter_agent'' ''ASI07'' VIOLATION 1"
  obtain f where f: "aggregate ''f1'' 0 ''r1'' ''t1'' [?v] = Some f" "fl_severity f = LOW"
    by (simp add: aggregate_def Let_def sample_verdict_def score_severity_def map_filter_def classify_def)
  have "\<exists>g. aggregate ''f1'' 0 ''r1'' ''t1'' ([?v] @ [?w]) = Some g \<and> fl_severity g = CRITICAL"
    by (simp add: aggregate_def Let_def sample_verdict_def score_severity_def map_filter_def
        classify_def classify_violation_def CRITICAL_CATEGORIES_def)
  with aggregate_grows [OF f(1), of "[?w]"] f show ?thesis by auto
qed

text \<open>
  Confidence of a run whose findings are all deterministic, each reported with confidence 1
  or 0 (the latter is what the orchestrator gives a crashed detector): the flag's confidence is
  1.0, since \<^verbatim>\<open>confidence or 1.0\<close> turns a 0 into 1.
\<close>

theorem aggregate_deterministic_confidence:
  assumes "aggregate fresh now r t vs = Some f" "length vs < 2 ^ 53"
    and "\<And>v. v \<in> set vs \<Longrightarrow> vd_result v \<noteq> OK \<Longrightarrow>
           vd_detector v \<notin> set JUDGE_DETECTORS \<and> vd_confidence v \<in> {0, 1}"
  shows "fl_confidence f = 1"
proof -
  let ?a = "filter (\<lambda>v. vd_result v \<noteq> OK) vs"
  have a: "?a \<noteq> []" and f: "fl_confidence f = py_round (weighted_confidence ?a) 4"
    using assms(1) by (auto simp: aggregate_def Let_def split: if_splits)
  have "length ?a < 2 ^ 53" using assms(2) length_filter_le [of "\<lambda>v. vd_result v \<noteq> OK" vs] by linarith
  then have "fsum (map verdict_weight ?a) = of_nat (length ?a)"
    by (subst fsum_ones) (use assms(3) in \<open>auto simp: verdict_weight_def\<close>)
  moreover have "fsum (map verdict_conf ?a) = of_nat (length ?a)"
    using \<open>length ?a < 2 ^ 53\<close>
    by (subst fsum_ones)
      (use assms(3) in \<open>fastforce simp: verdict_conf_def verdict_weight_def or_float_def fmul_def\<close>)+
  ultimately have "weighted_confidence ?a = 1"
    using a by (simp add: weighted_confidence_def fdiv_def del: filter_empty_conv)
  then show ?thesis using py_round_of_int [of 1 4] f by simp
qed

theorem aggregate_deterministic_confidence_witness:
  "map_option fl_confidence
     (aggregate ''f1'' 0 ''r1'' ''t1'' [sample_verdict ''ToolMisuseDetector'' ''ASI02'' NEEDS_REVIEW 0]) = Some 1"
proof -
  let ?v = "sample_verdict ''ToolMisuseDetector'' ''ASI02'' NEEDS_REVIEW 0"
  obtain f where f: "aggregate ''f1'' 0 ''r1'' ''t1'' [?v] = Some f"
    by (simp add: aggregate_def Let_def sample_verdict_def)
  then have "fl_confidence f = 1"
    by (rule aggregate_deterministic_confidence) (auto simp: sample_verdict_def JUDGE_DETECTORS_def)
  with f show ?thesis by simp
qed

text \<open>
  \<^verbatim>\<open>checks_for_verdicts\<close> lists under a check's value exactly the non-OK verdicts that map to
  it, in their order, with no empty group and no key twice.
\<close>

theorem checks_for_verdicts_groups:
  "wf_dict (checks_for_verdicts vs) \<and>
   dict_get (checks_for_verdicts vs) k =
     (let group = [v \<leftarrow> vs. vd_result v \<noteq> OK \<and>
            map_option check_value (check_for_detector (vd_detector v) (Some (vd_asi_category v))) = Some k]
      in if group = [] then None else Some group)"
proof -
  let ?in = "\<lambda>v. map_option check_value (check_of v) = Some k"
  have g: "filter ?in vs = [v \<leftarrow> vs. vd_result v \<noteq> OK \<and>
      map_option check_value (check_for_detector (vd_detector v) (Some (vd_asi_category v))) = Some k]"
    by (rule filter_cong) (auto simp: check_of_def)
  have "dict_get (checks_for_verdicts vs) k = (if filter ?in vs = [] then None else Some (filter ?in vs))"
    using group_fold_get [of "[]" vs k] group_fold_keys [of "[]" vs k]
    by (auto simp: checks_for_verdicts_def dict_get_or_def filter_empty_conv split: option.splits)
  then show ?thesis
    using g group_fold_wf [of "[]" vs] by (simp add: checks_for_verdicts_def Let_def)
qed

end
