(* ===== verification/Incidents.thy ===== *)
theory Incidents
  imports Prelude
begin

text \<open>
  Incidents: \<^verbatim>\<open>auditor/incidents/lifecycle.py\<close> (the state machine with its role and
  documentation gates) and \<^verbatim>\<open>service.py\<close> (opening an incident for a flag, comments, action
  items, and the similarity ranking). An \<^verbatim>\<open>IncidentTransitionError\<close> is a value of
  \<open>transition_error\<close>; the clock and fresh identifiers are arguments.
\<close>

section \<open>Data\<close>

text \<open>The \<^verbatim>\<open>incidents\<close> row, with the transient attributes \<^verbatim>\<open>_should_page\<close>, \<^verbatim>\<open>_detector\<close>,
  \<^verbatim>\<open>_asi_categories\<close>, \<^verbatim>\<open>_agent_role\<close> and \<^verbatim>\<open>_tools\<close>; an absent attribute is its default.\<close>

record incident =
  ic_incident_id :: uuid
  ic_tenant_id :: uuid
  ic_primary_flag_id :: uuid
  ic_related_flag_ids :: "uuid list"
  ic_severity :: string
  ic_state :: string
  ic_assignee_id :: "uuid option"
  ic_opened_at :: timestamp
  ic_triaged_at :: "timestamp option"
  ic_contained_at :: "timestamp option"
  ic_resolved_at :: "timestamp option"
  ic_post_mortem_uri :: "string option"
  ic_dismissal_rationale :: "string option"
  ic_should_page :: bool
  ic_detector :: string
  ic_asi_categories :: "string list"
  ic_agent_role :: string
  ic_tools :: "string list"

record incident_comment =
  cm_comment_id :: uuid
  cm_incident_id :: uuid
  cm_author_id :: string
  cm_body :: string
  cm_ts :: timestamp

record incident_action_item =
  ai_action_id :: uuid
  ai_incident_id :: uuid
  ai_owner_id :: "string option"
  ai_description :: string
  ai_status :: string
  ai_due_date :: "int option"
  ai_created_at :: timestamp
  ai_completed_at :: "timestamp option"

section \<open>The state machine\<close>

definition ALL_STATES :: "string list" where
  "ALL_STATES =
     [''OPEN'', ''TRIAGING'', ''INVESTIGATING'', ''CONTAINED'', ''RESOLVED'',
      ''POST_MORTEM_COMPLETE'', ''DISMISSED'']"

definition LEGAL_TRANSITIONS :: "(string, string list) pydict" where
  "LEGAL_TRANSITIONS =
     [(''OPEN'', [''TRIAGING'', ''DISMISSED'']),
      (''TRIAGING'', [''INVESTIGATING'']),
      (''INVESTIGATING'', [''CONTAINED'']),
      (''CONTAINED'', [''RESOLVED'']),
      (''RESOLVED'', [''POST_MORTEM_COMPLETE'']),
      (''POST_MORTEM_COMPLETE'', []),
      (''DISMISSED'', [])]"

definition REVIEWER_TARGETS :: "string list" where
  "REVIEWER_TARGETS = [''TRIAGING'', ''INVESTIGATING'', ''CONTAINED'', ''DISMISSED'']"

definition ADMIN_ONLY_TARGETS :: "string list" where
  "ADMIN_ONLY_TARGETS = [''RESOLVED'', ''POST_MORTEM_COMPLETE'']"

datatype transition_error =
    UnknownState string
  | IllegalTransition string string
  | ReadonlyRole
  | NotAuthorised string string
  | RationaleRequired string
  | PostMortemRequired

definition validate_target_state :: "string \<Rightarrow> transition_error + unit" where
  "validate_target_state target =
     (if target \<notin> set ALL_STATES then Inl (UnknownState target) else Inr ())"

definition validate_legal :: "string \<Rightarrow> string \<Rightarrow> transition_error + unit" where
  "validate_legal current target =
     (if target \<notin> set (dict_get_or [] LEGAL_TRANSITIONS current)
      then Inl (IllegalTransition current target) else Inr ())"

definition validate_rbac :: "string \<Rightarrow> string \<Rightarrow> transition_error + unit" where
  "validate_rbac target actor_role =
     (if actor_role = ''admin'' then Inr ()
      else if actor_role = ''reviewer'' \<and> target \<in> set REVIEWER_TARGETS then Inr ()
      else if actor_role = ''readonly'' then Inl ReadonlyRole
      else Inl (NotAuthorised actor_role target))"

text \<open>\<^verbatim>\<open>not s or not s.strip()\<close> on an optional string.\<close>

definition blank :: "string option \<Rightarrow> bool" where
  "blank s = (case s of None \<Rightarrow> True | Some t \<Rightarrow> t = [] \<or> py_strip t = [])"

definition require_rationale :: "string option \<Rightarrow> string \<Rightarrow> transition_error + unit" where
  "require_rationale rationale target =
     (if blank rationale then Inl (RationaleRequired target) else Inr ())"

definition check_post_mortem_gate :: "incident \<Rightarrow> string option \<Rightarrow> transition_error + unit" where
  "check_post_mortem_gate inc post_mortem_uri =
     (if py_lower (ic_severity inc) = ''critical'' \<and> blank post_mortem_uri
      then Inl PostMortemRequired else Inr ())"

definition apply_transition ::
  "timestamp \<Rightarrow> incident \<Rightarrow> string \<Rightarrow> string option \<Rightarrow> string option \<Rightarrow> incident" where
  "apply_transition now inc target rationale post_mortem_uri =
     (let inc = inc\<lparr>ic_state := target\<rparr> in
      if target = ''TRIAGING'' then inc\<lparr>ic_triaged_at := Some now\<rparr>
      else if target = ''CONTAINED'' then inc\<lparr>ic_contained_at := Some now\<rparr>
      else if target = ''RESOLVED'' then inc\<lparr>ic_resolved_at := Some now\<rparr>
      else if target = ''DISMISSED'' then inc\<lparr>ic_dismissal_rationale := rationale\<rparr>
      else if target = ''POST_MORTEM_COMPLETE'' \<and> post_mortem_uri \<noteq> None \<and> post_mortem_uri \<noteq> Some []
        then inc\<lparr>ic_post_mortem_uri := post_mortem_uri\<rparr>
      else inc)"

text \<open>Sequencing of checks that may raise.\<close>

definition andthen :: "'e + unit \<Rightarrow> 'e + 'a \<Rightarrow> 'e + 'a" where
  "andthen a b = (case a of Inl e \<Rightarrow> Inl e | Inr _ \<Rightarrow> b)"

definition transition ::
  "timestamp \<Rightarrow> incident \<Rightarrow> string \<Rightarrow> string \<Rightarrow> string option \<Rightarrow> string option \<Rightarrow> transition_error + incident" where
  "transition now inc target actor_role post_mortem_uri rationale =
     andthen (validate_target_state target)
     (andthen (validate_legal (ic_state inc) target)
     (andthen (validate_rbac target actor_role)
     (andthen (if target = ''DISMISSED'' then require_rationale rationale target else Inr ())
     (andthen (if target = ''POST_MORTEM_COMPLETE'' then check_post_mortem_gate inc post_mortem_uri else Inr ())
     (Inr (apply_transition now inc target rationale post_mortem_uri))))))"

definition can_transition :: "string \<Rightarrow> string \<Rightarrow> bool" where
  "can_transition actor_role target =
     (if target \<in> set REVIEWER_TARGETS then actor_role \<in> {''reviewer'', ''admin''}
      else if target \<in> set ADMIN_ONLY_TARGETS then actor_role = ''admin''
      else False)"

section \<open>The service\<close>

definition INCIDENT_SEVERITIES :: "string list" where
  "INCIDENT_SEVERITIES = [''high'', ''critical'']"

text \<open>The flag is read through its \<^verbatim>\<open>flag_id\<close>, \<^verbatim>\<open>tenant_id\<close> and \<^verbatim>\<open>severity\<close>.\<close>

definition open_incident_for_flag ::
  "uuid \<Rightarrow> timestamp \<Rightarrow> uuid \<Rightarrow> uuid \<Rightarrow> string option \<Rightarrow> incident option" where
  "open_incident_for_flag fresh now flag_id tenant_id flag_severity =
     (let severity = py_lower (case flag_severity of None \<Rightarrow> [] | Some s \<Rightarrow> s) in
      if severity \<notin> set INCIDENT_SEVERITIES then None
      else Some \<lparr>
        ic_incident_id = fresh, ic_tenant_id = tenant_id, ic_primary_flag_id = flag_id,
        ic_related_flag_ids = [], ic_severity = severity, ic_state = ''OPEN'',
        ic_assignee_id = None, ic_opened_at = now, ic_triaged_at = None, ic_contained_at = None,
        ic_resolved_at = None, ic_post_mortem_uri = None, ic_dismissal_rationale = None,
        ic_should_page = (severity = ''critical''),
        ic_detector = [], ic_asi_categories = [], ic_agent_role = [], ic_tools = [] \<rparr>)"

definition build_comment :: "uuid \<Rightarrow> timestamp \<Rightarrow> uuid \<Rightarrow> string \<Rightarrow> string \<Rightarrow> incident_comment" where
  "build_comment fresh now incident_id author_id body =
     \<lparr> cm_comment_id = fresh, cm_incident_id = incident_id, cm_author_id = author_id,
       cm_body = body, cm_ts = now \<rparr>"

definition build_action_item ::
  "uuid \<Rightarrow> timestamp \<Rightarrow> uuid \<Rightarrow> string option \<Rightarrow> string \<Rightarrow> int option \<Rightarrow> incident_action_item" where
  "build_action_item fresh now incident_id owner_id description due_date =
     \<lparr> ai_action_id = fresh, ai_incident_id = incident_id, ai_owner_id = owner_id,
       ai_description = description, ai_status = ''open'', ai_due_date = due_date,
       ai_created_at = now, ai_completed_at = None \<rparr>"

text \<open>Similarity: the size of the intersection of two lists read as sets.\<close>

definition overlap :: "string list \<Rightarrow> string list \<Rightarrow> nat" where
  "overlap xs ys = card (set xs \<inter> set ys)"

definition similarity :: "incident \<Rightarrow> incident \<Rightarrow> nat" where
  "similarity ref cand =
     (if ic_detector ref \<noteq> [] \<and> ic_detector cand = ic_detector ref then 3 else 0) +
     overlap (ic_asi_categories ref) (ic_asi_categories cand) * 2 +
     (if ic_agent_role ref \<noteq> [] \<and> ic_agent_role cand = ic_agent_role ref then 1 else 0) +
     overlap (ic_tools ref) (ic_tools cand) * 2"

definition find_similar :: "incident \<Rightarrow> incident list \<Rightarrow> (incident \<times> nat) list" where
  "find_similar inc recent =
     sort_key (\<lambda>t. - int (snd t))
       [(c, similarity inc c). c \<leftarrow> recent,
          ic_incident_id c \<noteq> ic_incident_id inc \<and> 0 < similarity inc c]"

text \<open>\<^verbatim>\<open>IncidentService\<close> adds what it builds to the session; the session is the list of the
  objects added to it.\<close>

datatype session_object =
  AddIncident incident | AddComment incident_comment | AddActionItem incident_action_item

definition open_for_flag ::
  "uuid \<Rightarrow> timestamp \<Rightarrow> uuid \<Rightarrow> uuid \<Rightarrow> string option \<Rightarrow> session_object list \<Rightarrow>
   incident option \<times> session_object list" where
  "open_for_flag fresh now flag_id tenant_id sev session =
     (case open_incident_for_flag fresh now flag_id tenant_id sev of
        None \<Rightarrow> (None, session)
      | Some i \<Rightarrow> (Some i, session @ [AddIncident i]))"

definition service_add_comment ::
  "uuid \<Rightarrow> timestamp \<Rightarrow> uuid \<Rightarrow> string \<Rightarrow> string \<Rightarrow> session_object list \<Rightarrow>
   incident_comment \<times> session_object list" where
  "service_add_comment fresh now incident_id author_id body session =
     (let c = build_comment fresh now incident_id author_id body in (c, session @ [AddComment c]))"

definition service_add_action_item ::
  "uuid \<Rightarrow> timestamp \<Rightarrow> uuid \<Rightarrow> string option \<Rightarrow> string \<Rightarrow> int option \<Rightarrow> session_object list \<Rightarrow>
   incident_action_item \<times> session_object list" where
  "service_add_action_item fresh now incident_id owner_id description due_date session =
     (let i = build_action_item fresh now incident_id owner_id description due_date
      in (i, session @ [AddActionItem i]))"


section \<open>The specification of the lifecycle\<close>

text \<open>The state graph of the module's documentation, and the roles of each move.\<close>

inductive inc_edge :: "string \<Rightarrow> string \<Rightarrow> bool" where
  triage: "inc_edge ''OPEN'' ''TRIAGING''"
| dismiss: "inc_edge ''OPEN'' ''DISMISSED''"
| investigate: "inc_edge ''TRIAGING'' ''INVESTIGATING''"
| contain: "inc_edge ''INVESTIGATING'' ''CONTAINED''"
| resolve: "inc_edge ''CONTAINED'' ''RESOLVED''"
| complete: "inc_edge ''RESOLVED'' ''POST_MORTEM_COMPLETE''"

inductive_cases inc_edgeE: "inc_edge s t"

definition spec_roles :: "string \<Rightarrow> string set" where
  "spec_roles t =
     (if t = ''RESOLVED'' \<or> t = ''POST_MORTEM_COMPLETE'' then {''admin''} else {''reviewer'', ''admin''})"

definition spec_gate :: "incident \<Rightarrow> string \<Rightarrow> string option \<Rightarrow> string option \<Rightarrow> bool" where
  "spec_gate inc t uri rationale =
     ((t = ''DISMISSED'' \<longrightarrow> \<not> blank rationale) \<and>
      (t = ''POST_MORTEM_COMPLETE'' \<and> py_lower (ic_severity inc) = ''critical'' \<longrightarrow> \<not> blank uri))"

lemma andthen_Inr_iff [simp]: "andthen a b = Inr x \<longleftrightarrow> a = Inr () \<and> b = Inr x"
  by (cases a) (auto simp: andthen_def)

lemma legal_iff_edge: "target \<in> set (dict_get_or [] LEGAL_TRANSITIONS current) \<longleftrightarrow> inc_edge current target"
proof (cases "current \<in> fst ` set LEGAL_TRANSITIONS")
  case True
  then have "current = ''OPEN'' \<or> current = ''TRIAGING'' \<or> current = ''INVESTIGATING'' \<or>
      current = ''CONTAINED'' \<or> current = ''RESOLVED'' \<or> current = ''POST_MORTEM_COMPLETE'' \<or>
      current = ''DISMISSED''"
    by (simp add: LEGAL_TRANSITIONS_def)
  then show ?thesis
    by (elim disjE) (simp_all add: dict_get_or_def LEGAL_TRANSITIONS_def inc_edge.simps)
next
  case False
  then have "dict_get LEGAL_TRANSITIONS current = None" by (simp add: map_of_eq_None_iff)
  moreover have "\<not> inc_edge current target"
    using False by (simp add: LEGAL_TRANSITIONS_def inc_edge.simps)
  ultimately show ?thesis by (simp add: dict_get_or_def)
qed

lemma edge_states: "inc_edge s t \<Longrightarrow> s \<in> set ALL_STATES \<and> t \<in> set ALL_STATES"
  by (erule inc_edge.cases) (simp_all add: ALL_STATES_def)

lemma rbac_iff: "inc_edge s t \<Longrightarrow> validate_rbac t role = Inr () \<longleftrightarrow> role \<in> spec_roles t"
  by (erule inc_edge.cases) (simp_all add: validate_rbac_def spec_roles_def REVIEWER_TARGETS_def)

lemma transition_Inr_iff:
  "transition now inc t role uri rationale = Inr inc' \<longleftrightarrow>
     inc_edge (ic_state inc) t \<and> role \<in> spec_roles t \<and> spec_gate inc t uri rationale \<and>
     inc' = apply_transition now inc t rationale uri"
  unfolding transition_def
  using legal_iff_edge [of t "ic_state inc"] edge_states [of "ic_state inc" t] rbac_iff [of "ic_state inc" t role]
  by (auto simp: validate_target_state_def validate_legal_def require_rationale_def
      check_post_mortem_gate_def spec_gate_def)

text \<open>Progress along the chain, a measure that every move increases.\<close>

definition stage :: "string \<Rightarrow> nat" where
  "stage s =
     (if s = ''OPEN'' then 0 else if s = ''TRIAGING'' then 1 else if s = ''INVESTIGATING'' then 2
      else if s = ''CONTAINED'' then 3 else if s = ''RESOLVED'' then 4 else 5)"

definition inc_inv :: "incident \<Rightarrow> bool" where
  "inc_inv i \<longleftrightarrow>
     ic_state i \<in> set ALL_STATES \<and>
     (ic_triaged_at i \<noteq> None \<longleftrightarrow> 1 \<le> stage (ic_state i) \<and> ic_state i \<noteq> ''DISMISSED'') \<and>
     (ic_contained_at i \<noteq> None \<longleftrightarrow> 3 \<le> stage (ic_state i) \<and> ic_state i \<noteq> ''DISMISSED'') \<and>
     (ic_resolved_at i \<noteq> None \<longleftrightarrow> 4 \<le> stage (ic_state i) \<and> ic_state i \<noteq> ''DISMISSED'') \<and>
     (ic_state i = ''DISMISSED'' \<longrightarrow> \<not> blank (ic_dismissal_rationale i)) \<and>
     (ic_state i = ''POST_MORTEM_COMPLETE'' \<and> ic_severity i = ''critical'' \<longrightarrow>
        \<not> blank (ic_post_mortem_uri i))"

definition stamps :: "incident \<Rightarrow> timestamp list" where
  "stamps i =
     ic_opened_at i # List.map_filter (\<lambda>x. x) [ic_triaged_at i, ic_contained_at i, ic_resolved_at i]"

text \<open>\<open>reached t i roles\<close>: the incident \<open>i\<close> has been opened for a flag and moved, the last time
  at clock value \<open>t\<close>, by actors with the given roles, latest first.\<close>

inductive reached :: "timestamp \<Rightarrow> incident \<Rightarrow> string list \<Rightarrow> bool" where
  opened: "open_incident_for_flag fresh now f t sev = Some i \<Longrightarrow> reached now i []"
| moved: "reached now i roles \<Longrightarrow> now \<le> now' \<Longrightarrow>
    transition now' i target role uri rationale = Inr i' \<Longrightarrow> reached now' i' (role # roles)"

lemma blank_nonempty: "\<not> blank x \<Longrightarrow> x \<noteq> None \<and> x \<noteq> Some []"
  by (auto simp: blank_def split: option.splits)

lemma apply_keeps:
  "ic_severity (apply_transition now i t r u) = ic_severity i"
  "ic_state (apply_transition now i t r u) = t"
  "ic_opened_at (apply_transition now i t r u) = ic_opened_at i"
  by (simp_all add: apply_transition_def Let_def)

lemma stage_edge: "inc_edge s t \<Longrightarrow> stage s < stage t \<and> stage t \<le> 5"
  by (erule inc_edge.cases) (simp_all add: stage_def)

lemma opened_facts:
  assumes "open_incident_for_flag fresh now f t sev = Some i"
  shows "ic_state i = ''OPEN''" "ic_opened_at i = now" "ic_triaged_at i = None" "ic_contained_at i = None"
    "ic_resolved_at i = None" "ic_severity i \<in> set INCIDENT_SEVERITIES"
  using assms unfolding open_incident_for_flag_def Let_def by (simp_all split: if_split_asm) fastforce+

lemma apply_inv:
  assumes "inc_inv i" "inc_edge (ic_state i) t" "spec_gate i t u r" "ic_severity i = py_lower (ic_severity i)"
  shows "inc_inv (apply_transition now i t r u)"
  using assms(2)
proof (cases rule: inc_edge.cases)
  case complete
  then show ?thesis using assms(1,3,4) blank_nonempty [of u]
    by (auto simp: inc_inv_def apply_transition_def Let_def stage_def ALL_STATES_def spec_gate_def)
qed (use assms(1,3) in \<open>simp_all add: inc_inv_def apply_transition_def stage_def ALL_STATES_def spec_gate_def\<close>)

lemma reached_severity: "reached t i roles \<Longrightarrow> ic_severity i \<in> set INCIDENT_SEVERITIES"
  by (induction rule: reached.induct) (simp_all add: transition_Inr_iff apply_keeps opened_facts(6))

lemma reached_inv: "reached t i roles \<Longrightarrow> inc_inv i"
proof (induction rule: reached.induct)
  case (opened fresh now f t sev i)
  then show ?case using opened_facts [OF opened] by (simp add: inc_inv_def stage_def ALL_STATES_def)
next
  case (moved now i roles now' target role uri rationale i')
  have "ic_severity i = py_lower (ic_severity i)"
    using reached_severity [OF moved.hyps(1)]
    by (auto simp: INCIDENT_SEVERITIES_def py_lower_def lower_char_def)
  with moved show ?case by (simp add: transition_Inr_iff apply_inv)
qed

lemma reached_stage: "reached t i roles \<Longrightarrow> length roles \<le> stage (ic_state i)"
  by (induction rule: reached.induct)
    (auto simp: transition_Inr_iff apply_keeps stage_def [of "''OPEN''"] dest!: opened_facts(1) stage_edge)

lemma reached_stage_bound: "reached t i roles \<Longrightarrow> stage (ic_state i) \<le> 5"
  by (simp add: stage_def)

lemma reached_roles: "reached t i roles \<Longrightarrow> set roles \<subseteq> {''reviewer'', ''admin''}"
  by (induction rule: reached.induct) (auto simp: transition_Inr_iff spec_roles_def split: if_splits)

lemma reached_admin:
  "reached t i roles \<Longrightarrow> ic_state i \<in> {''RESOLVED'', ''POST_MORTEM_COMPLETE''} \<Longrightarrow> ''admin'' \<in> set roles"
  by (induction rule: reached.induct)
    (auto simp: transition_Inr_iff apply_keeps spec_roles_def dest: opened_facts(1) split: if_splits)

lemma apply_stamps:
  assumes "inc_inv i" "inc_edge (ic_state i) t"
  shows "stamps (apply_transition now i t r u) = stamps i @ [now] \<or>
    stamps (apply_transition now i t r u) = stamps i"
  using assms(2)
proof (cases rule: inc_edge.cases)
  case triage
  then show ?thesis using assms(1)
    by (simp add: inc_inv_def stage_def apply_transition_def stamps_def map_filter_def)
next
  case contain
  then show ?thesis using assms(1)
    by (auto simp: inc_inv_def stage_def apply_transition_def stamps_def map_filter_def)
next
  case resolve
  then show ?thesis using assms(1)
    by (auto simp: inc_inv_def stage_def apply_transition_def stamps_def map_filter_def)
qed (simp_all add: apply_transition_def stamps_def Let_def map_filter_def)

lemma reached_stamps: "reached t i roles \<Longrightarrow> sorted (stamps i) \<and> (\<forall>x \<in> set (stamps i). x \<le> t)"
proof (induction rule: reached.induct)
  case (opened fresh now f t sev i)
  then show ?case using opened_facts [OF opened] by (simp add: stamps_def map_filter_def)
next
  case (moved now i roles now' target role uri rationale i')
  then show ?case
    using reached_inv [OF moved.hyps(1)] apply_stamps [of i target now' rationale uri]
    by (fastforce simp: transition_Inr_iff sorted_append)
qed


section \<open>Properties\<close>

text \<open>
  C3. The state machine implements the documented lifecycle: a transition succeeds exactly
  along an edge of the state graph, for a role the move admits, with a non-blank rationale for a
  dismissal and a non-blank document URI for closing a critical incident; it then sets the state,
  keeps identity and severity, and records the time of triage, containment and resolution.
\<close>

theorem transition_refines_lifecycle:
  "case transition now i t role uri rationale of
     Inl _ \<Rightarrow> \<not> (inc_edge (ic_state i) t \<and> role \<in> spec_roles t \<and> spec_gate i t uri rationale)
   | Inr i' \<Rightarrow>
       inc_edge (ic_state i) t \<and> role \<in> spec_roles t \<and> spec_gate i t uri rationale \<and>
       ic_state i' = t \<and> ic_severity i' = ic_severity i \<and> ic_incident_id i' = ic_incident_id i \<and>
       ic_tenant_id i' = ic_tenant_id i \<and>
       ic_triaged_at i' = (if t = ''TRIAGING'' then Some now else ic_triaged_at i) \<and>
       ic_contained_at i' = (if t = ''CONTAINED'' then Some now else ic_contained_at i) \<and>
       ic_resolved_at i' = (if t = ''RESOLVED'' then Some now else ic_resolved_at i) \<and>
       ic_dismissal_rationale i' = (if t = ''DISMISSED'' then rationale else ic_dismissal_rationale i)"
proof (cases "transition now i t role uri rationale")
  case (Inl e)
  then show ?thesis using transition_Inr_iff [of now i t role uri rationale] by auto
next
  case (Inr i')
  note r = Inr [unfolded transition_Inr_iff]
  show ?thesis
    unfolding Inr sum.case using r by (simp add: apply_transition_def Let_def)
qed

definition sample_incident :: incident where
  "sample_incident = the (open_incident_for_flag ''i1'' 10 ''f1'' ''t1'' (Some ''critical''))"

lemmas sample_incident_simps =
  sample_incident_def open_incident_for_flag_def Let_def INCIDENT_SEVERITIES_def py_lower_def lower_char_def

text \<open>
  C4. Every incident the system can reach, from the opening for a flag and through any sequence
  of transitions with a clock that does not go back, is in a known state, has its time stamps set
  exactly for the stages it passed and in increasing order, is dismissed only with a rationale and,
  when critical, closed only with a post-mortem document; it has been moved by reviewers and
  admins only, by an admin if it is resolved, and at most five times.
\<close>

theorem reached_incident_sound:
  assumes "reached now i roles"
  shows "inc_inv i \<and> sorted (stamps i) \<and> set roles \<subseteq> {''reviewer'', ''admin''} \<and>
    (ic_state i \<in> {''RESOLVED'', ''POST_MORTEM_COMPLETE''} \<longrightarrow> ''admin'' \<in> set roles) \<and>
    length roles \<le> 5"
  using reached_inv [OF assms] reached_stamps [OF assms] reached_roles [OF assms]
    reached_admin [OF assms] reached_stage [OF assms] reached_stage_bound [OF assms] by simp

theorem reached_incident_sound_witness:
  "\<exists>i. reached 20 i [''reviewer''] \<and> ic_state i = ''TRIAGING'' \<and> inc_inv i \<and> sorted (stamps i)"
proof -
  have o: "open_incident_for_flag ''i1'' 10 ''f1'' ''t1'' (Some ''critical'') = Some sample_incident"
    by (simp add: sample_incident_simps)
  have "transition 20 sample_incident ''TRIAGING'' ''reviewer'' None None =
      Inr (apply_transition 20 sample_incident ''TRIAGING'' None None)"
    using opened_facts(1) [OF o]
    by (auto simp: transition_Inr_iff spec_roles_def spec_gate_def intro: inc_edge.intros)
  then have "reached 20 (apply_transition 20 sample_incident ''TRIAGING'' None None) [''reviewer'']"
    using reached.moved [OF reached.opened [OF o], of 20] by simp
  then show ?thesis using reached_incident_sound by (metis apply_keeps(2))
qed

text \<open>
  \<^verbatim>\<open>find_similar\<close> returns, by decreasing score and in their given order among equals, exactly
  the other incidents with a positive score, each with its score.
\<close>

theorem find_similar_ranked:
  "sorted (map (\<lambda>(_, n). - int n) (find_similar inc recent)) \<and>
   (\<forall>n. [c. (c, m) \<leftarrow> find_similar inc recent, m = n] =
      [c \<leftarrow> recent. ic_incident_id c \<noteq> ic_incident_id inc \<and> 0 < similarity inc c \<and> similarity inc c = n])"
proof -
  let ?xs = "[(c, similarity inc c). c \<leftarrow> recent,
      ic_incident_id c \<noteq> ic_incident_id inc \<and> 0 < similarity inc c]"
  have fs: "find_similar inc recent = sort_key (\<lambda>t. - int (snd t)) ?xs"
    by (simp add: find_similar_def)
  have pick: "[c. (c, m) \<leftarrow> ys, m = n] = map fst (filter (\<lambda>t. snd t = n) ys)" for ys :: "(incident \<times> nat) list" and n
    by (induction ys) auto
  have "filter (\<lambda>t. snd t = n) (sort_key (\<lambda>t. - int (snd t)) ?xs) = filter (\<lambda>t. snd t = n) ?xs" for n
    using sort_key_stable [of "\<lambda>t. - int (snd t)" "- int n" ?xs] by simp
  moreover have "map fst (filter (\<lambda>t. snd t = n) ?xs) =
      [c \<leftarrow> recent. ic_incident_id c \<noteq> ic_incident_id inc \<and> 0 < similarity inc c \<and> similarity inc c = n]" for n
    by (induction recent) auto
  moreover have "sorted (map (\<lambda>(_, n). - int n) (find_similar inc recent))"
    unfolding fs using sorted_sort_key [of "\<lambda>t. - int (snd t)" ?xs] by (simp add: case_prod_unfold)
  ultimately show ?thesis by (simp add: fs pick)
qed

end
