(* ===== verification/Sha256.thy ===== *)
theory Sha256
  imports Prelude "HOL-Library.Word"
begin

text \<open>
  \<^verbatim>\<open>hashlib.sha256(...).digest()\<close>, the hash function of the standard library that the audit log, the
  judge cache and the catalog-integrity detector use: the function of FIPS 180-4 on byte strings,
  with 32-bit word arithmetic that wraps around. The development relies on nothing about it but
  the length of a digest; integrity theorems exhibit the collision an attacker would need.
\<close>

unbundle bit_operations_syntax

type_synonym byte = "8 word"
type_synonym bytes = "byte list"

section \<open>Words and bytes\<close>

definition be32 :: "byte \<Rightarrow> byte \<Rightarrow> byte \<Rightarrow> byte \<Rightarrow> 32 word" where
  "be32 a b c d =
     push_bit 24 (ucast a) OR push_bit 16 (ucast b) OR push_bit 8 (ucast c) OR ucast d"

definition bytes32 :: "32 word \<Rightarrow> bytes" where
  "bytes32 w = [ucast (drop_bit 24 w), ucast (drop_bit 16 w), ucast (drop_bit 8 w), ucast w]"

text \<open>\<^verbatim>\<open>n.to_bytes(k, "big")\<close>.\<close>

definition to_bytes_big :: "nat \<Rightarrow> nat \<Rightarrow> bytes" where
  "to_bytes_big k n = map (\<lambda>i. word_of_int (int n div 256 ^ i)) (rev [0..<k])"

fun words_of_block :: "bytes \<Rightarrow> 32 word list" where
  "words_of_block (a # b # c # d # bs) = be32 a b c d # words_of_block bs"
| "words_of_block _ = []"

section \<open>The compression function\<close>

definition rotr :: "nat \<Rightarrow> 32 word \<Rightarrow> 32 word" where
  "rotr n x = drop_bit n x OR push_bit (32 - n) x"

definition ch :: "32 word \<Rightarrow> 32 word \<Rightarrow> 32 word \<Rightarrow> 32 word" where
  "ch x y z = (x AND y) XOR (NOT x AND z)"

definition maj :: "32 word \<Rightarrow> 32 word \<Rightarrow> 32 word \<Rightarrow> 32 word" where
  "maj x y z = (x AND y) XOR (x AND z) XOR (y AND z)"

definition bsig0 :: "32 word \<Rightarrow> 32 word" where
  "bsig0 x = rotr 2 x XOR rotr 13 x XOR rotr 22 x"

definition bsig1 :: "32 word \<Rightarrow> 32 word" where
  "bsig1 x = rotr 6 x XOR rotr 11 x XOR rotr 25 x"

definition ssig0 :: "32 word \<Rightarrow> 32 word" where
  "ssig0 x = rotr 7 x XOR rotr 18 x XOR drop_bit 3 x"

definition ssig1 :: "32 word \<Rightarrow> 32 word" where
  "ssig1 x = rotr 17 x XOR rotr 19 x XOR drop_bit 10 x"

definition round_constants :: "32 word list" where
  "round_constants =
     [1116352408, 1899447441, 3049323471, 3921009573, 961987163, 1508970993,
      2453635748, 2870763221, 3624381080, 310598401, 607225278, 1426881987,
      1925078388, 2162078206, 2614888103, 3248222580, 3835390401, 4022224774,
      264347078, 604807628, 770255983, 1249150122, 1555081692, 1996064986,
      2554220882, 2821834349, 2952996808, 3210313671, 3336571891, 3584528711,
      113926993, 338241895, 666307205, 773529912, 1294757372, 1396182291,
      1695183700, 1986661051, 2177026350, 2456956037, 2730485921, 2820302411,
      3259730800, 3345764771, 3516065817, 3600352804, 4094571909, 275423344,
      430227734, 506948616, 659060556, 883997877, 958139571, 1322822218,
      1537002063, 1747873779, 1955562222, 2024104815, 2227730452, 2361852424,
      2428436474, 2756734187, 3204031479, 3329325298]"

datatype sha_state = Sha "32 word" "32 word" "32 word" "32 word" "32 word" "32 word" "32 word" "32 word"

definition initial_hash :: sha_state where
  "initial_hash =
     Sha 1779033703 3144134277 1013904242 2773480762 1359893119 2600822924 528734635 1541459225"

text \<open>The message schedule; the list holds the words computed so far, latest first.\<close>

fun schedule_from :: "nat \<Rightarrow> 32 word list \<Rightarrow> 32 word list" where
  "schedule_from 0 ws = rev ws"
| "schedule_from (Suc n) ws =
     schedule_from n ((ssig1 (ws ! 1) + ws ! 6 + ssig0 (ws ! 14) + ws ! 15) # ws)"

fun round_with :: "32 word \<Rightarrow> 32 word \<Rightarrow> sha_state \<Rightarrow> sha_state" where
  "round_with t1 t2 (Sha a b c d e f g h) = Sha (t1 + t2) a b c (d + t1) e f g"

fun sha_round :: "sha_state \<Rightarrow> 32 word \<times> 32 word \<Rightarrow> sha_state" where
  "sha_round (Sha a b c d e f g h) (k, w) =
     round_with (h + bsig1 e + ch e f g + k + w) (bsig0 a + maj a b c) (Sha a b c d e f g h)"

fun add_state :: "sha_state \<Rightarrow> sha_state \<Rightarrow> sha_state" where
  "add_state (Sha a b c d e f g h) (Sha a' b' c' d' e' f' g' h') =
     Sha (a + a') (b + b') (c + c') (d + d') (e + e') (f + f') (g + g') (h + h')"

definition compress :: "sha_state \<Rightarrow> bytes \<Rightarrow> sha_state" where
  "compress st block =
     add_state st (foldl sha_round st (zip round_constants (schedule_from 48 (rev (words_of_block block)))))"

section \<open>Padding and the hash\<close>

definition sha_pad :: "bytes \<Rightarrow> bytes" where
  "sha_pad m =
     m @ [0x80] @ replicate ((119 - length m mod 64) mod 64) 0 @ to_bytes_big 8 (8 * length m)"

fun sha_blocks :: "nat \<Rightarrow> bytes \<Rightarrow> sha_state \<Rightarrow> sha_state" where
  "sha_blocks 0 m st = st"
| "sha_blocks (Suc n) m st = sha_blocks n (drop 64 m) (compress st (take 64 m))"

fun digest_bytes :: "sha_state \<Rightarrow> bytes" where
  "digest_bytes (Sha a b c d e f g h) = concat (map bytes32 [a, b, c, d, e, f, g, h])"

definition sha256 :: "bytes \<Rightarrow> bytes" where
  "sha256 m = digest_bytes (sha_blocks (length (sha_pad m) div 64) (sha_pad m) initial_hash)"

lemma length_digest_bytes [simp]: "length (digest_bytes st) = 32"
  by (cases st) (simp add: bytes32_def)

lemma length_sha256 [simp]: "length (sha256 m) = 32"
  by (simp add: sha256_def)

lemma length_to_bytes_big [simp]: "length (to_bytes_big k n) = k"
  by (simp add: to_bytes_big_def)

text \<open>Padding fills whole blocks, so that the loop over the blocks consumes every byte.\<close>

lemma length_sha_pad: "64 dvd length (sha_pad m)"
proof -
  define r where "r = length m mod 64"
  have "r < 64" by (simp add: r_def)
  have "(r + (1 + (119 - r) mod 64 + 8)) mod 64 = 0"
  proof (cases "r \<le> 55")
    case True
    then have "(119 - r) mod 64 = (64 + (55 - r)) mod 64" by simp
    also have "\<dots> = 55 - r" using True by (simp only: mod_add_self1) simp
    finally show ?thesis using True by simp
  next
    case False
    with \<open>r < 64\<close> have "119 - r < 64" by simp
    then have "(119 - r) mod 64 = 119 - r" by simp
    with \<open>r < 64\<close> have "r + (1 + (119 - r) mod 64 + 8) = 128" by simp
    then show ?thesis by simp
  qed
  then have "(length m + (1 + (119 - r) mod 64 + 8)) mod 64 = 0"
    unfolding r_def by (simp only: mod_add_left_eq)
  then show ?thesis unfolding r_def by (simp add: sha_pad_def mod_eq_0_iff_dvd)
qed

section \<open>Text to bytes and hexadecimal\<close>

text \<open>\<^verbatim>\<open>s.encode("utf-8")\<close> for code points below 256.\<close>

definition utf8_char :: "char \<Rightarrow> bytes" where
  "utf8_char c =
     (let n = of_char c :: nat in
      if n < 128 then [word_of_nat n] else [word_of_nat (192 + n div 64), word_of_nat (128 + n mod 64)])"

definition utf8 :: "string \<Rightarrow> bytes" where
  "utf8 s = concat (map utf8_char s)"

definition hex_digit :: "nat \<Rightarrow> char" where
  "hex_digit d = ''0123456789abcdef'' ! d"

definition hex_byte :: "byte \<Rightarrow> string" where
  "hex_byte b = [hex_digit (unat b div 16), hex_digit (unat b mod 16)]"

definition hex :: "bytes \<Rightarrow> string" where
  "hex bs = concat (map hex_byte bs)"

text \<open>Digests are equal when their texts are.\<close>

lemma hex_value_digit: "d < 16 \<Longrightarrow> hex_value (hex_digit d) = Some d"
proof -
  have "list_all (\<lambda>d. hex_value (hex_digit d) = Some d) [0..<16]" by code_simp
  then show "d < 16 \<Longrightarrow> ?thesis" by (simp add: list_all_iff)
qed

lemma hex_byte_inj: "hex_byte a = hex_byte b \<Longrightarrow> a = b"
proof -
  assume "hex_byte a = hex_byte b"
  then have "map hex_value (hex_byte a) = map hex_value (hex_byte b)" by simp
  moreover have "unat a < 256" "unat b < 256" using unsigned_less [of a] unsigned_less [of b] by simp_all
  ultimately have "unat a div 16 = unat b div 16" "unat a mod 16 = unat b mod 16"
    by (simp_all add: hex_byte_def hex_value_digit)
  then have "unat a = unat b" by (metis div_mult_mod_eq)
  then show ?thesis by (simp add: word_unat_eq_iff)
qed

lemma hex_inj: "hex xs = hex ys \<Longrightarrow> xs = ys"
proof (induction xs arbitrary: ys)
  case Nil
  then show ?case by (cases ys) (simp_all add: hex_def hex_byte_def)
next
  case (Cons x xs)
  show ?case
  proof (cases ys)
    case Nil
    with Cons.prems show ?thesis by (simp add: hex_def hex_byte_def)
  next
    case (Cons y ys')
    have "length (hex_byte x) = length (hex_byte y)" by (simp add: hex_byte_def)
    with Cons Cons.prems have "hex_byte x = hex_byte y" "hex xs = hex ys'" by (simp_all add: hex_def)
    with Cons Cons.IH show ?thesis by (simp add: hex_byte_inj)
  qed
qed

end
