(* ===== verification/Canonical_Json.thy ===== *)
theory Canonical_Json
  imports Prelude Binary64 Sha256 "HOL-Library.Char_ord" "HOL-Library.List_Lexorder"
begin

text \<open>
  \<^verbatim>\<open>json.dumps(x, sort_keys=True, separators=(",", ":"))\<close> with the default ASCII escapes, the
  canonical encoding the audit log hashes. \<open>json_sorted\<close> orders the keys of every object,
  \<open>json_text\<close> writes a value out. The main result is that the encoding determines the value: it
  is injective up to the order of keys on values without floats, and no encoding is followed by
  a delimiter inside another, which is what a hash over it needs to bind the payload.
\<close>

section \<open>Encoding\<close>

definition esc_char :: "char \<Rightarrow> string" where
  "esc_char c =
     (let n = of_char c :: nat in
      if n = 34 then [CHR 0x5C, CHR 0x22]
      else if n = 92 then [CHR 0x5C, CHR 0x5C]
      else if n = 10 then [CHR 0x5C, CHR ''n'']
      else if n = 13 then [CHR 0x5C, CHR ''r'']
      else if n = 9 then [CHR 0x5C, CHR ''t'']
      else if n = 12 then [CHR 0x5C, CHR ''f'']
      else if n = 8 then [CHR 0x5C, CHR ''b'']
      else if 32 \<le> n \<and> n \<le> 126 then [c]
      else [CHR 0x5C, CHR ''u'', CHR ''0'', CHR ''0'', hex_digit (n div 16), hex_digit (n mod 16)])"

definition json_string :: "string \<Rightarrow> string" where
  "json_string s = CHR 0x22 # concat (map esc_char s) @ [CHR 0x22]"

text \<open>\<^verbatim>\<open>float.__repr__\<close>: the shortest decimal that rounds to the number, at most 17 digits.\<close>

definition dec_exp :: "rat \<Rightarrow> int" where
  "dec_exp x = (case find (\<lambda>e. 10 powi e \<le> x) (rev [-324..308]) of Some e \<Rightarrow> e | None \<Rightarrow> - 324)"

definition repr_try :: "rat \<Rightarrow> int \<Rightarrow> int \<Rightarrow> int" where
  "repr_try x e n = rne (x / 10 powi (e - n + 1))"

definition repr_digits :: "rat \<Rightarrow> int \<times> int" where
  "repr_digits x =
     (let e = dec_exp x;
          n = (case find (\<lambda>n. rnd64 (of_int (repr_try x e n) * 10 powi (e - n + 1)) = x) [1..17] of
                 Some n \<Rightarrow> n | None \<Rightarrow> 17)
      in (repr_try x e n, e - n + 1))"

definition strip_zeros :: "string \<Rightarrow> string" where
  "strip_zeros s = rev (dropWhile (\<lambda>c. c = CHR ''0'') (rev s))"

definition repr_layout :: "string \<Rightarrow> int \<Rightarrow> string" where
  "repr_layout ds decpt =
     (if - 4 < decpt \<and> decpt \<le> 16 then
        (if decpt \<le> 0 then ''0.'' @ replicate (nat (- decpt)) (CHR ''0'') @ ds
         else if int (length ds) \<le> decpt then ds @ replicate (nat decpt - length ds) (CHR ''0'') @ ''.0''
         else take (nat decpt) ds @ ''.'' @ drop (nat decpt) ds)
      else
        take 1 ds @ (if 1 < length ds then CHR ''.'' # drop 1 ds else []) @ ''e'' @
        (if decpt - 1 < 0 then ''-'' else ''+'') @
        (let e = str_nat (nat \<bar>decpt - 1\<bar>) in if length e < 2 then CHR ''0'' # e else e))"

definition float_repr :: "rat \<Rightarrow> string" where
  "float_repr x =
     (if x = 0 then ''0.0''
      else (let (d, k) = repr_digits \<bar>x\<bar>; s = str_int d
            in (if x < 0 then ''-'' else []) @ repr_layout (strip_zeros s) (int (length s) + k)))"

fun json_text :: "json \<Rightarrow> string" where
  "json_text JNull = ''null''"
| "json_text (JBool b) = (if b then ''true'' else ''false'')"
| "json_text (JInt i) = str_int i"
| "json_text (JFloat x) = float_repr x"
| "json_text (JStr s) = json_string s"
| "json_text (JList xs) = ''['' @ py_join '','' (map json_text xs) @ '']''"
| "json_text (JObj kvs) = ''{'' @ py_join '','' (map (\<lambda>(k, v). json_string k @ '':'' @ json_text v) kvs) @ ''}''"

fun json_sorted :: "json \<Rightarrow> json" where
  "json_sorted (JList xs) = JList (map json_sorted xs)"
| "json_sorted (JObj kvs) = JObj (sort_key fst (map (\<lambda>(k, v). (k, json_sorted v)) kvs))"
| "json_sorted j = j"

definition json_dumps :: "json \<Rightarrow> string" where
  "json_dumps j = json_text (json_sorted j)"

text \<open>\<^verbatim>\<open>json.dumps(x, sort_keys=True, default=str)\<close>, with the separators that leaves in place.\<close>

fun json_text_spaced :: "json \<Rightarrow> string" where
  "json_text_spaced (JList xs) = ''['' @ py_join '', '' (map json_text_spaced xs) @ '']''"
| "json_text_spaced (JObj kvs) =
     ''{'' @ py_join '', '' (map (\<lambda>(k, v). json_string k @ '': '' @ json_text_spaced v) kvs) @ ''}''"
| "json_text_spaced j = json_text j"

definition json_dumps_default :: "json \<Rightarrow> string" where
  "json_dumps_default j = json_text_spaced (json_sorted j)"

section \<open>\<^verbatim>\<open>repr\<close> and \<^verbatim>\<open>str\<close>\<close>

definition repr_char :: "char \<Rightarrow> char \<Rightarrow> string" where
  "repr_char q c =
     (let n = of_char c :: nat in
      if c = q \<or> n = 92 then [CHR 0x5C, c]
      else if n = 10 then [CHR 0x5C, CHR ''n'']
      else if n = 13 then [CHR 0x5C, CHR ''r'']
      else if n = 9 then [CHR 0x5C, CHR ''t'']
      else if n < 32 \<or> (127 \<le> n \<and> n \<le> 160) \<or> n = 173
        then [CHR 0x5C, CHR ''x'', hex_digit (n div 16), hex_digit (n mod 16)]
      else [c])"

definition py_repr :: "string \<Rightarrow> string" where
  "py_repr s =
     (let q = (if CHR 0x27 \<in> set s \<and> CHR 0x22 \<notin> set s then CHR 0x22 else CHR 0x27)
      in [q] @ concat (map (repr_char q) s) @ [q])"

fun json_repr :: "json \<Rightarrow> string" where
  "json_repr JNull = ''None''"
| "json_repr (JBool b) = (if b then ''True'' else ''False'')"
| "json_repr (JInt i) = str_int i"
| "json_repr (JFloat x) = float_repr x"
| "json_repr (JStr s) = py_repr s"
| "json_repr (JList xs) = ''['' @ py_join '', '' (map json_repr xs) @ '']''"
| "json_repr (JObj kvs) = ''{'' @ py_join '', '' (map (\<lambda>(k, v). py_repr k @ '': '' @ json_repr v) kvs) @ ''}''"

definition json_str :: "json \<Rightarrow> string" where
  "json_str j = (case j of JStr s \<Rightarrow> s | _ \<Rightarrow> json_repr j)"

definition json_truthy :: "json \<Rightarrow> bool" where
  "json_truthy j =
     (case j of JNull \<Rightarrow> False | JBool b \<Rightarrow> b | JInt i \<Rightarrow> i \<noteq> 0 | JFloat x \<Rightarrow> x \<noteq> 0
      | JStr s \<Rightarrow> s \<noteq> [] | JList xs \<Rightarrow> xs \<noteq> [] | JObj kvs \<Rightarrow> kvs \<noteq> [])"

fun no_float :: "json \<Rightarrow> bool" where
  "no_float (JFloat x) = False"
| "no_float (JList xs) = list_all no_float xs"
| "no_float (JObj kvs) = list_all (\<lambda>(k, v). no_float v) kvs"
| "no_float j = True"

section \<open>Strings decode uniquely\<close>

definition hex_val :: "char \<Rightarrow> nat" where
  "hex_val c = (let n = of_char c in if n \<le> 57 then n - 48 else n - 87)"

lemma hex_val_digit: "d < 16 \<Longrightarrow> hex_val (hex_digit d) = d"
proof -
  have "list_all (\<lambda>d. hex_val (hex_digit d) = d) [0..<16]" by code_simp
  then show "d < 16 \<Longrightarrow> ?thesis" by (simp add: list_all_iff)
qed

definition unesc :: "string \<Rightarrow> char \<times> string" where
  "unesc s =
     (if hd s \<noteq> CHR 0x5C then (hd s, tl s)
      else if s ! 1 = CHR ''u'' then (char_of (16 * hex_val (s ! 4) + hex_val (s ! 5)), drop 6 s)
      else (if s ! 1 = CHR ''n'' then char_of (10 :: nat)
            else if s ! 1 = CHR ''r'' then char_of (13 :: nat)
            else if s ! 1 = CHR ''t'' then char_of (9 :: nat)
            else if s ! 1 = CHR ''f'' then char_of (12 :: nat)
            else if s ! 1 = CHR ''b'' then char_of (8 :: nat)
            else s ! 1, drop 2 s))"

lemma char_of_quote: "char_of (34 :: nat) = CHR 0x22" "char_of (92 :: nat) = CHR 0x5C"
  by code_simp+

lemma unesc_esc: "unesc (esc_char c @ r) = (c, r)"
proof -
  define n where "n = (of_char c :: nat)"
  have c: "c = char_of n" and n: "n < 256" by (simp_all add: n_def)
  have h: "16 * hex_val (hex_digit (n div 16)) + hex_val (hex_digit (n mod 16)) = n"
    using n by (simp add: hex_val_digit)
  have b: "c \<noteq> CHR 0x5C" if "n \<noteq> 92"
    using that by (auto simp: n_def)
  have "unesc ([CHR 0x5C, CHR ''u'', CHR ''0'', CHR ''0'', hex_digit (n div 16), hex_digit (n mod 16)] @ r) = (c, r)"
    unfolding unesc_def by (simp add: h c)
  moreover have "n \<noteq> 92 \<Longrightarrow> unesc ([c] @ r) = (c, r)" using b by (simp add: unesc_def)
  moreover have "unesc ([CHR 0x5C, x] @ r) =
      (if x = CHR ''n'' then char_of (10 :: nat) else if x = CHR ''r'' then char_of (13 :: nat)
       else if x = CHR ''t'' then char_of (9 :: nat) else if x = CHR ''f'' then char_of (12 :: nat)
       else if x = CHR ''b'' then char_of (8 :: nat) else x, r)" if "x \<noteq> CHR ''u''" for x
    using that by (simp add: unesc_def)
  ultimately show ?thesis
    unfolding esc_char_def n_def [symmetric] Let_def by (simp add: c char_of_quote)
qed

lemma esc_char_prefix_free: "esc_char c @ r = esc_char c' @ r' \<Longrightarrow> c = c' \<and> r = r'"
  by (metis unesc_esc prod.inject)

lemma esc_char_head: "esc_char c \<noteq> [] \<and> hd (esc_char c) \<noteq> CHR 0x22"
  by (auto simp: esc_char_def Let_def)

lemma esc_body_prefix_free:
  "concat (map esc_char s) @ CHR 0x22 # r = concat (map esc_char s') @ CHR 0x22 # r' \<Longrightarrow> s = s' \<and> r = r'"
proof (induction s arbitrary: s')
  case Nil
  show ?case
  proof (cases s')
    case (Cons c cs)
    with Nil esc_char_head [of c] show ?thesis by (cases "esc_char c") auto
  qed (use Nil in simp)
next
  case (Cons c cs)
  show ?case
  proof (cases s')
    case Nil
    with Cons.prems esc_char_head [of c] show ?thesis by (cases "esc_char c") auto
  next
    case (Cons c' cs')
    with Cons.prems have "esc_char c @ (concat (map esc_char cs) @ CHR 0x22 # r) =
        esc_char c' @ (concat (map esc_char cs') @ CHR 0x22 # r')" by simp
    then have "c = c' \<and> concat (map esc_char cs) @ CHR 0x22 # r = concat (map esc_char cs') @ CHR 0x22 # r'"
      by (rule esc_char_prefix_free)
    with Cons.IH Cons show ?thesis by auto
  qed
qed

lemma json_string_prefix_free: "json_string s @ r = json_string s' @ r' \<Longrightarrow> s = s' \<and> r = r'"
  using esc_body_prefix_free [of s r s' r'] by (simp add: json_string_def)

section \<open>Integers decode uniquely before a delimiter\<close>

definition is_digit :: "char \<Rightarrow> bool" where
  "is_digit c = (48 \<le> (of_char c :: nat) \<and> (of_char c :: nat) \<le> 57)"

definition digits_val :: "string \<Rightarrow> nat" where
  "digits_val s = foldl (\<lambda>a c. 10 * a + (of_char c - 48)) 0 s"

lemma of_digit_char: "d < 10 \<Longrightarrow> of_char (digit_char d) = 48 + d"
  by (simp add: digit_char_def)

lemma str_nat_step:
  "n < 10 \<Longrightarrow> str_nat n = [digit_char n]"
  "\<not> n < 10 \<Longrightarrow> str_nat n = str_nat (n div 10) @ [digit_char (n mod 10)]"
  by (subst str_nat.simps, simp)+

lemma is_digit_char: "d < 10 \<Longrightarrow> is_digit (digit_char d)"
  by (simp add: is_digit_def of_digit_char)

lemma digits_val_snoc: "d < 10 \<Longrightarrow> digits_val (s @ [digit_char d]) = 10 * digits_val s + d"
  by (simp add: digits_val_def of_digit_char)

lemma str_nat_facts: "str_nat n \<noteq> [] \<and> list_all is_digit (str_nat n) \<and> digits_val (str_nat n) = n"
proof (induction n rule: str_nat.induct)
  case (1 n)
  show ?case
  proof (cases "n < 10")
    case True
    then show ?thesis
      using digits_val_snoc [of n "[]"] by (simp add: str_nat_step is_digit_char digits_val_def [of "[]"])
  next
    case False
    have "n mod 10 < 10" by simp
    with 1 [OF False] show ?thesis
      by (simp add: str_nat_step(2) [OF False] is_digit_char digits_val_snoc)
  qed
qed

definition stop :: "string \<Rightarrow> bool" where
  "stop r = (r = [] \<or> hd r \<in> {CHR '','', CHR '']'', CHR ''}''})"

lemma stop_not_digit: "stop r \<Longrightarrow> r = [] \<or> \<not> is_digit (hd r)"
  by (auto simp: stop_def is_digit_def)

lemma str_nat_prefix_free:
  assumes "str_nat n @ r = str_nat n' @ r'" "stop r" "stop r'"
  shows "n = n' \<and> r = r'"
proof -
  have tw: "takeWhile is_digit (str_nat m @ q) = str_nat m" if "stop q" for m q
  proof -
    have "takeWhile is_digit q = []" using stop_not_digit [OF that] by (cases q) auto
    moreover have "\<forall>c \<in> set (str_nat m). is_digit c" using str_nat_facts [of m] by (simp add: list_all_iff)
    ultimately show ?thesis by (simp add: takeWhile_append)
  qed
  from tw [OF assms(2), of n] tw [OF assms(3), of n'] assms(1) have "str_nat n = str_nat n'" by simp
  with assms(1) str_nat_facts show ?thesis by (metis same_append_eq)
qed

lemma str_nat_head: "is_digit (hd (str_nat n))" "str_nat n \<noteq> []"
  using str_nat_facts [of n] by (auto simp: list_all_iff)

lemma str_int_prefix_free:
  assumes "str_int i @ r = str_int i' @ r'" "stop r" "stop r'"
  shows "i = i' \<and> r = r'"
proof -
  have m: "\<not> is_digit (CHR ''-'')" by (simp add: is_digit_def)
  have nd: "CHR ''-'' # u \<noteq> str_nat n @ v" for u v n
    using str_nat_head [of n] m by (cases "str_nat n") auto
  show ?thesis
  proof (cases "i < 0 \<longleftrightarrow> i' < 0")
    case True
    with assms have "str_nat (nat \<bar>i\<bar>) @ r = str_nat (nat \<bar>i'\<bar>) @ r'"
      by (auto simp: str_int_def split: if_splits)
    then have "nat \<bar>i\<bar> = nat \<bar>i'\<bar> \<and> r = r'" using assms(2,3) by (rule str_nat_prefix_free)
    with True show ?thesis by linarith
  next
    case False
    with assms(1) nd show ?thesis by (auto simp: str_int_def split: if_splits) (metis nd)+
  qed
qed

section \<open>Values decode uniquely\<close>

lemma stop_Cons: "stop (c # r) \<longleftrightarrow> c \<in> {CHR '','', CHR '']'', CHR ''}''}"
  by (simp add: stop_def)

lemma py_join_prefix_free:
  assumes "py_join '','' (map f xs) @ c # r = py_join '','' (map g ys) @ c # r'"
    and c: "c \<in> {CHR '']'', CHR ''}''}"
    and one: "\<And>x y s s'. x \<in> set xs \<Longrightarrow> y \<in> set ys \<Longrightarrow> f x @ s = g y @ s' \<Longrightarrow> stop s \<Longrightarrow> stop s' \<Longrightarrow> x = y \<and> s = s'"
    and hf: "\<And>x. x \<in> set xs \<Longrightarrow> f x \<noteq> [] \<and> hd (f x) \<notin> {CHR '']'', CHR ''}''}"
    and hg: "\<And>y. y \<in> set ys \<Longrightarrow> g y \<noteq> [] \<and> hd (g y) \<notin> {CHR '']'', CHR ''}''}"
  shows "xs = ys \<and> r = r'"
  using assms
proof (induction xs arbitrary: ys)
  case Nil
  show ?case
  proof (cases ys)
    case (Cons y ys')
    have "py_join '','' (map g ys) \<noteq> [] \<and> hd (py_join '','' (map g ys)) = hd (g y)"
      using Nil.prems(5) [of y] Cons by (cases ys') auto
    then have "hd (g y) = c" using Nil.prems(1) by (cases "py_join '','' (map g ys)") auto
    with Nil.prems(2,5) Cons show ?thesis by auto
  qed (use Nil in simp)
next
  case (Cons x xs)
  note IH = Cons.IH and P = Cons.prems
  let ?rest = "\<lambda>h zs q. (if zs = [] then c # q else CHR '','' # py_join '','' (map h zs) @ c # q)"
  have split: "py_join '','' (map h (z # zs)) @ c # q = h z @ ?rest h zs q" for h :: "'z \<Rightarrow> string" and z zs q
    by (cases zs) auto
  have st: "stop (?rest h zs q)" for h :: "'z \<Rightarrow> string" and zs q
    using P(2) by (auto simp: stop_Cons)
  show ?case
  proof (cases ys)
    case Nil
    have "py_join '','' (map f (x # xs)) \<noteq> [] \<and> hd (py_join '','' (map f (x # xs))) = hd (f x)"
      using P(4) [of x] by (cases xs) auto
    then have "hd (f x) = c" using P(1) Nil by (cases "py_join '','' (map f (x # xs))") auto
    with P(2,4) show ?thesis by auto
  next
    case (Cons y ys')
    have eq: "f x @ ?rest f xs r = g y @ ?rest g ys' r'"
      using P(1) unfolding Cons split .
    have xy: "x = y \<and> ?rest f xs r = ?rest g ys' r'"
      by (rule P(3) [OF _ _ eq st st]) (simp_all add: Cons)
    have "c \<noteq> CHR '',''" using P(2) by auto
    then have "py_join '','' (map f xs) @ c # r = py_join '','' (map g ys') @ c # r'"
      using conjunct2 [OF xy] by (cases "xs = []"; cases "ys' = []") simp_all
    then have "xs = ys' \<and> r = r'"
    proof (rule IH)
      fix z w s s'
      assume "z \<in> set xs" "w \<in> set ys'" "f z @ s = g w @ s'" "stop s" "stop s'"
      then show "z = w \<and> s = s'" using P(3) [of z w s s'] Cons by simp
    next
      fix w assume "w \<in> set ys'"
      then show "g w \<noteq> [] \<and> hd (g w) \<notin> {CHR '']'', CHR ''}''}" using P(5) [of w] Cons by simp
    qed (use P(2,4) in simp_all)
    with xy Cons show ?thesis by simp
  qed
qed

text \<open>The first character tells the constructor.\<close>

fun json_kind :: "json \<Rightarrow> nat" where
  "json_kind JNull = 0"
| "json_kind (JBool b) = (if b then 1 else 2)"
| "json_kind (JInt i) = 3"
| "json_kind (JFloat x) = 4"
| "json_kind (JStr s) = 5"
| "json_kind (JList xs) = 6"
| "json_kind (JObj kvs) = 7"

definition kind_of_head :: "char \<Rightarrow> nat" where
  "kind_of_head c =
     (if c = CHR ''n'' then 0 else if c = CHR ''t'' then 1 else if c = CHR ''f'' then 2
      else if c = CHR 0x22 then 5 else if c = CHR ''['' then 6 else if c = CHR ''{'' then 7 else 3)"

lemma digit_kind: "is_digit c \<Longrightarrow> kind_of_head c = 3"
  by (auto simp: kind_of_head_def is_digit_def)

lemma json_text_head:
  assumes "no_float j"
  shows "json_text j \<noteq> [] \<and> kind_of_head (hd (json_text j)) = json_kind j \<and>
    hd (json_text j) \<notin> {CHR '']'', CHR ''}''}"
proof (cases j)
  case (JInt i)
  have "\<not> is_digit (CHR '']'')" "\<not> is_digit (CHR ''}'')" by (auto simp: is_digit_def)
  moreover have "hd (json_text j) = (if i < 0 then CHR ''-'' else hd (str_nat (nat i)))"
    using JInt by (simp add: str_int_def)
  moreover have "json_text j \<noteq> []" using JInt str_nat_head(2) by (simp add: str_int_def)
  moreover have "kind_of_head (CHR ''-'') = 3" by (simp add: kind_of_head_def)
  ultimately show ?thesis
    using JInt str_nat_head(1) [of "nat i"] digit_kind [of "hd (str_nat (nat i))"] by (cases "i < 0") auto
qed (use assms in \<open>auto simp: kind_of_head_def json_string_def\<close>)

lemma json_kind_eq:
  assumes "no_float j" "no_float j'" "json_text j @ r = json_text j' @ r'"
  shows "json_kind j = json_kind j'"
  using json_text_head [OF assms(1)] json_text_head [OF assms(2)] assms(3) by (metis hd_append2)

lemma json_text_prefix_free:
  "no_float j \<Longrightarrow> no_float j' \<Longrightarrow> json_text j @ r = json_text j' @ r' \<Longrightarrow> stop r \<Longrightarrow> stop r' \<Longrightarrow>
    j = j' \<and> r = r'"
proof (induction j arbitrary: j' r r')
  case (JList xs)
  have "json_kind j' = 6"
    using json_kind_eq [OF JList.prems(1-3)] by simp
  then obtain ys where j': "j' = JList ys" by (cases j') (auto split: if_splits)
  have "xs = ys \<and> r = r'"
  proof (rule py_join_prefix_free)
    show "py_join '','' (map json_text xs) @ CHR '']'' # r = py_join '','' (map json_text ys) @ CHR '']'' # r'"
      using JList.prems(3) j' by simp
  next
    fix x y s s' assume "x \<in> set xs" "y \<in> set ys" "json_text x @ s = json_text y @ s'" "stop s" "stop s'"
    then show "x = y \<and> s = s'"
      using JList.IH JList.prems(1,2) j' by (auto simp: list_all_iff)
  qed (use JList.prems j' json_text_head in \<open>auto simp: list_all_iff\<close>)
  with j' show ?case by simp
next
  case (JObj kvs)
  let ?f = "\<lambda>(k, v). json_string k @ '':'' @ json_text v"
  have "json_kind j' = 7"
    using json_kind_eq [OF JObj.prems(1-3)] by simp
  then obtain ys where j': "j' = JObj ys" by (cases j') (auto split: if_splits)
  have "kvs = ys \<and> r = r'"
  proof (rule py_join_prefix_free)
    show "py_join '','' (map ?f kvs) @ CHR ''}'' # r = py_join '','' (map ?f ys) @ CHR ''}'' # r'"
      using JObj.prems(3) j' by simp
  next
    fix x y s s' assume xy: "x \<in> set kvs" "y \<in> set ys" and e: "?f x @ s = ?f y @ s'" and st: "stop s" "stop s'"
    obtain k v k' v' where p: "x = (k, v)" "y = (k', v')" by (cases x; cases y)
    have "k = k' \<and> '':'' @ json_text v @ s = '':'' @ json_text v' @ s'"
      using e p json_string_prefix_free [of k "'':'' @ json_text v @ s" k' "'':'' @ json_text v' @ s'"] by simp
    moreover from this have "v = v' \<and> s = s'"
      using JObj.IH [of x v v' s s'] JObj.prems(1,2) st xy p j' by (auto simp: list_all_iff)
    ultimately show "x = y \<and> s = s'" using p by simp
  qed (auto simp: json_string_def)
  with j' show ?case by simp
next
  case (JInt i)
  have "json_kind j' = 3"
    using json_kind_eq [OF JInt.prems(1-3)] by simp
  then obtain i' where "j' = JInt i'" by (cases j') (auto split: if_splits)
  then show ?case using str_int_prefix_free [of i r i' r'] JInt.prems by simp
next
  case (JStr s)
  have "json_kind j' = 5"
    using json_kind_eq [OF JStr.prems(1-3)] by simp
  then obtain s' where "j' = JStr s'" by (cases j') (auto split: if_splits)
  then show ?case using json_string_prefix_free [of s r s' r'] JStr.prems(3) by simp
next
  case JNull
  have "json_kind j' = 0"
    using json_kind_eq [OF JNull.prems(1-3)] by simp
  then have "j' = JNull" by (cases j') (auto split: if_splits)
  with JNull show ?case by simp
next
  case (JBool b)
  have "json_kind j' = (if b then 1 else 2)"
    using json_kind_eq [OF JBool.prems(1-3)] by simp
  then have "j' = JBool b" by (cases j') (auto split: if_splits)
  with JBool show ?case by simp
next
  case (JFloat x)
  then show ?case by simp
qed

lemma no_float_sorted: "no_float (json_sorted j) = no_float j"
  by (induction j) (auto simp: list_all_iff)

lemma map_of_first: "map_of xs k = (case filter (\<lambda>p. fst p = k) xs of [] \<Rightarrow> None | p # _ \<Rightarrow> Some (snd p))"
  by (induction xs) auto

lemma map_of_sort_key_fst: "map_of (sort_key fst xs) = map_of xs"
  by (rule ext) (simp only: map_of_first sort_key_stable)

lemma json_sorted_get:
  assumes "json_sorted (JObj d) = json_sorted (JObj d')"
  shows "map_option json_sorted (dict_get d k) = map_option json_sorted (dict_get d' k)"
proof -
  have "map_of (sort_key fst (map (\<lambda>(k, v). (k, json_sorted v)) d)) k =
      map_of (sort_key fst (map (\<lambda>(k, v). (k, json_sorted v)) d')) k"
    using assms by simp
  then show ?thesis by (simp only: map_of_sort_key_fst map_of_map o_apply)
qed

lemma json_dumps_inj:
  assumes "no_float j" "no_float j'" "json_dumps j = json_dumps j'"
  shows "json_sorted j = json_sorted j'"
  using json_text_prefix_free [of "json_sorted j" "json_sorted j'" "[]" "[]"] assms
  by (simp add: no_float_sorted json_dumps_def stop_def)

text \<open>UTF-8 is a prefix code, so the bytes determine the text.\<close>

definition utf8_unhead :: "bytes \<Rightarrow> nat \<times> bytes" where
  "utf8_unhead bs =
     (if unat (hd bs) < 128 then (unat (hd bs), tl bs)
      else (64 * (unat (hd bs) - 192) + (unat (bs ! 1) - 128), drop 2 bs))"

lemma utf8_unhead_char: "utf8_unhead (utf8_char c @ r) = (of_char c, r)"
proof -
  define n where "n = (of_char c :: nat)"
  have n: "n < 256" by (simp add: n_def)
  then have "n div 64 < 4" "n mod 64 < 64" by simp_all
  then have u: "unat (word_of_nat (192 + n div 64) :: byte) = 192 + n div 64"
    "unat (word_of_nat (128 + n mod 64) :: byte) = 128 + n mod 64"
    "unat (word_of_nat n :: byte) = n"
    using n by (simp_all add: unat_of_nat del: of_nat_add)
  have "64 * (n div 64) + n mod 64 = n" by simp
  then show ?thesis
    unfolding utf8_char_def n_def [symmetric] Let_def
    by (simp add: utf8_unhead_def u del: of_nat_add)
qed

lemma utf8_char_ne: "utf8_char c \<noteq> []"
  by (simp add: utf8_char_def Let_def)

lemma utf8_inj: "utf8 s = utf8 s' \<Longrightarrow> s = s'"
proof (induction s arbitrary: s')
  case Nil
  then show ?case by (cases s') (auto simp: utf8_def utf8_char_ne)
next
  case (Cons c s)
  show ?case
  proof (cases s')
    case Nil
    with Cons.prems show ?thesis by (auto simp: utf8_def utf8_char_ne)
  next
    case s': (Cons c' t)
    then have "utf8_char c @ utf8 s = utf8_char c' @ utf8 t" using Cons.prems by (simp add: utf8_def)
    then have "(of_char c, utf8 s) = (of_char c' :: nat, utf8 t)" by (metis utf8_unhead_char)
    then show ?thesis using Cons.IH s' by simp
  qed
qed

end
