(* ===== verification/Audit_Log.thy ===== *)
theory Audit_Log
  imports Prelude Sha256 Canonical_Json "HOL-Library.Multiset"
begin

text \<open>
  The tamper-evident audit log: \<^verbatim>\<open>auditor/audit_log/chain.py\<close> (hashing and verification of a
  chain), \<^verbatim>\<open>writer.py\<close> (appending) and \<^verbatim>\<open>verifier.py\<close> (checking a tenant's chain, with the
  exit code of the command line). The \<^verbatim>\<open>audit_log\<close> table is the list of its rows. An append runs
  under a per-tenant advisory lock, so it is one step; the sequence number the database draws is
  an argument, larger than the tenant's earlier ones.

  The locale \<open>chain_hashing\<close> states what the integrity argument needs of the hash (a link is a
  hash of the concatenation, digests have one length) and proves the binding property once; it is
  interpreted on \<^verbatim>\<open>compute_chain_hash\<close>, that is on SHA-256.
\<close>

section \<open>Chain primitives\<close>

definition GENESIS_HASH :: bytes where
  "GENESIS_HASH = replicate 32 0"

definition compute_payload_hash :: "(string, json) pydict \<Rightarrow> bytes" where
  "compute_payload_hash payload = sha256 (utf8 (json_dumps (JObj payload)))"

definition compute_chain_hash :: "bytes \<Rightarrow> bytes \<Rightarrow> bytes" where
  "compute_chain_hash prev_chain_hash payload_hash = sha256 (prev_chain_hash @ payload_hash)"

record audit_row =
  al_seq :: int
  al_tenant_id :: uuid
  al_ts :: timestamp
  al_actor_type :: string
  al_actor_id :: "uuid option"
  al_action :: string
  al_target_type :: "string option"
  al_target_id :: "uuid option"
  al_payload_hash :: bytes
  al_chain_hash :: bytes
  al_blob_uri :: "string option"

record chain_verification =
  cv_ok :: bool
  cv_count :: nat
  cv_first_break_seq :: "int option"
  cv_reason :: "string option"

fun verify_from :: "nat \<Rightarrow> bytes \<Rightarrow> audit_row list \<Rightarrow> chain_verification" where
  "verify_from n prev [] =
     \<lparr> cv_ok = True, cv_count = n, cv_first_break_seq = None, cv_reason = None \<rparr>"
| "verify_from n prev (entry # entries) =
     (let expected = compute_chain_hash prev (al_payload_hash entry) in
      if expected \<noteq> al_chain_hash entry then
        \<lparr> cv_ok = False, cv_count = n, cv_first_break_seq = Some (al_seq entry),
          cv_reason = Some (''chain_hash mismatch at seq='' @ str_int (al_seq entry) @ '': expected '' @
            take 16 (hex expected) @ ''.. got '' @ take 16 (hex (al_chain_hash entry)) @ ''..'') \<rparr>
      else verify_from n (al_chain_hash entry) entries)"

definition verify_chain :: "audit_row list \<Rightarrow> chain_verification" where
  "verify_chain entries = verify_from (length entries) GENESIS_HASH entries"

section \<open>Writer\<close>

datatype log_error = IntegrityError

definition opt_json :: "string option \<Rightarrow> json" where
  "opt_json x = (case x of None \<Rightarrow> JNull | Some s \<Rightarrow> JStr s)"

text \<open>The hashed body: the payload with the indexed columns under \<^verbatim>\<open>__meta__\<close>.\<close>

definition entry_payload ::
  "string \<Rightarrow> string \<Rightarrow> string option \<Rightarrow> uuid option \<Rightarrow> (string, json) pydict option \<Rightarrow> (string, json) pydict" where
  "entry_payload actor_type action target_type target_id payload =
     dict_set ''__meta__''
       (JObj [(''actor_type'', JStr actor_type), (''action'', JStr action),
              (''target_type'', opt_json target_type), (''target_id'', opt_json target_id)])
       (case payload of None \<Rightarrow> [] | Some d \<Rightarrow> d)"

definition tenant_rows :: "uuid \<Rightarrow> audit_row list \<Rightarrow> audit_row list" where
  "tenant_rows t rows = filter (\<lambda>r. al_tenant_id r = t) rows"

definition prev_chain :: "uuid \<Rightarrow> audit_row list \<Rightarrow> bytes" where
  "prev_chain t rows =
     (case sort_key (\<lambda>r. - al_seq r) (tenant_rows t rows) of
        [] \<Rightarrow> GENESIS_HASH
      | r # _ \<Rightarrow> if al_chain_hash r = [] then GENESIS_HASH else al_chain_hash r)"

definition append_entry ::
  "int \<Rightarrow> timestamp \<Rightarrow> uuid \<Rightarrow> string \<Rightarrow> string \<Rightarrow> uuid option \<Rightarrow> string option \<Rightarrow> uuid option \<Rightarrow>
   (string, json) pydict option \<Rightarrow> string option \<Rightarrow> audit_row list \<Rightarrow> log_error + bytes \<times> audit_row list" where
  "append_entry seq now tenant_id actor_type action actor_id target_type target_id payload blob_uri rows =
     (let p_hash = compute_payload_hash (entry_payload actor_type action target_type target_id payload);
          chain_hash = compute_chain_hash (prev_chain tenant_id rows) p_hash
      in if actor_type \<notin> {''system'', ''user'', ''agent''} then Inl IntegrityError
         else Inr (chain_hash, rows @
           [\<lparr> al_seq = seq, al_tenant_id = tenant_id, al_ts = now, al_actor_type = actor_type,
              al_actor_id = actor_id, al_action = action, al_target_type = target_type,
              al_target_id = target_id, al_payload_hash = p_hash, al_chain_hash = chain_hash,
              al_blob_uri = blob_uri \<rparr>]))"

definition chain_length :: "uuid \<Rightarrow> audit_row list \<Rightarrow> nat" where
  "chain_length t rows = length (tenant_rows t rows)"

section \<open>Verifier\<close>

definition verify :: "uuid \<Rightarrow> audit_row list \<Rightarrow> chain_verification" where
  "verify t rows = verify_chain (sort_key al_seq (tenant_rows t rows))"

text \<open>The process exit code: 0 intact, 1 broken, 2 usage error.\<close>

definition verifier_main :: "string \<Rightarrow> audit_row list \<Rightarrow> nat" where
  "verifier_main tenant_arg rows =
     (case parse_uuid tenant_arg of
        None \<Rightarrow> 2
      | Some t \<Rightarrow> if cv_ok (verify t rows) then 0 else 1)"

section \<open>What a chain binds\<close>

text \<open>A chain as its list of (payload hash, chain hash) pairs: that every hash links to the one
  before, the strings that were hashed, and the hash at the end.\<close>

fun links :: "(bytes \<Rightarrow> bytes \<Rightarrow> bytes) \<Rightarrow> bytes \<Rightarrow> (bytes \<times> bytes) list \<Rightarrow> bool" where
  "links h prev [] = True"
| "links h prev ((p, c) # es) = (c = h prev p \<and> links h c es)"

fun hashed :: "bytes \<Rightarrow> (bytes \<times> bytes) list \<Rightarrow> bytes list" where
  "hashed prev [] = []"
| "hashed prev ((p, c) # es) = (prev @ p) # hashed c es"

fun chain_end :: "bytes \<Rightarrow> (bytes \<times> bytes) list \<Rightarrow> bytes" where
  "chain_end prev [] = prev"
| "chain_end prev ((p, c) # es) = chain_end c es"

lemma links_snoc: "links h g (es @ [(p, c)]) \<longleftrightarrow> links h g es \<and> c = h (chain_end g es) p"
  by (induction h g es rule: links.induct) auto

lemma hashed_snoc: "hashed g (es @ [(p, c)]) = hashed g es @ [chain_end g es @ p]"
  by (induction g es rule: hashed.induct) auto

lemma chain_end_snoc [simp]: "chain_end g (es @ [(p, c)]) = c"
  by (induction g es rule: chain_end.induct) auto

lemma links_take: "links h g es \<Longrightarrow> links h g (take n es)"
proof (induction h g es arbitrary: n rule: links.induct)
  case (2 h prev p c es)
  then show ?case by (cases n) auto
qed simp

locale chain_hashing =
  fixes H :: "bytes \<Rightarrow> bytes"
    and link :: "bytes \<Rightarrow> bytes \<Rightarrow> bytes"
    and g :: bytes
  assumes link_hash: "link a p = H (a @ p)"
    and digest_length: "length (H x) = length g"
begin

lemma chain_end_length: "links link g es \<Longrightarrow> length (chain_end g es) = length g"
proof (induction es rule: rev_induct)
  case (snoc e es)
  then show ?case by (cases e) (simp add: links_snoc link_hash digest_length)
qed simp

lemma end_is_digest: "links link g es \<Longrightarrow> es \<noteq> [] \<Longrightarrow> \<exists>x \<in> set (hashed g es). H x = chain_end g es"
proof (induction es rule: rev_induct)
  case (snoc e es)
  then show ?case by (cases e) (simp add: links_snoc hashed_snoc link_hash)
qed simp

text \<open>Two chains with the same end carry the same payload hashes, or a collision or a preimage
  of the genesis value is among the strings that were hashed.\<close>

lemma chain_binding:
  assumes "links link g es" "links link g es'" "chain_end g es = chain_end g es'"
  shows "map fst es = map fst es' \<or>
    (\<exists>x \<in> set (hashed g es). \<exists>y \<in> set (hashed g es'). x \<noteq> y \<and> H x = H y) \<or>
    (\<exists>x \<in> set (hashed g es) \<union> set (hashed g es'). H x = g)"
  using assms
proof (induction es arbitrary: es' rule: rev_induct)
  case Nil
  then show ?case using end_is_digest [of es'] by (cases "es' = []") auto
next
  case (snoc e es)
  obtain p c where e: "e = (p, c)" by (cases e)
  show ?case
  proof (cases es' rule: rev_cases)
    case Nil
    then show ?thesis using end_is_digest [OF snoc.prems(1)] snoc.prems(3) by auto
  next
    case es': (snoc fs f)
    obtain q d where f: "f = (q, d)" by (cases f)
    note l = snoc.prems(1,2) [unfolded es' e f links_snoc]
    have cd: "c = d" using snoc.prems(3) by (simp add: es' e f)
    show ?thesis
    proof (cases "chain_end g es @ p = chain_end g fs @ q")
      case True
      moreover have "length (chain_end g es) = length (chain_end g fs)" using l chain_end_length by simp
      ultimately have "chain_end g es = chain_end g fs" "p = q" by simp_all
      with snoc.IH [of fs] l show ?thesis by (auto simp: es' e f hashed_snoc)
    next
      case False
      then show ?thesis using l cd by (auto simp: es' e f hashed_snoc link_hash)
    qed
  qed
qed

end

interpretation sha_chain: chain_hashing sha256 compute_chain_hash GENESIS_HASH
  by unfold_locales (simp_all add: compute_chain_hash_def GENESIS_HASH_def)

definition chain_pairs :: "audit_row list \<Rightarrow> (bytes \<times> bytes) list" where
  "chain_pairs es = map (\<lambda>e. (al_payload_hash e, al_chain_hash e)) es"

lemma chain_pairs_simps [simp]:
  "chain_pairs [] = []"
  "chain_pairs (e # es) = (al_payload_hash e, al_chain_hash e) # chain_pairs es"
  "chain_pairs (es @ fs) = chain_pairs es @ chain_pairs fs"
  by (simp_all add: chain_pairs_def)

lemma verify_from_ok: "cv_ok (verify_from n prev es) \<longleftrightarrow> links compute_chain_hash prev (chain_pairs es)"
  by (induction n prev es rule: verify_from.induct) (auto simp: Let_def)

lemma verify_from_count [simp]: "cv_count (verify_from n prev es) = n"
  by (induction n prev es rule: verify_from.induct) (auto simp: Let_def)

lemma verify_chain_ok: "cv_ok (verify_chain es) \<longleftrightarrow> links compute_chain_hash GENESIS_HASH (chain_pairs es)"
  by (simp add: verify_chain_def verify_from_ok)

lemma verify_from_break:
  "cv_first_break_seq (verify_from n prev es) = Some s \<Longrightarrow>
     \<exists>pre e post. es = pre @ e # post \<and> s = al_seq e \<and>
       links compute_chain_hash prev (chain_pairs pre) \<and>
       al_chain_hash e \<noteq> compute_chain_hash (chain_end prev (chain_pairs pre)) (al_payload_hash e)"
proof (induction n prev es rule: verify_from.induct)
  case (2 n prev e es)
  show ?case
  proof (cases "compute_chain_hash prev (al_payload_hash e) = al_chain_hash e")
    case True
    with 2 obtain pre e' post where
      "es = pre @ e' # post" "s = al_seq e'" "links compute_chain_hash (al_chain_hash e) (chain_pairs pre)"
      "al_chain_hash e' \<noteq> compute_chain_hash (chain_end (al_chain_hash e) (chain_pairs pre)) (al_payload_hash e')"
      by (auto simp: Let_def)
    with True show ?thesis by (intro exI [of _ "e # pre"]) auto
  next
    case False
    with 2 show ?thesis by (intro exI [of _ "[]"]) auto
  qed
qed simp

lemma verify_from_break_iff: "cv_first_break_seq (verify_from n prev es) = None \<longleftrightarrow> cv_ok (verify_from n prev es)"
  by (induction n prev es rule: verify_from.induct) (auto simp: Let_def)

text \<open>The hash an entry at a position has to link to.\<close>

definition hash_before :: "audit_row list \<Rightarrow> nat \<Rightarrow> bytes" where
  "hash_before es i = (if i = 0 then GENESIS_HASH else al_chain_hash (es ! (i - 1)))"

lemma links_nth:
  "links h g es \<longleftrightarrow> (\<forall>i < length es. snd (es ! i) = h (if i = 0 then g else snd (es ! (i - 1))) (fst (es ! i)))"
proof (induction h g es rule: links.induct)
  case (2 h prev p c es)
  then show ?case by (auto simp: less_Suc_eq_0_disj nth_Cons split: nat.splits) (metis Suc_pred not_gr_zero)
qed simp

lemma verify_chain_nth:
  "cv_ok (verify_chain es) \<longleftrightarrow>
    (\<forall>i < length es. al_chain_hash (es ! i) = compute_chain_hash (hash_before es i) (al_payload_hash (es ! i)))"
  by (auto simp: verify_chain_ok links_nth chain_pairs_def hash_before_def)

text \<open>After one entry is replaced, only its own link and the one of its successor can be broken.\<close>

lemma verify_chain_edit:
  assumes "cv_ok (verify_chain es)" "i < length es"
  shows "cv_ok (verify_chain (es[i := e])) \<longleftrightarrow>
    al_chain_hash e = compute_chain_hash (hash_before es i) (al_payload_hash e) \<and>
    (Suc i < length es \<longrightarrow>
       al_chain_hash (es ! Suc i) = compute_chain_hash (al_chain_hash e) (al_payload_hash (es ! Suc i)))"
    (is "?l \<longleftrightarrow> ?own \<and> ?next")
proof
  have old: "al_chain_hash (es ! j) = compute_chain_hash (hash_before es j) (al_payload_hash (es ! j))"
    if "j < length es" for j
    using that assms(1) by (simp add: verify_chain_nth)
  have before: "hash_before (es[i := e]) j = (if j = Suc i then al_chain_hash e else hash_before es j)"
    if "j < length es" for j
    using that assms(2) by (auto simp: hash_before_def nth_list_update)
  show "?own \<and> ?next" if "?l"
    using that assms(2) by (fastforce simp: verify_chain_nth before nth_list_update)
  have "al_chain_hash (es[i := e] ! j) = compute_chain_hash (hash_before (es[i := e]) j) (al_payload_hash (es[i := e] ! j))"
    if "?own \<and> ?next" "j < length es" for j
  proof (cases "j = i")
    case False
    with that old [of j] show ?thesis by (cases "j = Suc i") (auto simp: before)
  qed (use that assms(2) in \<open>simp add: before\<close>)
  then show "?l" if "?own \<and> ?next" using that by (simp add: verify_chain_nth)
qed

section \<open>The log the writer builds\<close>

inductive written :: "audit_row list \<Rightarrow> bool" where
  empty: "written []"
| append: "written rows \<Longrightarrow> \<forall>r \<in> set (tenant_rows t rows). al_seq r < seq \<Longrightarrow>
    append_entry seq now t atype action actor ttype tid payload blob rows = Inr (h, rows') \<Longrightarrow> written rows'"

definition log_inv :: "audit_row list \<Rightarrow> bool" where
  "log_inv rows \<longleftrightarrow>
     (\<forall>t. sorted_wrt (\<lambda>a b. al_seq a < al_seq b) (tenant_rows t rows) \<and>
          links compute_chain_hash GENESIS_HASH (chain_pairs (tenant_rows t rows)))"

lemma strict_sort_key:
  assumes "sorted_wrt (\<lambda>a b. al_seq a < al_seq b) xs"
  shows "sort_key al_seq xs = xs" "sort_key (\<lambda>r. - al_seq r) xs = rev xs"
proof -
  have "sorted_wrt (<) (map al_seq xs)" using assms by (simp add: sorted_wrt_map)
  then have m: "sorted (map al_seq xs)" "distinct (map al_seq xs)" by (simp_all add: strict_sorted_iff)
  from m(1) show "sort_key al_seq xs = xs" by (rule sort_key_id_if_sorted)
  have "inj_on (\<lambda>r. - al_seq r) (set xs)" using m(2) by (auto simp: distinct_map inj_on_def)
  moreover have "sorted (map (\<lambda>r. - al_seq r) (rev xs))"
    using m(1) by (simp add: rev_map sorted_wrt_rev sorted_wrt_map)
  ultimately show "sort_key (\<lambda>r. - al_seq r) xs = rev xs"
    by (intro sort_key_inj_key_eq) simp_all
qed

lemma prev_chain_end:
  assumes "log_inv rows"
  shows "prev_chain t rows = chain_end GENESIS_HASH (chain_pairs (tenant_rows t rows))"
proof -
  let ?rs = "tenant_rows t rows"
  have s: "sort_key (\<lambda>r. - al_seq r) ?rs = rev ?rs"
    using assms by (intro strict_sort_key) (simp add: log_inv_def)
  show ?thesis
  proof (cases ?rs rule: rev_cases)
    case Nil
    then show ?thesis by (simp add: prev_chain_def s)
  next
    case (snoc rs r)
    have "links compute_chain_hash GENESIS_HASH (chain_pairs ?rs)" using assms by (simp add: log_inv_def)
    then have "al_chain_hash r \<noteq> []"
      using snoc by (auto simp: links_snoc compute_chain_hash_def simp flip: length_0_conv)
    then show ?thesis by (simp add: prev_chain_def s) (simp add: snoc)
  qed
qed

lemma append_entry_inv:
  assumes "log_inv rows" "\<forall>r \<in> set (tenant_rows t rows). al_seq r < seq"
    and "append_entry seq now t atype action actor ttype tid payload blob rows = Inr (h, rows')"
  shows "log_inv rows'"
proof -
  obtain r where r: "rows' = rows @ [r]" "al_seq r = seq" "al_tenant_id r = t"
      "al_chain_hash r = compute_chain_hash (prev_chain t rows) (al_payload_hash r)"
    using assms(3) by (auto simp: append_entry_def Let_def split: if_splits)
  have "tenant_rows u rows' = tenant_rows u rows @ (if u = t then [r] else [])" for u
    using r by (auto simp: tenant_rows_def)
  with assms(1,2) r prev_chain_end [OF assms(1), of t] show ?thesis
    by (auto simp: log_inv_def sorted_wrt_append links_snoc)
qed

lemma written_inv: "written rows \<Longrightarrow> log_inv rows"
proof (induction rule: written.induct)
  case empty
  show ?case by (simp add: log_inv_def tenant_rows_def)
qed (rule append_entry_inv)

section \<open>What a payload hash binds\<close>

lemma opt_json_sorted_inj: "json_sorted (opt_json a) = json_sorted (opt_json b) \<Longrightarrow> a = b"
  by (cases a; cases b) (auto simp: opt_json_def)

definition no_float_payload :: "(string, json) pydict option \<Rightarrow> bool" where
  "no_float_payload p = (case p of None \<Rightarrow> True | Some d \<Rightarrow> no_float (JObj d))"

lemma no_float_update: "list_all (\<lambda>(k, v). no_float v) d \<Longrightarrow> no_float v \<Longrightarrow>
    list_all (\<lambda>(k, v). no_float v) (dict_set k v d)"
  by (induction d) auto

lemma no_float_entry:
  "no_float_payload p \<Longrightarrow> no_float (JObj (entry_payload ak ac tt ti p))"
  by (auto simp: entry_payload_def no_float_payload_def opt_json_def split: option.splits
      intro!: no_float_update)

text \<open>What the hash covers of a payload: everything but the caller's own \<^verbatim>\<open>__meta__\<close>.\<close>

definition body_of_payload :: "(string, json) pydict option \<Rightarrow> (string, json) pydict" where
  "body_of_payload p = (case p of None \<Rightarrow> [] | Some d \<Rightarrow> d)"

definition bound_payload :: "(string, json) pydict option \<Rightarrow> (string, json) pydict" where
  "bound_payload p = filter (\<lambda>(k, v). k \<noteq> ''__meta__'') (body_of_payload p)"

definition entry_meta :: "string \<Rightarrow> string \<Rightarrow> string option \<Rightarrow> uuid option \<Rightarrow> json" where
  "entry_meta ak ac tt ti = JObj [(''actor_type'', JStr ak), (''action'', JStr ac),
     (''target_type'', opt_json tt), (''target_id'', opt_json ti)]"

lemma entry_payload_alt: "entry_payload ak ac tt ti p = dict_set ''__meta__'' (entry_meta ak ac tt ti) (body_of_payload p)"
  by (simp add: entry_payload_def entry_meta_def body_of_payload_def)

lemma entry_meta_sorted_inj:
  assumes "json_sorted (entry_meta ak ac tt ti) = json_sorted (entry_meta ak' ac' tt' ti')"
  shows "ak = ak' \<and> ac = ac' \<and> tt = tt' \<and> ti = ti'"
proof -
  note m = json_sorted_get [OF assms [unfolded entry_meta_def]]
  show ?thesis
    using m [of "''actor_type''"] m [of "''action''"] m [of "''target_type''"] m [of "''target_id''"]
    by (simp add: opt_json_sorted_inj)
qed

lemma filter_dict_set_other: "filter (\<lambda>(k, v). k \<noteq> a) (dict_set a x d) = filter (\<lambda>(k, v). k \<noteq> a) d"
  by (induction d) auto

lemma filter_dict_set_same: "wf_dict d \<Longrightarrow> filter (\<lambda>(k, v). k = a) (dict_set a x d) = [(a, x)]"
proof (induction d)
  case (Cons e d)
  obtain k v where e: "e = (k, v)" by (cases e)
  have "k \<notin> fst ` set d" using Cons.prems by (simp add: e wf_dict_def)
  then have "filter (\<lambda>(k', v). k' = k) d = []" by (auto simp: filter_empty_conv intro!: rev_image_eqI)
  with Cons show ?case by (auto simp: e wf_dict_def)
qed simp

text \<open>A sorted object is determined by the values at one key and the rest of it.\<close>

lemma json_sorted_split:
  "json_sorted (JObj d) = json_sorted (JObj d') \<longleftrightarrow>
    json_sorted (JObj (filter (\<lambda>(k, v). k = a) d)) = json_sorted (JObj (filter (\<lambda>(k, v). k = a) d')) \<and>
    json_sorted (JObj (filter (\<lambda>(k, v). k \<noteq> a) d)) = json_sorted (JObj (filter (\<lambda>(k, v). k \<noteq> a) d'))"
    (is "?l \<longleftrightarrow> ?r")
proof
  let ?m = "map (\<lambda>(k, v). (k, json_sorted v))"
  have f: "?m (filter (\<lambda>(k, v). P k) d) = filter (\<lambda>e. P (fst e)) (?m d)" for P d
    by (induction d) auto
  show "?r" if "?l" using that by (simp add: f flip: filter_sort)
  assume "?r"
  then have r: "filter (\<lambda>e. fst e = a) (sort_key fst (?m d)) = filter (\<lambda>e. fst e = a) (sort_key fst (?m d'))"
      "filter (\<lambda>e. fst e \<noteq> a) (sort_key fst (?m d)) = filter (\<lambda>e. fst e \<noteq> a) (sort_key fst (?m d'))"
    by (simp_all add: f filter_sort)
  let ?x = "sort_key fst (?m d)" and ?y = "sort_key fst (?m d')"
  have part: "mset z = mset (filter (\<lambda>e. fst e = a) z) + mset (filter (\<lambda>e. fst e \<noteq> a) z)" for z :: "(string \<times> json) list"
    by (induction z) auto
  have "mset ?x = mset ?y" by (simp only: part [of ?x] part [of ?y] r)
  moreover have "filter (\<lambda>e. fst e = k) ?x = filter (\<lambda>e. fst e = k) ?y" for k
  proof (cases "k = a")
    case False
    have "filter (\<lambda>e. fst e = k) z = filter (\<lambda>e. fst e = k) (filter (\<lambda>e. fst e \<noteq> a) z)" for z :: "(string \<times> json) list"
      using False by (auto intro: filter_cong)
    with r(2) show ?thesis by metis
  qed (simp add: r(1))
  ultimately have "sort_key fst ?y = ?x"
    by (intro properties_for_sort_key) (auto simp: eq_commute)
  moreover have "sort_key fst ?y = ?y" by (intro sort_key_id_if_sorted sorted_sort_key)
  ultimately show "?l" by simp
qed

lemma entry_payload_sorted_eq:
  assumes "wf_dict (body_of_payload p)" "wf_dict (body_of_payload p')"
  shows "json_sorted (JObj (entry_payload ak ac tt ti p)) = json_sorted (JObj (entry_payload ak' ac' tt' ti' p')) \<longleftrightarrow>
    ak = ak' \<and> ac = ac' \<and> tt = tt' \<and> ti = ti' \<and> json_sorted (JObj (bound_payload p)) = json_sorted (JObj (bound_payload p'))"
proof -
  have single: "json_sorted (JObj [(''__meta__'', m)]) = json_sorted (JObj [(''__meta__'', m')]) \<longleftrightarrow> json_sorted m = json_sorted m'"
    for m m' by simp
  show ?thesis
    using entry_meta_sorted_inj [of ak ac tt ti ak' ac' tt' ti']
    by (subst json_sorted_split [of _ _ "''__meta__''"])
      (auto simp: entry_payload_alt filter_dict_set_other filter_dict_set_same assms bound_payload_def single
        simp del: json_sorted.simps(2))
qed

section \<open>Properties\<close>

lemma written_verifies:
  assumes "written rows"
  shows "cv_ok (verify u rows)"
  using written_inv [OF assms] strict_sort_key(1) [of "tenant_rows u rows"]
  by (simp add: verify_def verify_chain_ok log_inv_def)

text \<open>
  C5. Whatever the writer appends, in any order and for any tenants, the verifier accepts every
  tenant's chain, counts all its entries, and never exits with code 1.
\<close>

theorem audit_log_verifies:
  assumes "written rows"
  shows "cv_ok (verify t rows) \<and> cv_count (verify t rows) = chain_length t rows \<and>
    verifier_main arg rows \<noteq> 1"
  using written_verifies [OF assms]
  by (simp add: verify_def verify_chain_def chain_length_def verifier_main_def split: option.splits)

definition sample_append :: "log_error + bytes \<times> audit_row list" where
  "sample_append = append_entry 1 0 ''t1'' ''system'' ''promote'' None None None None None []"

definition sample_log :: "audit_row list" where
  "sample_log = snd (projr sample_append)"

lemma sample_log_written: "written sample_log" and sample_log_one: "\<exists>r. sample_log = [r]"
proof -
  obtain h where "sample_append = Inr (h, sample_log)"
    by (simp add: sample_append_def sample_log_def append_entry_def Let_def)
  then show "written sample_log"
    unfolding sample_append_def by (rule written.append [OF written.empty, rotated]) (simp add: tenant_rows_def)
  show "\<exists>r. sample_log = [r]"
    by (simp add: sample_append_def sample_log_def append_entry_def Let_def)
qed

lemma sample_log_ok: "cv_ok (verify_chain sample_log)"
proof -
  have "tenant_rows ''t1'' sample_log = sample_log"
    by (simp add: sample_append_def sample_log_def append_entry_def Let_def tenant_rows_def)
  with written_inv [OF sample_log_written] show ?thesis
    by (simp add: log_inv_def verify_chain_ok) metis
qed

theorem audit_log_verifies_witness: "cv_ok (verify ''t1'' sample_log) \<and> sample_log \<noteq> []"
  using audit_log_verifies [OF sample_log_written] sample_log_one by auto

text \<open>
  C6. Tamper evidence: two histories of entries that both verify and end in the same chain hash
  have the same payload hashes in the same order, unless two different strings among those hashed
  have the same SHA-256 digest, or one of them has the all-zero digest.
\<close>

theorem chain_binds:
  assumes "cv_ok (verify_chain es)" "cv_ok (verify_chain fs)" "es \<noteq> []" "fs \<noteq> []"
    and "al_chain_hash (last es) = al_chain_hash (last fs)"
  shows "map al_payload_hash es = map al_payload_hash fs \<or>
    (\<exists>x \<in> set (hashed GENESIS_HASH (chain_pairs es)). \<exists>y \<in> set (hashed GENESIS_HASH (chain_pairs fs)).
       x \<noteq> y \<and> sha256 x = sha256 y) \<or>
    (\<exists>x \<in> set (hashed GENESIS_HASH (chain_pairs es)) \<union> set (hashed GENESIS_HASH (chain_pairs fs)).
       sha256 x = GENESIS_HASH)"
proof -
  have ends: "chain_end GENESIS_HASH (chain_pairs rs) = al_chain_hash (last rs)" if "rs \<noteq> []" for rs
    using that by (cases rs rule: rev_cases) auto
  have fst: "map fst (chain_pairs rs) = map al_payload_hash rs" for rs
    by (simp add: chain_pairs_def)
  from sha_chain.chain_binding [of "chain_pairs es" "chain_pairs fs"] assms show ?thesis
    by (simp add: verify_chain_ok ends fst)
qed

theorem chain_binds_witness:
  "let es = sample_log; fs = map (al_action_update (\<lambda>_. ''demote'')) sample_log in
   es \<noteq> fs \<and> cv_ok (verify_chain es) \<and> cv_ok (verify_chain fs) \<and>
   (map al_payload_hash es = map al_payload_hash fs \<or>
    (\<exists>x \<in> set (hashed GENESIS_HASH (chain_pairs es)). \<exists>y \<in> set (hashed GENESIS_HASH (chain_pairs fs)).
       x \<noteq> y \<and> sha256 x = sha256 y) \<or>
    (\<exists>x \<in> set (hashed GENESIS_HASH (chain_pairs es)) \<union> set (hashed GENESIS_HASH (chain_pairs fs)).
       sha256 x = GENESIS_HASH))"
proof -
  let ?fs = "map (al_action_update (\<lambda>_. ''demote'')) sample_log"
  obtain r where r: "sample_log = [r]" "al_action r = ''promote''"
    by (simp add: sample_append_def sample_log_def append_entry_def Let_def)
  have "chain_pairs ?fs = chain_pairs sample_log" by (simp add: chain_pairs_def)
  then have ok: "cv_ok (verify_chain ?fs)" using sample_log_ok by (simp add: verify_chain_ok)
  have "map al_action sample_log \<noteq> map al_action ?fs" by (simp add: r)
  then have "sample_log \<noteq> ?fs" by metis
  with chain_binds [OF sample_log_ok ok] sample_log_ok ok r show ?thesis by (simp add: Let_def)
qed

text \<open>
  C7. What the payload hash of an entry binds, exactly: two entries with payloads without floats have the
  same payload hash if and only if they have the same actor type, action and target and, up to the order
  of keys, the same payload apart from the key \<^verbatim>\<open>__meta__\<close> (which the writer overwrites, so that a value the
  caller puts there is not bound), or their different encodings collide under SHA-256.
\<close>

theorem payload_hash_binds:
  assumes "no_float_payload p" "no_float_payload p'" "wf_dict (body_of_payload p)" "wf_dict (body_of_payload p')"
  shows "compute_payload_hash (entry_payload ak ac tt ti p) = compute_payload_hash (entry_payload ak' ac' tt' ti' p') \<longleftrightarrow>
    (ak = ak' \<and> ac = ac' \<and> tt = tt' \<and> ti = ti' \<and>
      json_sorted (JObj (bound_payload p)) = json_sorted (JObj (bound_payload p'))) \<or>
    (let x = utf8 (json_dumps (JObj (entry_payload ak ac tt ti p)));
         y = utf8 (json_dumps (JObj (entry_payload ak' ac' tt' ti' p')))
     in x \<noteq> y \<and> sha256 x = sha256 y)"
proof -
  have "utf8 (json_dumps (JObj (entry_payload ak ac tt ti p))) =
      utf8 (json_dumps (JObj (entry_payload ak' ac' tt' ti' p'))) \<longleftrightarrow>
    json_sorted (JObj (entry_payload ak ac tt ti p)) = json_sorted (JObj (entry_payload ak' ac' tt' ti' p'))"
    using json_dumps_inj [OF no_float_entry [OF assms(1)] no_float_entry [OF assms(2)]] utf8_inj
    unfolding json_dumps_def by metis
  then show ?thesis using entry_payload_sorted_eq [OF assms(3,4)]
    by (auto simp: compute_payload_hash_def Let_def)
qed

theorem payload_hash_binds_witness:
  "compute_payload_hash (entry_payload ''user'' ''promote'' None (Some ''x'') (Some [(''n'', JInt 3), (''m'', JNull)])) =
   compute_payload_hash (entry_payload ''user'' ''promote'' None (Some ''x'')
     (Some [(''m'', JNull), (''__meta__'', JInt 1), (''n'', JInt 3)]))"
proof -
  let ?p = "Some [(''n'', JInt 3), (''m'', JNull)]"
    and ?q = "Some [(''m'', JNull), (''__meta__'', JInt 1), (''n'', JInt 3)]"
  have "json_sorted (JObj (bound_payload ?p)) = json_sorted (JObj (bound_payload ?q))" by code_simp
  moreover have "no_float_payload ?p" "no_float_payload ?q" by (simp_all add: no_float_payload_def)
  moreover have "wf_dict (body_of_payload ?p)" "wf_dict (body_of_payload ?q)"
    by (simp_all add: wf_dict_def body_of_payload_def)
  ultimately show ?thesis using payload_hash_binds [of ?p ?q] by blast
qed

text \<open>
  \<^verbatim>\<open>verify_chain\<close> reports the first entry that breaks the chain: either every entry links to
  its predecessor and the result is ok, or the reported sequence number is that of an entry whose
  chain hash is wrong while all entries before it are linked.
\<close>

theorem verify_chain_first_break:
  "cv_count (verify_chain es) = length es \<and>
   (case cv_first_break_seq (verify_chain es) of
      None \<Rightarrow> cv_ok (verify_chain es) \<and> links compute_chain_hash GENESIS_HASH (chain_pairs es)
    | Some s \<Rightarrow> \<not> cv_ok (verify_chain es) \<and>
        (\<exists>pre e post. es = pre @ e # post \<and> s = al_seq e \<and>
           links compute_chain_hash GENESIS_HASH (chain_pairs pre) \<and>
           al_chain_hash e \<noteq>
             compute_chain_hash (chain_end GENESIS_HASH (chain_pairs pre)) (al_payload_hash e)))"
proof (cases "cv_first_break_seq (verify_chain es)")
  case None
  then have "cv_ok (verify_chain es)"
    using verify_from_break_iff [of "length es" GENESIS_HASH es] by (simp add: verify_chain_def)
  with None show ?thesis by (simp add: verify_chain_ok) (simp add: verify_chain_def)
next
  case (Some s)
  then have "\<not> cv_ok (verify_chain es)"
    using verify_from_break_iff [of "length es" GENESIS_HASH es] by (simp add: verify_chain_def)
  moreover note verify_from_break [OF Some [unfolded verify_chain_def]]
  ultimately show ?thesis unfolding Some by (simp add: verify_chain_def)
qed

text \<open>
  C8. What verification sees of an edit. If the entry at a position of a verifying history is replaced by
  another, verification fails when the new entry does not carry the hash that links it, and for any entry
  but the latest also when either of its two hashes differs from the old one, unless two different strings
  are exhibited that have the same SHA-256 digest. It does not see any other change: an entry with the two
  old hashes passes whatever its remaining columns say, so does any relinked replacement of the latest
  entry, and so does a history from which the latest entries were removed.
\<close>

theorem verification_of_edits:
  assumes "cv_ok (verify_chain es)" "i < length es"
  shows "(cv_ok (verify_chain (es[i := e])) \<longrightarrow>
      al_chain_hash e = compute_chain_hash (hash_before es i) (al_payload_hash e) \<and>
      (Suc i < length es \<longrightarrow>
        al_chain_hash e = al_chain_hash (es ! i) \<and> al_payload_hash e = al_payload_hash (es ! i) \<or>
        (\<exists>x \<in> {hash_before es i @ al_payload_hash e, al_chain_hash e @ al_payload_hash (es ! Suc i)}.
         \<exists>y \<in> {hash_before es i @ al_payload_hash (es ! i), al_chain_hash (es ! i) @ al_payload_hash (es ! Suc i)}.
           x \<noteq> y \<and> sha256 x = sha256 y))) \<and>
    (al_chain_hash e = al_chain_hash (es ! i) \<and> al_payload_hash e = al_payload_hash (es ! i) \<or>
     Suc i = length es \<and> al_chain_hash e = compute_chain_hash (hash_before es i) (al_payload_hash e) \<longrightarrow>
       cv_ok (verify_chain (es[i := e]))) \<and>
    cv_ok (verify_chain (take n es))"
proof -
  have old: "al_chain_hash (es ! j) = compute_chain_hash (hash_before es j) (al_payload_hash (es ! j))"
    if "j < length es" for j
    using that assms(1) by (simp add: verify_chain_nth)
  have next_before: "hash_before es (Suc i) = al_chain_hash (es ! i)" by (simp add: hash_before_def)
  have "cv_ok (verify_chain (take n es))"
    using assms(1) by (simp add: verify_chain_ok chain_pairs_def links_take flip: take_map)
  then show ?thesis
    using verify_chain_edit [OF assms, of e] old [of i] old [of "Suc i"] next_before assms(2)
    by (auto simp: compute_chain_hash_def)
qed

definition three_entries :: "audit_row list" where
  "three_entries =
     (let add = (\<lambda>seq action rows. snd (projr (append_entry seq 0 ''t1'' ''system'' action None None None None None rows)))
      in add 3 ''disable'' (add 2 ''promote'' (add 1 ''propose'' [])))"

lemma three_entries_verify: "length three_entries = 3 \<and> cv_ok (verify_chain three_entries)"
  by (simp add: three_entries_def append_entry_def Let_def prev_chain_def tenant_rows_def verify_chain_def
      compute_chain_hash_def flip: length_0_conv)

theorem verification_of_edits_witness:
  "cv_ok (verify_chain three_entries) \<and>
   cv_ok (verify_chain (three_entries[1 := (three_entries ! 1)\<lparr> al_action := ''nothing'', al_actor_id := Some ''other'' \<rparr>])) \<and>
   \<not> cv_ok (verify_chain (three_entries[1 := (three_entries ! 1)\<lparr> al_chain_hash := [] \<rparr>])) \<and>
   cv_ok (verify_chain (take 2 three_entries))"
proof -
  have ok: "cv_ok (verify_chain three_entries)" "1 < length three_entries" using three_entries_verify by simp_all
  note edit = verification_of_edits [OF ok]
  have "([]::bytes) \<noteq> compute_chain_hash a b" for a b
    using length_sha256 [of "a @ b"] by (auto simp: compute_chain_hash_def simp del: length_sha256)
  with edit [of "(three_entries ! 1)\<lparr> al_chain_hash := [] \<rparr>" 0]
    edit [of "(three_entries ! 1)\<lparr> al_action := ''nothing'', al_actor_id := Some ''other'' \<rparr>" 2] ok
  show ?thesis by simp
qed

end
