(* ===== verification/Events.thy ===== *)
theory Events
  imports Prelude Sha256 Canonical_Json Verdicts
begin

text \<open>
  Events, traces and detector registration: \<^verbatim>\<open>auditor/events/schemas.py\<close>,
  \<^verbatim>\<open>auditor/detectors/base.py\<close> and \<^verbatim>\<open>registry.py\<close>. The subclasses of \<^verbatim>\<open>BaseEvent\<close> are the
  constructors of \<open>event_body\<close>; the literal \<^verbatim>\<open>channel\<close> and \<^verbatim>\<open>event_type\<close> fields of a subclass
  are functions of its constructor.
\<close>

datatype channel = VOLUNTARY | INVOLUNTARY

datatype memory_kind = MemRead | MemWrite

datatype event_body =
    ToolCallStart uuid string "(string, json) pydict" "string option" "uuid option" "string option"
      \<comment> \<open>agent, tool name, arguments, declared purpose, call id, schema hash\<close>
  | ToolCallEnd uuid uuid string "string option" "string option"
      \<comment> \<open>agent, call id, status, result summary, error\<close>
  | LLMCall uuid string bytes int int
      \<comment> \<open>agent, model, messages hash, tokens in, tokens out\<close>
  | MemoryOp memory_kind uuid string "string list" "string option"
      \<comment> \<open>kind, agent, store, keys or query, source\<close>
  | InterAgentMessage uuid uuid bytes bytes
      \<comment> \<open>sender, receiver, message hash, signature\<close>
  | IntentDeclaration uuid string "string list"
      \<comment> \<open>agent, intent, plan steps\<close>
  | SyscallOpenat string int
      \<comment> \<open>path, flags\<close>
  | SyscallConnect string string "int option"
      \<comment> \<open>family, address, port\<close>
  | SyscallExecve string "string list"
      \<comment> \<open>binary, argv\<close>
  | SyscallSendto int int "string option"
      \<comment> \<open>fd, bytes sent, destination\<close>
  | DnsQueryEvent string "string list"
      \<comment> \<open>query name, results\<close>
  | OtherEvent channel string
      \<comment> \<open>a bare \<^verbatim>\<open>BaseEvent\<close>: channel and event type\<close>

record event =
  e_event_id :: uuid
  e_run_id :: uuid
  e_tenant_id :: uuid
  e_span_id :: uuid
  e_parent_span_id :: "uuid option"
  e_ts :: timestamp
  e_pid :: "int option"
  e_schema_version :: int
  e_body :: event_body

fun body_type :: "event_body \<Rightarrow> string" where
  "body_type (ToolCallStart _ _ _ _ _ _) = ''tool_call.start''"
| "body_type (ToolCallEnd _ _ _ _ _) = ''tool_call.end''"
| "body_type (LLMCall _ _ _ _ _) = ''llm.call''"
| "body_type (MemoryOp k _ _ _ _) = (case k of MemRead \<Rightarrow> ''memory.read'' | MemWrite \<Rightarrow> ''memory.write'')"
| "body_type (InterAgentMessage _ _ _ _) = ''agent.message''"
| "body_type (IntentDeclaration _ _ _) = ''intent.declare''"
| "body_type (SyscallOpenat _ _) = ''syscall.openat''"
| "body_type (SyscallConnect _ _ _) = ''syscall.connect''"
| "body_type (SyscallExecve _ _) = ''syscall.execve''"
| "body_type (SyscallSendto _ _ _) = ''syscall.sendto''"
| "body_type (DnsQueryEvent _ _) = ''syscall.dns''"
| "body_type (OtherEvent _ t) = t"

fun body_channel :: "event_body \<Rightarrow> channel" where
  "body_channel (SyscallOpenat _ _) = INVOLUNTARY"
| "body_channel (SyscallConnect _ _ _) = INVOLUNTARY"
| "body_channel (SyscallExecve _ _) = INVOLUNTARY"
| "body_channel (SyscallSendto _ _ _) = INVOLUNTARY"
| "body_channel (DnsQueryEvent _ _) = INVOLUNTARY"
| "body_channel (OtherEvent c _) = c"
| "body_channel _ = VOLUNTARY"

abbreviation event_type :: "event \<Rightarrow> string" where
  "event_type e \<equiv> body_type (e_body e)"

abbreviation channel_of :: "event \<Rightarrow> channel" where
  "channel_of e \<equiv> body_channel (e_body e)"

section \<open>Traces and the detector registry\<close>

record trace =
  tr_run_id :: uuid
  tr_tenant_id :: uuid
  tr_declared_goal :: "string option"
  tr_events :: "event list"
  tr_metadata :: "(string, json) pydict"

datatype detector_state = PROPOSED | SHADOW | CANARY | ENFORCING | DISABLED | DEPRECATED | REMOVED

definition detector_state_value :: "detector_state \<Rightarrow> string" where
  "detector_state_value s =
     (case s of PROPOSED \<Rightarrow> ''PROPOSED'' | SHADOW \<Rightarrow> ''SHADOW'' | CANARY \<Rightarrow> ''CANARY''
      | ENFORCING \<Rightarrow> ''ENFORCING'' | DISABLED \<Rightarrow> ''DISABLED'' | DEPRECATED \<Rightarrow> ''DEPRECATED''
      | REMOVED \<Rightarrow> ''REMOVED'')"

text \<open>A factory is represented by the detector it makes: a function from a trace to the result
  of \<^verbatim>\<open>run\<close>, an exception (its text) or verdicts.\<close>

type_synonym detector_run = "trace \<Rightarrow> string + verdict list"

record detector_registration =
  dr_name :: string
  dr_version :: string
  dr_asi_category :: string
  dr_factory :: detector_run
  dr_requires_judge :: bool
  dr_state :: detector_state

type_synonym registry = "(string, detector_registration) pydict"

definition register_detector ::
  "string \<Rightarrow> string \<Rightarrow> string \<Rightarrow> bool \<Rightarrow> detector_state option \<Rightarrow> detector_run \<Rightarrow> registry \<Rightarrow> registry" where
  "register_detector name version asi requires_judge state factory reg =
     dict_set name
       \<lparr> dr_name = name, dr_version = version, dr_asi_category = asi, dr_factory = factory,
         dr_requires_judge = requires_judge,
         dr_state = (case state of None \<Rightarrow> PROPOSED | Some s \<Rightarrow> s) \<rparr> reg"

definition clear_registry :: "registry \<Rightarrow> registry" where
  "clear_registry reg = []"

text \<open>A registry holds each registration under its own name.\<close>

definition registry_wf :: "registry \<Rightarrow> bool" where
  "registry_wf reg = (wf_dict reg \<and> list_all (\<lambda>(k, r). dr_name r = k) reg)"

lemma register_wf:
  "registry_wf reg \<Longrightarrow> registry_wf (register_detector n v a j s f reg)"
proof -
  have "list_all (\<lambda>(k, r). dr_name r = k) reg \<Longrightarrow> dr_name x = n \<Longrightarrow>
      list_all (\<lambda>(k, r). dr_name r = k) (dict_set n x reg)" for x :: detector_registration
    by (induction reg) auto
  then show "registry_wf reg \<Longrightarrow> ?thesis"
    by (auto simp: registry_wf_def register_detector_def)
qed

lemma register_defaults_proposed:
  "map_option dr_state (dict_get (register_detector n v a j None f reg) n) = Some PROPOSED"
  by (simp add: register_detector_def update_conv)

section \<open>Building a verdict\<close>

text \<open>\<^verbatim>\<open>Verdict(...)\<close> with the fields a detector leaves at their defaults; the identifier and the
  time stamp come from an environment.\<close>

record verdict_env =
  ve_id :: uuid
  ve_now :: timestamp

definition make_verdict ::
  "verdict_env \<Rightarrow> trace \<Rightarrow> string \<Rightarrow> string \<Rightarrow> verdict_result \<Rightarrow> rat \<Rightarrow> evidence list \<Rightarrow>
   (string, json) pydict option \<Rightarrow> verdict" where
  "make_verdict env tr detector asi result conf evs scores =
     \<lparr> vd_verdict_id = ve_id env, vd_run_id = tr_run_id tr, vd_tenant_id = tr_tenant_id tr,
       vd_detector = detector, vd_asi_category = asi, vd_result = result, vd_confidence = conf,
       vd_evidence = evs, vd_judge_model = None, vd_judge_prompt_v = None,
       vd_rubric_scores = scores, vd_ts = ve_now env \<rparr>"

definition evidence_at :: "event \<Rightarrow> string \<Rightarrow> evidence" where
  "evidence_at e r = \<lparr> ev_event_id = Some (e_event_id e), ev_reason = r \<rparr>"

definition evidence_text :: "string \<Rightarrow> evidence" where
  "evidence_text r = \<lparr> ev_event_id = None, ev_reason = r \<rparr>"

lemma make_verdict_simps [simp]:
  "vd_result (make_verdict env tr d a r c es s) = r"
  "vd_evidence (make_verdict env tr d a r c es s) = es"
  "vd_detector (make_verdict env tr d a r c es s) = d"
  "vd_asi_category (make_verdict env tr d a r c es s) = a"
  "vd_confidence (make_verdict env tr d a r c es s) = c"
  "vd_rubric_scores (make_verdict env tr d a r c es s) = s"
  "vd_run_id (make_verdict env tr d a r c es s) = tr_run_id tr"
  "vd_tenant_id (make_verdict env tr d a r c es s) = tr_tenant_id tr"
  by (simp_all add: make_verdict_def)

end
