(* ===== verification/Correlation.thy ===== *)
theory Correlation
  imports Events
begin

text \<open>
  The dual-channel signal: \<^verbatim>\<open>auditor/events/correlator.py\<close> (which kernel-observed events have no
  declaration) and \<^verbatim>\<open>auditor/inline_gate/divergence.py\<close> (their classification into findings and
  verdicts). \<^verbatim>\<open>urlparse\<close> raises \<^verbatim>\<open>ValueError\<close> on a network location with unbalanced brackets; on
  bracketed or non-ASCII locations it applies version-dependent checks, which are the parameter
  \<open>netloc_ok\<close>. Time differences are the floats the code computes.
\<close>

section \<open>\<^verbatim>\<open>urlparse(...).hostname\<close>\<close>

definition is_alpha :: "char \<Rightarrow> bool" where
  "is_alpha c = (let n = of_char c :: nat in (65 \<le> n \<and> n \<le> 90) \<or> (97 \<le> n \<and> n \<le> 122))"

definition scheme_char :: "char \<Rightarrow> bool" where
  "scheme_char c =
     (let n = of_char c :: nat in is_alpha c \<or> (48 \<le> n \<and> n \<le> 57) \<or> n = 43 \<or> n = 45 \<or> n = 46)"

definition url_clean :: "string \<Rightarrow> string" where
  "url_clean s =
     filter (\<lambda>c. of_char c \<notin> {9 :: nat, 10, 13}) (dropWhile (\<lambda>c. of_char c \<le> (32 :: nat)) s)"

definition url_rest :: "string \<Rightarrow> string" where
  "url_rest u =
     (let sch = before_char (CHR '':'') u in
      if CHR '':'' \<in> set u \<and> sch \<noteq> [] \<and> is_alpha (hd sch) \<and> list_all scheme_char sch
      then after_char (CHR '':'') u else u)"

definition url_netloc :: "string \<Rightarrow> string" where
  "url_netloc s =
     (let r = url_rest (url_clean s) in
      if startswith r ''//''
      then takeWhile (\<lambda>c. c \<noteq> CHR ''/'' \<and> c \<noteq> CHR ''?'' \<and> c \<noteq> CHR ''#'') (drop 2 r) else [])"

definition netloc_hostname :: "string \<Rightarrow> string" where
  "netloc_hostname n =
     (let hostinfo = rev (takeWhile (\<lambda>c. c \<noteq> CHR ''@'') (rev n));
          h = (if CHR ''['' \<in> set hostinfo then before_char (CHR '']'') (after_char (CHR ''['') hostinfo)
               else before_char (CHR '':'') hostinfo)
      in py_lower (before_char (CHR ''%'') h) @ dropWhile (\<lambda>c. c \<noteq> CHR ''%'') h)"

definition url_hostname :: "(string \<Rightarrow> bool) \<Rightarrow> string \<Rightarrow> py_error + string" where
  "url_hostname netloc_ok s =
     (let n = url_netloc s in
      if (CHR ''['' \<in> set n) \<noteq> (CHR '']'' \<in> set n) then Inl ValueError
      else if (CHR ''['' \<in> set n \<or> list_ex (\<lambda>c. 128 \<le> (of_char c :: nat)) n) \<and> \<not> netloc_ok n
        then Inl ValueError
      else Inr (netloc_hostname n))"

section \<open>Correlator\<close>

type_synonym signature = "string \<times> string"

definition host :: "(string \<Rightarrow> bool) \<Rightarrow> string \<Rightarrow> py_error + string" where
  "host netloc_ok u =
     (if u = [] then Inr []
      else if str_in ''://'' u then map_sum id py_lower (url_hostname netloc_ok u)
      else Inr (py_lower (before_char (CHR '':'') u)))"

fun involuntary_signature :: "(string \<Rightarrow> bool) \<Rightarrow> event_body \<Rightarrow> py_error + signature" where
  "involuntary_signature ok (SyscallOpenat path _) = Inr (''file'', path)"
| "involuntary_signature ok (SyscallConnect _ addr _) = map_sum id (Pair ''net'') (host ok addr)"
| "involuntary_signature ok (DnsQueryEvent q _) = map_sum id (Pair ''net'') (host ok q)"
| "involuntary_signature ok (SyscallSendto _ _ dest) =
     map_sum id (Pair ''net'') (host ok (case dest of None \<Rightarrow> [] | Some d \<Rightarrow> d))"
| "involuntary_signature ok (SyscallExecve binary _) = Inr (''exec'', binary)"
| "involuntary_signature ok (OtherEvent c t) =
     (if t = ''syscall.openat'' then Inr (''file'', [])
      else if t \<in> {''syscall.connect'', ''syscall.dns'', ''syscall.sendto''} then Inr (''net'', [])
      else if t = ''syscall.execve'' then Inr (''exec'', [])
      else Inr (''other'', t))"
| "involuntary_signature ok b = Inr (''other'', body_type b)"

definition declared_host :: "(string, json) pydict \<Rightarrow> string" where
  "declared_host args =
     (let u = dict_get_or (JStr []) args ''url'' in
      json_str (if json_truthy u then u else dict_get_or (JStr []) args ''host''))"

definition tool_produces :: "(string \<Rightarrow> bool) \<Rightarrow> string \<Rightarrow> (string, json) pydict \<Rightarrow> py_error + signature list" where
  "tool_produces ok tool args =
     (let files = (if tool \<in> {''file_read'', ''file_write''} \<and> json_truthy (dict_get_or JNull args ''path'')
                   then [(''file'', json_str (dict_get_or JNull args ''path''))] else []);
          execs = (if tool = ''exec_shell'' then [(''exec'', ''*'')] else [])
      in if tool \<in> {''http_get'', ''http_post''}
         then map_sum id (\<lambda>h. files @ (if h = [] then [] else [(''net'', h)]) @ execs) (host ok (declared_host args))
         else Inr (files @ execs))"

fun voluntary_produces :: "(string \<Rightarrow> bool) \<Rightarrow> event_body \<Rightarrow> py_error + signature list" where
  "voluntary_produces ok (ToolCallStart _ tool args _ _ _) = tool_produces ok tool args"
| "voluntary_produces ok (LLMCall _ _ _ _ _) = Inr [(''net'', ''api.anthropic.com'')]"
| "voluntary_produces ok (OtherEvent _ t) =
     (if t = ''tool_call.start'' then tool_produces ok [] []
      else if t = ''llm.call'' then Inr [(''net'', ''api.anthropic.com'')] else Inr [])"
| "voluntary_produces ok _ = Inr []"

definition sig_match :: "signature \<Rightarrow> signature \<Rightarrow> bool" where
  "sig_match observed declared =
     (case (observed, declared) of ((kind, v), (pkind, pvalue)) \<Rightarrow>
        pkind = kind \<and>
        (pvalue = ''*'' \<or> pvalue = v \<or>
         (kind = ''net'' \<and> v \<noteq> [] \<and> pvalue \<noteq> [] \<and> (str_in v pvalue \<or> str_in pvalue v)) \<or>
         (kind = ''file'' \<and> v \<noteq> [] \<and> pvalue \<noteq> [] \<and> v = pvalue)))"

definition matches :: "signature \<Rightarrow> signature list \<Rightarrow> bool" where
  "matches observed produced = list_ex (sig_match observed) produced"

text \<open>\<^verbatim>\<open>timedelta.total_seconds()\<close>, and \<^verbatim>\<open>timestamp()\<close> as seconds since the epoch.\<close>

definition total_seconds :: "int \<Rightarrow> rat" where
  "total_seconds us = fdiv (of_int us) 1000000"

definition learning :: "rat \<Rightarrow> timestamp \<Rightarrow> event \<Rightarrow> bool" where
  "learning baseline_s run_start e = (0 < baseline_s \<and> total_seconds (e_ts e - run_start) < baseline_s)"

definition correlated :: "rat \<Rightarrow> (rat \<times> signature list) list \<Rightarrow> event \<Rightarrow> signature \<Rightarrow> bool" where
  "correlated window voluntary e sig =
     list_ex (\<lambda>(vts, produced). matches sig produced \<and> \<bar>fsub vts (total_seconds (e_ts e))\<bar> \<le> window) voluntary"

fun scan_unmatched ::
  "(string \<Rightarrow> bool) \<Rightarrow> rat \<Rightarrow> rat \<Rightarrow> timestamp \<Rightarrow> (rat \<times> signature list) list \<Rightarrow> signature list \<Rightarrow>
   event list \<Rightarrow> py_error + event list" where
  "scan_unmatched ok window baseline_s start voluntary baseline [] = Inr []"
| "scan_unmatched ok window baseline_s start voluntary baseline (e # es) =
     (if learning baseline_s start e then scan_unmatched ok window baseline_s start voluntary baseline es
      else case involuntary_signature ok (e_body e) of
        Inl err \<Rightarrow> Inl err
      | Inr sig \<Rightarrow>
          if sig \<in> set baseline \<or> correlated window voluntary e sig
          then scan_unmatched ok window baseline_s start voluntary baseline es
          else map_sum id (\<lambda>us. e # us) (scan_unmatched ok window baseline_s start voluntary baseline es))"

definition voluntary_pairs :: "(string \<Rightarrow> bool) \<Rightarrow> event list \<Rightarrow> py_error + (rat \<times> signature list) list" where
  "voluntary_pairs ok events =
     traverse (\<lambda>e. map_sum id (Pair (total_seconds (e_ts e))) (voluntary_produces ok (e_body e)))
       (filter (\<lambda>e. channel_of e = VOLUNTARY) events)"

definition baseline_sigs :: "(string \<Rightarrow> bool) \<Rightarrow> rat \<Rightarrow> timestamp \<Rightarrow> event list \<Rightarrow> py_error + signature list" where
  "baseline_sigs ok baseline_s start involuntary =
     traverse (\<lambda>e. involuntary_signature ok (e_body e)) (filter (learning baseline_s start) involuntary)"

definition unmatched_involuntary ::
  "(string \<Rightarrow> bool) \<Rightarrow> event list \<Rightarrow> int \<Rightarrow> rat \<Rightarrow> py_error + event list" where
  "unmatched_involuntary ok events window_ms baseline_s =
     (if events = [] then Inr []
      else
        (let start = Min (set (map e_ts events));
             window = fdiv (of_int window_ms) 1000;
             involuntary = filter (\<lambda>e. channel_of e = INVOLUNTARY) events
         in case voluntary_pairs ok events of
              Inl err \<Rightarrow> Inl err
            | Inr voluntary \<Rightarrow>
                (case baseline_sigs ok baseline_s start involuntary of
                   Inl err \<Rightarrow> Inl err
                 | Inr baseline \<Rightarrow> scan_unmatched ok window baseline_s start voluntary baseline involuntary)))"

section \<open>Divergence detector\<close>

definition SENSITIVE_PATHS :: "string list" where
  "SENSITIVE_PATHS =
     [''/etc/'', ''/proc/'', ''/sys/'', ''/root/.ssh/'', ''/.ssh/'', ''.ssh/'',
      ''.aws/credentials'', ''/proc/self/environ'', ''id_rsa'',
      [CHR 0x5C] @ ''.ssh'' @ [CHR 0x5C], [CHR 0x5C] @ ''.aws'' @ [CHR 0x5C], ''_history'']"

definition ALLOWLISTED_DESTS :: "string list" where
  "ALLOWLISTED_DESTS = [''api.anthropic.com'', ''127.0.0.1'', ''localhost'']"

record divergence_config =
  dc_window_ms :: int
  dc_baseline_s :: rat
  dc_sensitive_paths :: "string list"
  dc_allowlisted_dests :: "string list"

definition for_platform :: "bool \<Rightarrow> divergence_config" where
  "for_platform win32 =
     \<lparr> dc_window_ms = (if win32 then 800 else 200), dc_baseline_s = 0,
       dc_sensitive_paths = SENSITIVE_PATHS, dc_allowlisted_dests = ALLOWLISTED_DESTS \<rparr>"

record divergence_finding =
  df_severity :: severity
  df_asi_category :: string
  df_reason :: string
  df_event :: event
  df_detail :: string

definition is_sensitive :: "string \<Rightarrow> divergence_config \<Rightarrow> bool" where
  "is_sensitive path cfg = list_ex (\<lambda>frag. str_in (py_lower frag) (py_lower path)) (dc_sensitive_paths cfg)"

definition is_allowlisted :: "string \<Rightarrow> divergence_config \<Rightarrow> bool" where
  "is_allowlisted h cfg = list_ex (\<lambda>allowed. str_in allowed (py_lower h)) (dc_allowlisted_dests cfg)"

definition finding :: "severity \<Rightarrow> string \<Rightarrow> string \<Rightarrow> event \<Rightarrow> string \<Rightarrow> divergence_finding" where
  "finding s a r e d =
     \<lparr> df_severity = s, df_asi_category = a, df_reason = r, df_event = e, df_detail = d \<rparr>"

definition classify_sig :: "event \<Rightarrow> divergence_config \<Rightarrow> signature \<Rightarrow> divergence_finding" where
  "classify_sig e cfg sig =
     (case sig of (kind, v) \<Rightarrow>
        if kind = ''exec'' then finding CRITICAL ''ASI05'' ''undeclared process execution'' e v
        else if kind = ''file'' then
          (if is_sensitive v cfg
           then finding CRITICAL ''ASI03'' ''undeclared access to a sensitive path'' e v
           else finding HIGH ''ASI03'' ''undeclared file access'' e v)
        else if kind = ''net'' then
          (if \<not> is_allowlisted v cfg
           then finding CRITICAL ''ASI01'' ''undeclared egress to a non-allowlisted destination'' e v
           else finding HIGH ''ASI01'' ''undeclared network activity'' e v)
        else finding HIGH ''ASI10'' ''undeclared involuntary activity'' e v)"

definition classify_event :: "(string \<Rightarrow> bool) \<Rightarrow> divergence_config \<Rightarrow> event \<Rightarrow> py_error + divergence_finding" where
  "classify_event ok cfg e = map_sum id (classify_sig e cfg) (involuntary_signature ok (e_body e))"

definition analyze :: "(string \<Rightarrow> bool) \<Rightarrow> divergence_config \<Rightarrow> event list \<Rightarrow> py_error + divergence_finding list" where
  "analyze ok cfg events =
     (case unmatched_involuntary ok events (dc_window_ms cfg) (dc_baseline_s cfg) of
        Inl err \<Rightarrow> Inl err
      | Inr unmatched \<Rightarrow> traverse (classify_event ok cfg) unmatched)"

definition finding_verdict :: "verdict_env \<Rightarrow> uuid \<Rightarrow> uuid \<Rightarrow> divergence_finding \<Rightarrow> verdict" where
  "finding_verdict env run_id tenant_id f =
     \<lparr> vd_verdict_id = ve_id env, vd_run_id = run_id, vd_tenant_id = tenant_id,
       vd_detector = ''channel_divergence'', vd_asi_category = df_asi_category f,
       vd_result = VIOLATION, vd_confidence = 1,
       vd_evidence = [\<lparr> ev_event_id = Some (e_event_id (df_event f)),
                        ev_reason = df_reason f @ '': '' @ df_detail f \<rparr>],
       vd_judge_model = None, vd_judge_prompt_v = None,
       vd_rubric_scores = Some [(''severity'', JStr (severity_value (df_severity f)))],
       vd_ts = ve_now env \<rparr>"

text \<open>The environment supplies a fresh identifier and the time for each verdict.\<close>

definition to_verdicts :: "(nat \<Rightarrow> verdict_env) \<Rightarrow> uuid \<Rightarrow> uuid \<Rightarrow> divergence_finding list \<Rightarrow> verdict list" where
  "to_verdicts env run_id tenant_id findings =
     map (\<lambda>(i, f). finding_verdict (env i) run_id tenant_id f) (enumerate 0 findings)"

definition critical_findings :: "divergence_finding list \<Rightarrow> divergence_finding list" where
  "critical_findings fs = filter (\<lambda>f. df_severity f = CRITICAL) fs"

section \<open>Facts about the scan\<close>

lemma scan_unmatched_Inr:
  "scan_unmatched ok w b s vol base es = Inr us \<Longrightarrow>
     us = filter (\<lambda>e. \<not> learning b s e \<and>
       (\<exists>sig. involuntary_signature ok (e_body e) = Inr sig \<and> sig \<notin> set base \<and> \<not> correlated w vol e sig)) es"
proof (induction ok w b s vol base es arbitrary: us rule: scan_unmatched.induct)
  case (2 ok w b s vol base e es)
  show ?case
  proof (cases "learning b s e")
    case True
    with 2 show ?thesis by simp
  next
    case False
    with 2 show ?thesis
      by (cases "involuntary_signature ok (e_body e)") (auto simp: map_sum_Inr_iff split: if_splits)
  qed
qed simp

lemma traverse_map_pairs:
  assumes "traverse f xs = Inr ys"
  shows "set ys = {y. \<exists>x \<in> set xs. f x = Inr y}"
  using assms unfolding traverse_Inr_iff by (induction rule: list_all2_induct) auto

definition declared_near :: "(string \<Rightarrow> bool) \<Rightarrow> rat \<Rightarrow> event list \<Rightarrow> event \<Rightarrow> signature \<Rightarrow> bool" where
  "declared_near ok window events e sig \<longleftrightarrow>
     (\<exists>v \<in> set events. channel_of v = VOLUNTARY \<and>
        (\<exists>produced. voluntary_produces ok (e_body v) = Inr produced \<and> matches sig produced) \<and>
        \<bar>fsub (total_seconds (e_ts v)) (total_seconds (e_ts e))\<bar> \<le> window)"

lemma correlated_declared:
  assumes "voluntary_pairs ok events = Inr vol"
  shows "correlated w vol e sig \<longleftrightarrow> declared_near ok w events e sig"
proof -
  note vs = traverse_map_pairs [OF assms [unfolded voluntary_pairs_def]]
  show ?thesis
    unfolding correlated_def list_ex_iff vs declared_near_def
    by (fastforce simp: map_sum_Inr_iff)
qed

lemma unmatched_Inr:
  assumes "unmatched_involuntary ok events w b = Inr us" and "events \<noteq> []"
  defines "start \<equiv> Min (set (map e_ts events))"
  shows "us = filter (\<lambda>e. channel_of e = INVOLUNTARY \<and> \<not> learning b start e \<and>
    (\<exists>sig. involuntary_signature ok (e_body e) = Inr sig \<and>
       (\<forall>l \<in> set events. channel_of l = INVOLUNTARY \<and> learning b start l \<longrightarrow>
          involuntary_signature ok (e_body l) \<noteq> Inr sig) \<and>
       \<not> declared_near ok (fdiv (of_int w) 1000) events e sig)) events"
proof -
  let ?inv = "filter (\<lambda>e. channel_of e = INVOLUNTARY) events"
  from assms obtain vol base where v: "voluntary_pairs ok events = Inr vol"
    and b: "baseline_sigs ok b start ?inv = Inr base"
    and s: "scan_unmatched ok (fdiv (of_int w) 1000) b start vol base ?inv = Inr us"
    by (auto simp: unmatched_involuntary_def Let_def split: sum.splits)
  have base: "sig \<in> set base \<longleftrightarrow> (\<exists>l \<in> set events. channel_of l = INVOLUNTARY \<and> learning b start l \<and>
      involuntary_signature ok (e_body l) = Inr sig)" for sig
    using traverse_map_pairs [OF b [unfolded baseline_sigs_def]] by auto
  show ?thesis
    unfolding scan_unmatched_Inr [OF s] filter_filter correlated_declared [OF v] base
    by (rule filter_cong) auto
qed

lemma classify_finding: "classify (finding_verdict env r t f) = Some (df_severity f)"
  by (simp add: classify_def finding_verdict_def severity_of_value)

lemma finding_verdict_result [simp]: "vd_result (finding_verdict env r t f) = VIOLATION"
  by (simp add: finding_verdict_def)

lemma to_verdicts_classify: "List.map_filter classify (to_verdicts env r t fs) = map df_severity fs"
proof -
  have "map (\<lambda>(i, f). df_severity f) (enumerate n fs) = map df_severity fs" for n
    by (induction fs arbitrary: n) auto
  then show ?thesis
    by (simp add: to_verdicts_def map_filter_def filter_map o_def case_prod_unfold classify_finding)
qed

lemma to_verdicts_actionable: "filter (\<lambda>v. vd_result v \<noteq> OK) (to_verdicts env r t fs) = to_verdicts env r t fs"
  by (auto simp: to_verdicts_def finding_verdict_def filter_id_conv)

lemma to_verdicts_empty [simp]: "to_verdicts env r t fs = [] \<longleftrightarrow> fs = []"
  by (cases fs) (auto simp: to_verdicts_def)

lemma host_error: "host ok u = Inl err \<Longrightarrow> err = ValueError"
  by (cases "url_hostname ok u") (auto simp: host_def url_hostname_def Let_def split: if_splits)

lemma tool_produces_error: "tool_produces ok tool args = Inl err \<Longrightarrow> err = ValueError"
  using host_error [of ok "declared_host args" err]
  by (cases "host ok (declared_host args)") (auto simp: tool_produces_def Let_def split: if_splits)

lemma voluntary_error: "voluntary_produces ok b = Inl err \<Longrightarrow> err = ValueError"
  by (cases b) (auto dest: tool_produces_error split: if_splits)

lemma traverse_error:
  assumes "\<And>x err. f x = Inl err \<Longrightarrow> err = c" "x \<in> set xs" "f x = Inl err"
  shows "traverse f xs = Inl c"
  using assms(2)
proof (induction xs)
  case (Cons y ys)
  show ?case
  proof (cases "f y")
    case (Inl e)
    then show ?thesis using assms(1) by simp
  next
    case (Inr z)
    then have "x \<in> set ys" using Cons.prems assms(3) by auto
    then show ?thesis using Cons.IH Inr by simp
  qed
qed simp

section \<open>Properties\<close>

text \<open>
  C9. When the correlation succeeds it returns, in order, exactly the involuntary events outside
  the learning period whose signature was not observed during it and which no voluntary event
  declares within the time window.
\<close>

theorem unmatched_involuntary_spec:
  assumes "unmatched_involuntary ok events window_ms baseline_s = Inr us"
  shows "us = filter (\<lambda>e. channel_of e = INVOLUNTARY \<and>
      \<not> learning baseline_s (Min (set (map e_ts events))) e \<and>
      (\<exists>sig. involuntary_signature ok (e_body e) = Inr sig \<and>
         (\<forall>l \<in> set events. channel_of l = INVOLUNTARY \<and> learning baseline_s (Min (set (map e_ts events))) l \<longrightarrow>
            involuntary_signature ok (e_body l) \<noteq> Inr sig) \<and>
         \<not> declared_near ok (fdiv (of_int window_ms) 1000) events e sig)) events"
proof (cases "events = []")
  case True
  then show ?thesis using assms by (simp add: unmatched_involuntary_def)
qed (rule unmatched_Inr [OF assms])

definition sample_event :: "uuid \<Rightarrow> timestamp \<Rightarrow> event_body \<Rightarrow> event" where
  "sample_event i ts b =
     \<lparr> e_event_id = i, e_run_id = ''r1'', e_tenant_id = ''t1'', e_span_id = ''s1'',
       e_parent_span_id = None, e_ts = ts, e_pid = None, e_schema_version = 1, e_body = b \<rparr>"

theorem unmatched_involuntary_spec_witness:
  "unmatched_involuntary (\<lambda>_. True) [sample_event ''e1'' 5 (SyscallExecve ''/bin/sh'' [])] 200 0 =
     Inr [sample_event ''e1'' 5 (SyscallExecve ''/bin/sh'' [])]"
proof -
  let ?e = "sample_event ''e1'' 5 (SyscallExecve ''/bin/sh'' [])"
  obtain us where us: "unmatched_involuntary (\<lambda>_. True) [?e] 200 0 = Inr us"
    by (simp add: unmatched_involuntary_def voluntary_pairs_def baseline_sigs_def learning_def
        correlated_def sample_event_def Let_def)
  from unmatched_involuntary_spec [OF us] us show ?thesis
    by (simp add: learning_def declared_near_def sample_event_def)
qed

text \<open>
  From findings to the flag: the verdicts of the divergence findings aggregate to no flag when
  there are none, and otherwise to a flag whose severity is the greatest of the findings'; it is
  critical exactly when \<^verbatim>\<open>critical_findings\<close> is not empty.
\<close>

theorem divergence_flag_severity:
  "case aggregate fresh now r t (to_verdicts env r t fs) of
     None \<Rightarrow> fs = []
   | Some fl \<Rightarrow> fs \<noteq> [] \<and> fl_severity fl = Max (insert LOW (df_severity ` set fs)) \<and>
       (fl_severity fl = CRITICAL \<longleftrightarrow> critical_findings fs \<noteq> [])"
proof (cases "fs = []")
  case True
  then show ?thesis by (simp add: aggregate_def to_verdicts_def)
next
  case False
  let ?m = "Max (insert LOW (df_severity ` set fs))"
  have m: "score_severity (to_verdicts env r t fs) = ?m"
    by (simp add: score_severity_alt to_verdicts_classify)
  have top: "s \<le> CRITICAL" for s by (cases s) (simp_all add: less_eq_severity_def)
  have "?m = CRITICAL \<longleftrightarrow> CRITICAL \<in> df_severity ` set fs"
  proof
    assume "?m = CRITICAL"
    then have "CRITICAL \<in> insert LOW (df_severity ` set fs)"
      using Max_in [of "insert LOW (df_severity ` set fs)"] by simp
    then show "CRITICAL \<in> df_severity ` set fs" by simp
  next
    assume "CRITICAL \<in> df_severity ` set fs"
    then show "?m = CRITICAL" by (intro Max_eqI) (auto intro: top)
  qed
  moreover have "CRITICAL \<in> df_severity ` set fs \<longleftrightarrow> critical_findings fs \<noteq> []"
    by (force simp: critical_findings_def filter_empty_conv)
  ultimately show ?thesis
    using False m by (simp add: aggregate_def Let_def to_verdicts_actionable)
qed

text \<open>
  An executed program that no voluntary event declares near its time is reported as a
  critical finding of category ASI05, whenever the analysis succeeds without a learning period.
\<close>

theorem undeclared_exec_is_critical:
  assumes "analyze ok cfg events = Inr fs" "dc_baseline_s cfg = 0"
    and "e \<in> set events" "e_body e = SyscallExecve binary argv"
    and "\<not> declared_near ok (fdiv (of_int (dc_window_ms cfg)) 1000) events e (''exec'', binary)"
  shows "\<exists>f \<in> set (critical_findings fs). df_event f = e \<and> df_asi_category f = ''ASI05''"
proof -
  obtain us where us: "unmatched_involuntary ok events (dc_window_ms cfg) 0 = Inr us"
    and fs: "traverse (classify_event ok cfg) us = Inr fs"
    using assms(1,2) by (auto simp: analyze_def split: sum.splits)
  have "events \<noteq> []" using assms(3) by auto
  then have "e \<in> set us"
    using unmatched_Inr [OF us] assms(3-5) by (simp add: learning_def)
  moreover have "classify_event ok cfg e = Inr (finding CRITICAL ''ASI05'' ''undeclared process execution'' e binary)"
    using assms(4) by (simp add: classify_event_def classify_sig_def)
  ultimately have "finding CRITICAL ''ASI05'' ''undeclared process execution'' e binary \<in> set fs"
    using traverse_map_pairs [OF fs] by auto
  then show ?thesis by (force simp: critical_findings_def finding_def)
qed

theorem undeclared_exec_is_critical_witness:
  "\<exists>fs f. analyze (\<lambda>_. True) (for_platform False) [sample_event ''e1'' 5 (SyscallExecve ''/bin/sh'' [])] = Inr fs \<and>
     f \<in> set (critical_findings fs) \<and> df_asi_category f = ''ASI05''"
proof -
  let ?e = "sample_event ''e1'' 5 (SyscallExecve ''/bin/sh'' [])"
  obtain fs where fs: "analyze (\<lambda>_. True) (for_platform False) [?e] = Inr fs"
    by (simp add: analyze_def for_platform_def unmatched_involuntary_def voluntary_pairs_def
        baseline_sigs_def learning_def correlated_def sample_event_def Let_def classify_event_def)
  have "\<exists>f \<in> set (critical_findings fs). df_event f = ?e \<and> df_asi_category f = ''ASI05''"
    by (rule undeclared_exec_is_critical [OF fs])
      (simp_all add: for_platform_def sample_event_def declared_near_def)
  with fs show ?thesis by auto
qed

text \<open>
  One malformed declaration stops the analysis: if the signature of any voluntary event
  raises, as for a declared URL with an unbalanced bracket, \<^verbatim>\<open>analyze\<close> raises \<^verbatim>\<open>ValueError\<close>
  whatever else the run did.
\<close>

theorem malformed_declaration_raises:
  assumes "v \<in> set events" "e_body v = ToolCallStart ag ''http_get'' args pu ci sh"
    and "host ok (declared_host args) = Inl err"
  shows "analyze ok cfg events = Inl ValueError"
proof -
  have "voluntary_produces ok (e_body v) = Inl err"
    using assms(2,3) by (simp add: tool_produces_def Let_def)
  then have "voluntary_pairs ok events = Inl ValueError"
    unfolding voluntary_pairs_def
    by (intro traverse_error [where x = v and err = err])
      (use assms(1,2) voluntary_error in \<open>auto simp: map_sum_def split: sum.splits\<close>)
  moreover have "events \<noteq> []" using assms(1) by auto
  ultimately show ?thesis by (simp add: analyze_def unmatched_involuntary_def Let_def)
qed

theorem malformed_declaration_raises_witness:
  "analyze (\<lambda>_. True) (for_platform False)
     [sample_event ''e1'' 5 (SyscallExecve ''/bin/sh'' []),
      sample_event ''e2'' 9 (ToolCallStart ''a1'' ''http_get'' [(''url'', JStr ''http://[x'')] None None None)] =
   Inl ValueError"
proof (rule malformed_declaration_raises [where v =
      "sample_event ''e2'' 9 (ToolCallStart ''a1'' ''http_get'' [(''url'', JStr ''http://[x'')] None None None)"])
  show "e_body (sample_event ''e2'' 9 (ToolCallStart ''a1'' ''http_get'' [(''url'', JStr ''http://[x'')] None None None)) =
      ToolCallStart ''a1'' ''http_get'' [(''url'', JStr ''http://[x'')] None None None"
    by (simp add: sample_event_def)
  show "host (\<lambda>_. True) (declared_host [(''url'', JStr ''http://[x'')]) = Inl ValueError"
    by code_simp
qed simp

text \<open>
  Hosts are compared by substring: a connection to any host whose name contains the model
  provider's, such as \<^verbatim>\<open>api.anthropic.com.evil.example\<close>, at the time of a model call is never
  reported.
\<close>

theorem lookalike_host_absorbed:
  assumes "unmatched_involuntary ok events window_ms baseline_s = Inr us" "0 \<le> window_ms"
    and "v \<in> set events" "e_body v = LLMCall ag m h ti to" "e_ts v = e_ts e"
    and "e \<in> set events" "e_body e = SyscallConnect fam addr port" "host ok addr = Inr name"
    and "str_in ''api.anthropic.com'' name"
  shows "e \<notin> set us"
proof -
  have "0 \<le> fdiv (of_int window_ms) 1000"
    unfolding fdiv_def using assms(2) by (intro rnd64_nonneg) simp
  moreover have "matches (''net'', name) [(''net'', ''api.anthropic.com'')]"
    using assms(9) by (cases name) (auto simp: matches_def sig_match_def)
  ultimately have "declared_near ok (fdiv (of_int window_ms) 1000) events e (''net'', name)"
    unfolding declared_near_def using assms(3-5) by (intro bexI [of _ v]) (simp_all add: fsub_def)
  moreover have "events \<noteq> []" using assms(3) by auto
  ultimately show ?thesis
    using unmatched_Inr [OF assms(1)] assms(7,8) by auto
qed

theorem lookalike_host_absorbed_witness:
  "let v = sample_event ''e1'' 5 (LLMCall ''a1'' ''m'' [] 1 1);
       e = sample_event ''e2'' 5 (SyscallConnect ''AF_INET'' ''api.anthropic.com.evil.example:443'' None)
   in \<exists>us. unmatched_involuntary (\<lambda>_. True) [v, e] 200 0 = Inr us \<and> e \<notin> set us"
proof -
  let ?v = "sample_event ''e1'' 5 (LLMCall ''a1'' ''m'' [] 1 1)"
  let ?e = "sample_event ''e2'' 5 (SyscallConnect ''AF_INET'' ''api.anthropic.com.evil.example:443'' None)"
  have h: "host (\<lambda>_. True) ''api.anthropic.com.evil.example:443'' = Inr ''api.anthropic.com.evil.example''"
    by code_simp
  have "\<exists>us. unmatched_involuntary (\<lambda>_. True) [?v, ?e] 200 0 = Inr us"
    by (auto simp: unmatched_involuntary_def voluntary_pairs_def baseline_sigs_def learning_def
        sample_event_def Let_def h)
  then obtain us where us: "unmatched_involuntary (\<lambda>_. True) [?v, ?e] 200 0 = Inr us" ..
  have "?e \<notin> set us"
  proof (rule lookalike_host_absorbed [OF us, where v = ?v])
    show "e_body ?v = LLMCall ''a1'' ''m'' [] 1 1" by (simp add: sample_event_def)
    show "host (\<lambda>_. True) ''api.anthropic.com.evil.example:443'' = Inr ''api.anthropic.com.evil.example''"
      by (rule h)
    show "str_in ''api.anthropic.com'' ''api.anthropic.com.evil.example''" by code_simp
  qed (simp_all add: sample_event_def)
  with us show ?thesis by (auto simp: Let_def)
qed

end
