(* ===== verification/Py_Regex.thy ===== *)
theory Py_Regex
  imports Prelude Canonical_Json
begin

text \<open>
  The part of Python's \<^verbatim>\<open>re\<close> the code uses, as a backtracking matcher: \<open>re_run\<close> lists the ways a
  pattern matches at a position, in the order the engine tries them, so that the first is the
  match Python returns; \<open>re_search\<close> finds the leftmost. A position is the character before it and
  the rest of the text. The matcher is proved equivalent to the declarative \<open>re_rel\<close>.

  Also here: the fixed-point formatting \<^verbatim>\<open>f"{x:.nf}"\<close> and \<^verbatim>\<open>f"{x:.n%}"\<close>.
\<close>

section \<open>Patterns\<close>

datatype re =
    RNone
  | REps
  | RSet "char \<Rightarrow> bool"
  | RSeq re re
  | RAlt re re
  | RStar re
  | RBound \<comment> \<open>word boundary\<close>
  | RTest "char option \<times> string \<Rightarrow> bool" \<comment> \<open>a test that consumes nothing, such as a look-around\<close>

type_synonym pos = "char option \<times> string"

definition is_word :: "char \<Rightarrow> bool" where
  "is_word c =
     (let n = of_char c :: nat in
      (48 \<le> n \<and> n \<le> 57) \<or> (65 \<le> n \<and> n \<le> 90) \<or> n = 95 \<or> (97 \<le> n \<and> n \<le> 122) \<or>
      n \<in> {170, 178, 179, 181, 185, 186, 188, 189, 190} \<or> (192 \<le> n \<and> n \<noteq> 215 \<and> n \<noteq> 247))"

definition at_boundary :: "pos \<Rightarrow> bool" where
  "at_boundary p =
     ((case fst p of None \<Rightarrow> False | Some c \<Rightarrow> is_word c) \<noteq>
      (case snd p of [] \<Rightarrow> False | c # _ \<Rightarrow> is_word c))"

function re_run :: "re \<Rightarrow> pos \<Rightarrow> pos list" where
  "re_run RNone p = []"
| "re_run REps p = [p]"
| "re_run (RSet f) p = (case snd p of [] \<Rightarrow> [] | c # s \<Rightarrow> if f c then [(Some c, s)] else [])"
| "re_run (RSeq a b) p = concat (map (re_run b) (re_run a p))"
| "re_run (RAlt a b) p = re_run a p @ re_run b p"
| "re_run (RStar a) p =
     concat (map (\<lambda>q. if length (snd q) < length (snd p) then re_run (RStar a) q else []) (re_run a p)) @ [p]"
| "re_run RBound p = (if at_boundary p then [p] else [])"
| "re_run (RTest t) p = (if t p then [p] else [])"
  by pat_completeness auto
termination by (relation "measures [\<lambda>(r, p). size r, \<lambda>(r, p). length (snd p)]") auto

lemmas re_run_star = re_run.simps(6)

declare re_run.simps(6) [simp del]

text \<open>The declarative meaning: \<open>re_rel r p q\<close> if \<open>r\<close> matches the text from \<open>p\<close> up to \<open>q\<close>.\<close>

inductive re_rel :: "re \<Rightarrow> pos \<Rightarrow> pos \<Rightarrow> bool" where
  rel_eps: "re_rel REps p p"
| rel_set: "f c \<Longrightarrow> re_rel (RSet f) (b, c # s) (Some c, s)"
| rel_seq: "re_rel a p q \<Longrightarrow> re_rel b q r \<Longrightarrow> re_rel (RSeq a b) p r"
| rel_alt1: "re_rel a p q \<Longrightarrow> re_rel (RAlt a b) p q"
| rel_alt2: "re_rel b p q \<Longrightarrow> re_rel (RAlt a b) p q"
| rel_star0: "re_rel (RStar a) p p"
| rel_star: "re_rel a p q \<Longrightarrow> length (snd q) < length (snd p) \<Longrightarrow> re_rel (RStar a) q r \<Longrightarrow> re_rel (RStar a) p r"
| rel_bound: "at_boundary p \<Longrightarrow> re_rel RBound p p"
| rel_test: "t p \<Longrightarrow> re_rel (RTest t) p p"

lemma re_run_sound: "q \<in> set (re_run r p) \<Longrightarrow> re_rel r p q"
proof (induction r p arbitrary: q rule: re_run.induct)
  case (3 f p)
  then show ?case by (cases p) (auto split: list.splits if_splits intro: re_rel.intros)
next
  case (4 a b p)
  then obtain x where "x \<in> set (re_run a p)" "q \<in> set (re_run b x)" by auto
  with 4 show ?case by (blast intro: rel_seq)
next
  case (6 a p)
  from "6.prems" have "q = p \<or>
      (\<exists>x \<in> set (re_run a p). length (snd x) < length (snd p) \<and> q \<in> set (re_run (RStar a) x))"
    unfolding re_run_star [of a p] by (auto split: if_splits)
  then show ?case using "6.IH" by (blast intro: rel_star0 rel_star)
qed (auto split: if_splits intro: re_rel.intros)

lemma re_run_complete: "re_rel r p q \<Longrightarrow> q \<in> set (re_run r p)"
proof (induction rule: re_rel.induct)
  case (rel_star a p q r)
  then have "r \<in> set (concat (map (\<lambda>q. if length (snd q) < length (snd p) then re_run (RStar a) q else []) (re_run a p)))"
    by (auto intro!: bexI [of _ q])
  then show ?case by (subst re_run_star) (simp del: set_concat)
next
  case (rel_star0 a p)
  show ?case by (subst re_run_star) simp
qed auto

lemma re_run_iff: "q \<in> set (re_run r p) \<longleftrightarrow> re_rel r p q"
  using re_run_sound re_run_complete by blast

lemma re_run_nonempty: "re_run r p \<noteq> [] \<longleftrightarrow> (\<exists>q. re_rel r p q)"
  unfolding re_run_iff [symmetric] by (cases "re_run r p") auto

section \<open>Searching\<close>

fun re_search_at :: "re \<Rightarrow> char option \<Rightarrow> string \<Rightarrow> bool" where
  "re_search_at r b [] = (re_run r (b, []) \<noteq> [])"
| "re_search_at r b (c # s) = (re_run r (b, c # s) \<noteq> [] \<or> re_search_at r (Some c) s)"

definition re_search :: "re \<Rightarrow> string \<Rightarrow> bool" where
  "re_search r s = re_search_at r None s"

definition pos_at :: "string \<Rightarrow> nat \<Rightarrow> pos" where
  "pos_at s i = (if i = 0 then None else Some (s ! (i - 1)), drop i s)"

lemma re_search_at_iff:
  "re_search_at r b s \<longleftrightarrow>
     (\<exists>i \<le> length s. \<exists>q. re_rel r (if i = 0 then b else Some (s ! (i - 1)), drop i s) q)"
proof (induction r b s rule: re_search_at.induct)
  case (1 r b)
  have "re_run r (b, []) \<noteq> [] \<longleftrightarrow> (\<exists>q. re_rel r (b, []) q)"
    by (rule re_run_nonempty)
  then show ?case by simp
next
  case (2 r b c s)
  have "re_run r (b, c # s) \<noteq> [] \<longleftrightarrow> (\<exists>q. re_rel r (b, c # s) q)"
    by (rule re_run_nonempty)
  moreover have "(\<exists>i \<le> length (c # s). P i) \<longleftrightarrow> P 0 \<or> (\<exists>i \<le> length s. P (Suc i))" for P
    using le_simps(3) by (auto elim: le_SucE) (metis Suc_le_mono not0_implies_Suc)
  moreover have "(if Suc i = 0 then b else Some ((c # s) ! (Suc i - 1)), drop (Suc i) (c # s)) =
      (if i = 0 then Some c else Some (s ! (i - 1)), drop i s)" for i
    by (cases i) auto
  ultimately show ?case using 2 by simp
qed

lemma re_search_iff: "re_search r s \<longleftrightarrow> (\<exists>i \<le> length s. \<exists>q. re_rel r (pos_at s i) q)"
  by (simp add: re_search_def re_search_at_iff pos_at_def)

section \<open>Substitution\<close>

text \<open>\<^verbatim>\<open>pattern.sub(tag, s)\<close> for a tag without references to groups and a pattern without empty matches: matches
  are taken from left to right, each the one the engine finds first at the leftmost position, and what
  precedes a position is the original text. The second equation leaves a character alone where there is
  no match.\<close>

definition re_match :: "re \<Rightarrow> pos \<Rightarrow> pos option" where
  "re_match r p = (case re_run r p of [] \<Rightarrow> None | q # _ \<Rightarrow> if length (snd q) < length (snd p) then Some q else None)"

lemma re_match_shorter: "re_match r p = Some q \<Longrightarrow> length (snd q) < length (snd p)"
  by (simp add: re_match_def split: list.splits if_splits)

function re_sub_at :: "re \<Rightarrow> string \<Rightarrow> pos \<Rightarrow> string" where
  "re_sub_at r tag p =
     (case re_match r p of
        Some q \<Rightarrow> tag @ re_sub_at r tag q
      | None \<Rightarrow> (case snd p of [] \<Rightarrow> [] | c # s \<Rightarrow> c # re_sub_at r tag (Some c, s)))"
  by auto
termination by (relation "measure (\<lambda>(r, tag, p). length (snd p))") (auto dest: re_match_shorter)

declare re_sub_at.simps [simp del]

definition re_sub :: "re \<Rightarrow> string \<Rightarrow> string \<Rightarrow> string" where
  "re_sub r tag s = re_sub_at r tag (None, s)"

text \<open>Checks on a pattern: that it matches no empty text, and no text with a given character.\<close>

fun re_proper :: "re \<Rightarrow> bool" where
  "re_proper RNone = True"
| "re_proper (RSet f) = True"
| "re_proper (RSeq a b) = (re_proper a \<or> re_proper b)"
| "re_proper (RAlt a b) = (re_proper a \<and> re_proper b)"
| "re_proper _ = False"

fun re_avoids :: "char \<Rightarrow> re \<Rightarrow> bool" where
  "re_avoids c (RSet f) = (\<not> f c)"
| "re_avoids c (RSeq a b) = (re_avoids c a \<and> re_avoids c b)"
| "re_avoids c (RAlt a b) = (re_avoids c a \<and> re_avoids c b)"
| "re_avoids c (RStar a) = re_avoids c a"
| "re_avoids c _ = True"

lemma re_rel_suffix: "re_rel r p q \<Longrightarrow> \<exists>m. snd p = m @ snd q \<and> (\<forall>c. re_avoids c r \<longrightarrow> c \<notin> set m)"
proof (induction rule: re_rel.induct)
  case (rel_seq a p q b r)
  then obtain m n where "snd p = m @ snd q" "\<forall>c. re_avoids c a \<longrightarrow> c \<notin> set m"
      "snd q = n @ snd r" "\<forall>c. re_avoids c b \<longrightarrow> c \<notin> set n" by blast
  then show ?case by (intro exI [of _ "m @ n"]) auto
next
  case (rel_star a p q r)
  then obtain m n where "snd p = m @ snd q" "\<forall>c. re_avoids c a \<longrightarrow> c \<notin> set m"
      "snd q = n @ snd r" "\<forall>c. re_avoids c (RStar a) \<longrightarrow> c \<notin> set n" by blast
  then show ?case by (intro exI [of _ "m @ n"]) auto
qed auto

lemma re_rel_shorter: "re_rel r p q \<Longrightarrow> re_proper r \<Longrightarrow> length (snd q) < length (snd p)"
proof (induction rule: re_rel.induct)
  case (rel_seq a p q b r)
  obtain m n where "snd p = m @ snd q" "snd q = n @ snd r"
    using re_rel_suffix [OF rel_seq.hyps(1)] re_rel_suffix [OF rel_seq.hyps(2)] by blast
  with rel_seq show ?case by auto
qed auto

lemma re_match_Some:
  assumes "re_match r p = Some q"
  obtains m where "snd p = m @ snd q" "m \<noteq> []" "\<And>c. re_avoids c r \<Longrightarrow> c \<notin> set m"
proof -
  have "q \<in> set (re_run r p)" using assms by (auto simp: re_match_def split: list.splits if_splits)
  then have "re_rel r p q" by (rule re_run_sound)
  with re_rel_suffix [of r p q] re_match_shorter [OF assms] that show ?thesis by (metis append_Nil less_irrefl_nat)
qed

lemma re_match_None: "re_proper r \<Longrightarrow> re_match r p = None \<longleftrightarrow> re_run r p = []"
proof (cases "re_run r p")
  case (Cons q qs)
  then have "re_rel r p q" by (simp add: re_run_sound)
  with Cons show "re_proper r \<Longrightarrow> ?thesis" by (simp add: re_match_def re_rel_shorter)
qed (simp add: re_match_def)

lemma re_sub_Some: "re_match r p = Some q \<Longrightarrow> re_sub_at r tag p = tag @ re_sub_at r tag q"
  by (simp add: re_sub_at.simps [of r tag p])

lemma re_sub_step: "re_match r (b, c # s) = None \<Longrightarrow> re_sub_at r tag (b, c # s) = c # re_sub_at r tag (Some c, s)"
  by (simp add: re_sub_at.simps [of r tag "(b, c # s)"])

lemma re_sub_end: "re_match r (b, []) = None \<Longrightarrow> re_sub_at r tag (b, []) = []"
  by (simp add: re_sub_at.simps [of r tag "(b, [])"])

lemma re_sub_none: "re_proper r \<Longrightarrow> \<not> re_search_at r b s \<Longrightarrow> re_sub_at r tag (b, s) = s"
  by (induction r b s rule: re_search_at.induct) (simp_all add: re_sub_step re_sub_end re_match_None)

lemma re_sub_chars: "set (re_sub_at r tag p) \<subseteq> set tag \<union> set (snd p)"
proof (induction r tag p rule: re_sub_at.induct)
  case (1 r tag p)
  show ?case
  proof (cases "re_match r p")
    case None
    with 1 show ?thesis by (cases p; cases "snd p") (auto simp: re_sub_step re_sub_end)
  next
    case (Some q)
    obtain m where "snd p = m @ snd q" using Some by (rule re_match_Some)
    with 1 Some show ?thesis by (auto simp: re_sub_Some)
  qed
qed

text \<open>A tag with a character that the pattern avoids is visible: that character becomes more frequent exactly if
  there was a match.\<close>

lemma re_sub_count:
  assumes "re_avoids c r" "c \<in> set tag"
  shows "count_list (snd p) c \<le> count_list (re_sub_at r tag p) c"
  using assms
proof (induction r tag p rule: re_sub_at.induct)
  case (1 r tag p)
  show ?case
  proof (cases "re_match r p")
    case None
    with 1 show ?thesis by (cases p; cases "snd p") (auto simp: re_sub_step re_sub_end)
  next
    case (Some q)
    obtain m where "snd p = m @ snd q" "c \<notin> set m" using Some by (rule re_match_Some) (use "1.prems" in blast)
    with 1 Some show ?thesis by (simp add: re_sub_Some count_notin trans_le_add2)
  qed
qed

lemma re_sub_counts_more:
  assumes "re_proper r" "re_avoids c r" "c \<in> set tag" "re_search_at r b s"
  shows "count_list s c < count_list (re_sub_at r tag (b, s)) c"
  using assms
proof (induction r b s rule: re_search_at.induct)
  case (1 r b)
  have "re_match r (b, []) = None" using re_match_shorter [of r "(b, [])"] by (cases "re_match r (b, [])") auto
  with 1 show ?case by (simp add: re_match_None)
next
  case (2 r b d s)
  show ?case
  proof (cases "re_match r (b, d # s)")
    case None
    with 2 show ?thesis by (auto simp: re_match_None re_sub_step)
  next
    case (Some q)
    obtain m where "d # s = m @ snd q" "c \<notin> set m" using Some by (rule re_match_Some) (use "2.prems" in auto)
    moreover have "0 < count_list tag c" using "2.prems"(3) by (simp add: count_list_0_iff neq0_conv [symmetric] del: neq0_conv)
    moreover have "count_list (snd q) c \<le> count_list (re_sub_at r tag q) c" by (rule re_sub_count) (use "2.prems" in auto)
    ultimately show ?thesis using Some by (simp add: re_sub_Some count_notin)
  qed
qed

section \<open>Pattern building\<close>

definition ichar :: "char \<Rightarrow> re" where
  "ichar c = RSet (\<lambda>x. lower_char x = lower_char c)"

definition rchar :: "char \<Rightarrow> re" where
  "rchar c = RSet (\<lambda>x. x = c)"

fun rseq :: "re list \<Rightarrow> re" where
  "rseq [] = REps"
| "rseq [r] = r"
| "rseq (r # s # rs) = RSeq r (rseq (s # rs))"

fun ralt :: "re list \<Rightarrow> re" where
  "ralt [] = RNone"
| "ralt [r] = r"
| "ralt (r # s # rs) = RAlt r (ralt (s # rs))"

text \<open>A literal, with and without \<^verbatim>\<open>re.IGNORECASE\<close>; \<^verbatim>\<open>r?\<close>, \<^verbatim>\<open>r+\<close>, \<^verbatim>\<open>r{m}\<close>, \<^verbatim>\<open>r{m,}\<close>.\<close>

definition ilit :: "string \<Rightarrow> re" where
  "ilit s = rseq (map ichar s)"

definition rlit :: "string \<Rightarrow> re" where
  "rlit s = rseq (map rchar s)"

definition ropt :: "re \<Rightarrow> re" where
  "ropt r = RAlt r REps"

definition rplus :: "re \<Rightarrow> re" where
  "rplus r = RSeq r (RStar r)"

definition rtimes :: "nat \<Rightarrow> re \<Rightarrow> re" where
  "rtimes n r = rseq (replicate n r)"

definition ratleast :: "nat \<Rightarrow> re \<Rightarrow> re" where
  "ratleast n r = rseq (replicate n r @ [RStar r])"

fun rupto :: "nat \<Rightarrow> re \<Rightarrow> re" where
  "rupto 0 r = REps"
| "rupto (Suc n) r = RAlt (RSeq r (rupto n r)) REps"

definition rspace :: re where
  "rspace = RSet py_isspace"

section \<open>Fixed-point formatting\<close>

definition pad_zeros :: "nat \<Rightarrow> string \<Rightarrow> string" where
  "pad_zeros n s = replicate (n - length s) (CHR ''0'') @ s"

definition fixed_text :: "nat \<Rightarrow> rat \<Rightarrow> string" where
  "fixed_text n x =
     (let m = nat (rne (\<bar>x\<bar> * 10 ^ n)); whole = str_nat (m div 10 ^ n)
      in (if x < 0 then ''-'' else []) @ whole @
         (if n = 0 then [] else ''.'' @ pad_zeros n (str_nat (m mod 10 ^ n))))"

definition percent_text :: "nat \<Rightarrow> rat \<Rightarrow> string" where
  "percent_text n x = fixed_text n (fmul x 100) @ ''%''"

end
