(* ===== verification/Sampling.thy ===== *)
theory Sampling
  imports Events Py_Regex
begin

text \<open>
  Trace sampling: \<^verbatim>\<open>auditor/async_pipeline/signals.py\<close> (cheap risk signals of a run),
  \<^verbatim>\<open>sampler.py\<close> (the tiered sampler with its policy providers and novelty indexes),
  \<^verbatim>\<open>budget_tracker.py\<close> and \<^verbatim>\<open>runtime_policy.py\<close> (the process-wide policy that reviewers change
  at run time). Python sets are lists whose order and repetitions do not matter.

  The locale \<open>novelty_index\<close> is the protocol \<^verbatim>\<open>NoveltyIndex\<close>; it is interpreted on the in-memory
  index and, for any client that satisfies the documented laws of Redis sets, on the Redis one.
\<close>

section \<open>Cheap signals\<close>

definition SENSITIVE_PATH :: re where
  "SENSITIVE_PATH = ralt [ilit ''.ssh'', ilit ''id_rsa'',
     rseq [ilit ''/etc/'', ralt [ilit ''passwd'', ilit ''shadow'']],
     rseq [ilit ''.env'', RBound],
     rseq [ilit ''credential'', ropt (ichar (CHR ''s''))],
     rseq [ilit ''secret'', ropt (ichar (CHR ''s''))]]"

definition dash :: re where
  "dash = RSet (\<lambda>c. c = CHR ''_'' \<or> c = CHR ''-'')"

definition SENSITIVE_ARG :: re where
  "SENSITIVE_ARG = ralt [ilit ''password'', ilit ''secret'', ilit ''credential'',
     rseq [ilit ''api'', ropt dash, ilit ''key''], ilit ''token'',
     rseq [ilit ''private'', ropt dash, ilit ''key'']]"

definition INJECTION :: re where
  "INJECTION = ralt [
     rseq [ilit ''ignore'', rplus rspace, ropt (rseq [ilit ''all'', rplus rspace]), ilit ''previous'',
           rplus rspace, ilit ''instructions''],
     rseq [ilit ''disregard'', rplus rspace, ilit ''your'', rplus rspace, ilit ''instructions''],
     ilit ''exfiltrate'', ilit ''attacker.com'']"

definition EGRESS_TOOLS :: "string list" where
  "EGRESS_TOOLS = [''http_post'', ''http_get'', ''send_email'']"

definition SENSITIVE_TOOLS :: "string list" where
  "SENSITIVE_TOOLS = [''read_secret'', ''reset_password'', ''query_employee'']"

definition CODE_EXEC_TOOLS :: "string list" where
  "CODE_EXEC_TOOLS = [''exec_shell'', ''eval'', ''python'', ''subprocess'']"

record run_signals =
  rs_tool_category :: string
  rs_channel_divergence :: bool
  rs_cheap_risk_score :: int
  rs_touched_sensitive_data :: bool
  rs_in_allowlisted_path :: bool
  rs_tools_used :: "string list"
  rs_egress_domains :: "string list"
  rs_tenant_recent_incident_count :: int

definition arg_text :: "(string, json) pydict \<Rightarrow> string" where
  "arg_text args = py_join '' '' (map (json_str \<circ> snd) args)"

text \<open>\<^verbatim>\<open>args.get(a) or args.get(b) or ""\<close>.\<close>

definition first_truthy :: "(string, json) pydict \<Rightarrow> string \<Rightarrow> string \<Rightarrow> json" where
  "first_truthy args a b =
     (let x = dict_get_or JNull args a; y = dict_get_or JNull args b in
      if json_truthy x then x else if json_truthy y then y else JStr [])"

fun after_slashes :: "string \<Rightarrow> string option" where
  "after_slashes (c # d # s) = (if c = CHR ''/'' \<and> d = CHR ''/'' then Some s else after_slashes (d # s))"
| "after_slashes _ = None"

definition egress_dest :: "string \<Rightarrow> (string, json) pydict \<Rightarrow> string option" where
  "egress_dest tool_name args =
     (if tool_name = ''send_email'' then
        (let to = json_str (first_truthy args ''to'' ''recipient'') in
         if CHR ''@'' \<in> set to then Some (rev (takeWhile (\<lambda>c. c \<noteq> CHR ''@'') (rev to)))
         else if to = [] then None else Some to)
      else
        (let url = json_str (first_truthy args ''url'' ''endpoint'') in
         case after_slashes url of
           Some r \<Rightarrow> Some (before_char (CHR ''/'') r)
         | None \<Rightarrow> if url = [] then None else Some url))"

text \<open>The local variables of the loop.\<close>

record signal_acc =
  sa_tools :: "string list"
  sa_egress :: "string list"
  sa_sensitive :: bool
  sa_has_exec :: bool
  sa_injection :: bool
  sa_saw_secret :: bool
  sa_secret_then_egress :: bool

definition signal_tool :: "string \<Rightarrow> (string, json) pydict \<Rightarrow> signal_acc \<Rightarrow> signal_acc" where
  "signal_tool tool args a =
     (let txt = arg_text args;
          secret = (tool \<in> set SENSITIVE_TOOLS \<or> re_search SENSITIVE_ARG txt);
          a = a\<lparr>sa_tools := tool # sa_tools a\<rparr>;
          a = (if tool \<in> set CODE_EXEC_TOOLS then a\<lparr>sa_has_exec := True\<rparr> else a);
          a = (if secret then a\<lparr>sa_sensitive := True, sa_saw_secret := True\<rparr> else a);
          a = (if tool \<in> set EGRESS_TOOLS then
                 (let a = (case egress_dest tool args of
                             Some d \<Rightarrow> if d = [] then a else a\<lparr>sa_egress := d # sa_egress a\<rparr>
                           | None \<Rightarrow> a)
                  in if sa_saw_secret a then a\<lparr>sa_secret_then_egress := True\<rparr> else a)
               else a)
      in if re_search INJECTION txt then a\<lparr>sa_injection := True\<rparr> else a)"

text \<open>A \<^verbatim>\<open>SyscallSendto\<close> has no attribute \<^verbatim>\<open>addr\<close> and a \<^verbatim>\<open>DnsQueryEvent\<close> neither \<^verbatim>\<open>domain\<close> nor
  \<^verbatim>\<open>query\<close>, so \<^verbatim>\<open>getattr\<close> yields the default there.\<close>

fun signal_event :: "signal_acc \<Rightarrow> event_body \<Rightarrow> signal_acc" where
  "signal_event a (ToolCallStart _ tool args _ _ _) = signal_tool tool args a"
| "signal_event a (ToolCallEnd _ _ _ summary _) =
     (case summary of
        Some t \<Rightarrow> if t \<noteq> [] \<and> re_search INJECTION t then a\<lparr>sa_injection := True\<rparr> else a
      | None \<Rightarrow> a)"
| "signal_event a (MemoryOp _ _ _ keys _) =
     (if re_search INJECTION (py_join '' '' keys) then a\<lparr>sa_injection := True\<rparr> else a)"
| "signal_event a (SyscallExecve _ _) = a\<lparr>sa_has_exec := True\<rparr>"
| "signal_event a (SyscallOpenat path _) =
     (if re_search SENSITIVE_PATH path then a\<lparr>sa_sensitive := True\<rparr> else a)"
| "signal_event a (SyscallConnect _ addr _) = (if addr = [] then a else a\<lparr>sa_egress := addr # sa_egress a\<rparr>)"
| "signal_event a _ = a"

definition signal_start :: signal_acc where
  "signal_start =
     \<lparr> sa_tools = [], sa_egress = [], sa_sensitive = False, sa_has_exec = False, sa_injection = False,
       sa_saw_secret = False, sa_secret_then_egress = False \<rparr>"

definition risk_score :: "signal_acc \<Rightarrow> int" where
  "risk_score a =
     min 100 ((if sa_has_exec a then 40 else 0) + (if sa_egress a \<noteq> [] then 30 else 0) +
       (if sa_sensitive a then 30 else 0) + (if sa_injection a then 40 else 0) +
       (if sa_secret_then_egress a then 30 else 0))"

definition compute_run_signals :: "trace \<Rightarrow> run_signals" where
  "compute_run_signals tr =
     (let a = foldl signal_event signal_start (map e_body (tr_events tr)) in
      \<lparr> rs_tool_category =
          (if sa_has_exec a then ''code_exec'' else if sa_egress a \<noteq> [] then ''egress'' else ''generic''),
        rs_channel_divergence = False,
        rs_cheap_risk_score = risk_score a,
        rs_touched_sensitive_data = sa_sensitive a,
        rs_in_allowlisted_path = (\<not> sa_sensitive a),
        rs_tools_used = sa_tools a,
        rs_egress_domains = filter (\<lambda>d. d \<noteq> []) (sa_egress a),
        rs_tenant_recent_incident_count = 0 \<rparr>)"

section \<open>The tiered sampler\<close>

datatype tier = L1 | L2 | L3 | NONE

record sampler_decision =
  sd_tier :: tier
  sd_reason :: string
  sd_audit :: bool
  sd_judge_allowed :: bool
  sd_cohort_rate :: "rat option"

definition decision :: "tier \<Rightarrow> string \<Rightarrow> bool \<Rightarrow> bool \<Rightarrow> rat option \<Rightarrow> sampler_decision" where
  "decision t r a j c =
     \<lparr> sd_tier = t, sd_reason = r, sd_audit = a, sd_judge_allowed = j, sd_cohort_rate = c \<rparr>"

definition from_bytes_big :: "bytes \<Rightarrow> int" where
  "from_bytes_big bs = foldl (\<lambda>a b. 256 * a + uint b) 0 bs"

definition stable_hash :: "string \<Rightarrow> int" where
  "stable_hash key = from_bytes_big (take 8 (sha256 (utf8 key)))"

definition static_rate :: "rat \<Rightarrow> (string, rat) pydict \<Rightarrow> uuid \<Rightarrow> string \<Rightarrow> rat" where
  "static_rate base overrides tenant_id tool_category = dict_get_or base overrides tool_category"

definition db_rate :: "(string, (string, rat) pydict) pydict \<Rightarrow> rat \<Rightarrow> uuid \<Rightarrow> string \<Rightarrow> rat" where
  "db_rate rates base tenant_id tool_category =
     (let cats = dict_get_or [] rates tenant_id in
      case dict_get cats tool_category of
        Some r \<Rightarrow> r
      | None \<Rightarrow> dict_get_or base cats ''default'')"

text \<open>\<^verbatim>\<open>load_tenant_sample_rates\<close>: the rows of the \<^verbatim>\<open>policies\<close> table as (tenant, rates) pairs; a
  column that is not a dictionary is \<open>None\<close>.\<close>

definition merge_rate :: "(string, rat) pydict \<Rightarrow> string \<times> rat \<Rightarrow> (string, rat) pydict" where
  "merge_rate existing cr = dict_set (fst cr) (max (dict_get_or 0 existing (fst cr)) (snd cr)) existing"

definition load_row ::
  "(string, (string, rat) pydict) pydict \<Rightarrow> uuid \<times> (string, rat) pydict option \<Rightarrow>
   (string, (string, rat) pydict) pydict" where
  "load_row out row =
     dict_set (fst row)
       (foldl merge_rate (dict_get_or [] out (fst row)) (case snd row of None \<Rightarrow> [] | Some r \<Rightarrow> r)) out"

definition load_tenant_sample_rates ::
  "(uuid \<times> (string, rat) pydict option) list \<Rightarrow> (string, (string, rat) pydict) pydict" where
  "load_tenant_sample_rates rows = foldl load_row [] rows"

text \<open>The in-memory novelty index: per tenant, the tools and the destinations seen.\<close>

record novelty =
  nv_tools :: "(uuid, string list) pydict"
  nv_egress :: "(uuid, string list) pydict"

definition is_novel :: "novelty \<Rightarrow> uuid \<Rightarrow> string list \<Rightarrow> string list \<Rightarrow> bool \<times> novelty" where
  "is_novel nv tenant_id tools egress =
     (let seen_tools = dict_get_or [] (nv_tools nv) tenant_id;
          seen_egress = dict_get_or [] (nv_egress nv) tenant_id
      in (\<not> set tools \<subseteq> set seen_tools \<or> \<not> set egress \<subseteq> set seen_egress,
          \<lparr> nv_tools = dict_set tenant_id (tools @ seen_tools) (nv_tools nv),
            nv_egress = dict_set tenant_id (egress @ seen_egress) (nv_egress nv) \<rparr>))"

text \<open>The Redis-backed index, over a client with the commands \<^verbatim>\<open>SISMEMBER\<close> and \<^verbatim>\<open>SADD\<close>.\<close>

definition redis_is_novel ::
  "('s \<Rightarrow> string \<Rightarrow> string \<Rightarrow> bool) \<Rightarrow> ('s \<Rightarrow> string \<Rightarrow> string list \<Rightarrow> 's) \<Rightarrow> string \<Rightarrow>
   's \<Rightarrow> uuid \<Rightarrow> string list \<Rightarrow> string list \<Rightarrow> bool \<times> 's" where
  "redis_is_novel sismember sadd ns r tenant_id tools egress =
     (let tools_key = ns @ '':tools:'' @ tenant_id;
          egress_key = ns @ '':egress:'' @ tenant_id;
          new_tools = filter (\<lambda>t. \<not> sismember r tools_key t) tools;
          new_egress = filter (\<lambda>e. \<not> sismember r egress_key e) egress;
          r = (if new_tools \<noteq> [] then sadd r tools_key new_tools else r);
          r = (if new_egress \<noteq> [] then sadd r egress_key new_egress else r)
      in (new_tools \<noteq> [] \<or> new_egress \<noteq> [], r))"

definition CRITICAL_RISK_THRESHOLD :: int where
  "CRITICAL_RISK_THRESHOLD = 70"

text \<open>The comparison that every rate-based selection uses: \<^verbatim>\<open>bucket < int(rate * 10_000)\<close>.\<close>

definition in_sample :: "string \<Rightarrow> rat \<Rightarrow> bool" where
  "in_sample key rate = (stable_hash key mod 10000 < py_int (fmul rate 10000))"

text \<open>\<^verbatim>\<open>Sampler.decide\<close>, for a novelty index with state \<open>'n\<close>.\<close>

definition sampler_decide ::
  "(uuid \<Rightarrow> string \<Rightarrow> rat) \<Rightarrow> (uuid \<Rightarrow> bool) \<Rightarrow>
   ('n \<Rightarrow> uuid \<Rightarrow> string list \<Rightarrow> string list \<Rightarrow> bool \<times> 'n) \<Rightarrow> int \<Rightarrow>
   uuid \<Rightarrow> uuid \<Rightarrow> run_signals \<Rightarrow> 'n \<Rightarrow> sampler_decision \<times> 'n" where
  "sampler_decide rate_for has_budget novel threshold run_id tenant_id sg n =
     (if rs_channel_divergence sg then (decision L1 ''channel divergence'' True True None, n)
      else if threshold \<le> rs_cheap_risk_score sg
        then (decision L1 (''risk score '' @ str_int (rs_cheap_risk_score sg)) True True None, n)
      else if rs_touched_sensitive_data sg \<and> \<not> rs_in_allowlisted_path sg
        then (decision L1 ''sensitive data outside allowlist'' True True None, n)
      else
        (let (nov, n) = novel n tenant_id (rs_tools_used sg) (rs_egress_domains sg) in
         if nov then (decision L1 ''novel tool/egress'' True True None, n)
         else if 0 < rs_tenant_recent_incident_count sg
           then (decision L1 ''recent tenant incidents'' True True None, n)
         else
           (let rate = rate_for tenant_id (rs_tool_category sg);
                key = tenant_id @ '':'' @ rs_tool_category sg @ '':'' @ run_id
            in if in_sample key rate then
                 (if has_budget tenant_id
                  then (decision L2 (''stratified at '' @ percent_text 4 rate) True True (Some rate), n)
                  else (decision L3 ''budget exhausted (cheap detectors only)'' True False (Some rate), n))
               else (decision NONE ''not sampled'' False False (Some rate), n))))"

section \<open>The daily budget\<close>

text \<open>Days are numbered; \<open>today\<close> is the clock's day.\<close>

record budget =
  bt_cap :: rat
  bt_spent :: "(uuid \<times> int, rat) pydict"

definition has_budget :: "int \<Rightarrow> budget \<Rightarrow> uuid \<Rightarrow> bool" where
  "has_budget today b tenant_id = (dict_get_or 0 (bt_spent b) (tenant_id, today) < bt_cap b)"

definition record_cost :: "int \<Rightarrow> uuid \<Rightarrow> rat \<Rightarrow> budget \<Rightarrow> budget" where
  "record_cost today tenant_id usd b =
     b\<lparr>bt_spent := dict_set (tenant_id, today)
        (fadd (dict_get_or 0 (bt_spent b) (tenant_id, today)) usd) (bt_spent b)\<rparr>"

definition spent :: "int \<Rightarrow> budget \<Rightarrow> uuid \<Rightarrow> rat" where
  "spent today b tenant_id = dict_get_or 0 (bt_spent b) (tenant_id, today)"

section \<open>The run-time policy\<close>

definition VALID_MODES :: "string list" where
  "VALID_MODES = [''percentage'', ''every_nth'', ''interval'', ''always'', ''never'']"

record sampler_settings =
  ss_mode :: string
  ss_rate :: rat
  ss_every_n :: int
  ss_interval_seconds :: rat
  ss_critical_risk_threshold :: int

definition default_settings :: sampler_settings where
  "default_settings =
     \<lparr> ss_mode = ''percentage'', ss_rate = f64 (5 / 100), ss_every_n = 10, ss_interval_seconds = 60,
       ss_critical_risk_threshold = 70 \<rparr>"

text \<open>The arguments are the environment variable \<^verbatim>\<open>SAMPLER_MODE\<close> and the outcome of
  \<^verbatim>\<open>float(SAMPLER_RATE)\<close>: unset, unparsable or a number.\<close>

definition initial_settings :: "string option \<Rightarrow> rat option option \<Rightarrow> sampler_settings" where
  "initial_settings env_mode env_rate =
     (let mode = py_lower (py_strip (case env_mode of None \<Rightarrow> [] | Some m \<Rightarrow> m));
          s = default_settings;
          s = (if mode \<in> set VALID_MODES then s\<lparr>ss_mode := mode\<rparr> else s)
      in case env_rate of Some (Some r) \<Rightarrow> s\<lparr>ss_rate := max 0 (min 1 r)\<rparr> | _ \<Rightarrow> s)"

definition validate_settings :: "sampler_settings \<Rightarrow> bool" where
  "validate_settings s \<longleftrightarrow>
     ss_mode s \<in> set VALID_MODES \<and> 0 \<le> ss_rate s \<and> ss_rate s \<le> 1 \<and> 1 \<le> ss_every_n s \<and>
     0 < ss_interval_seconds s \<and> 0 \<le> ss_critical_risk_threshold s \<and> ss_critical_risk_threshold s \<le> 100"

text \<open>The module's globals.\<close>

record runtime =
  rt_settings :: sampler_settings
  rt_counter :: int
  rt_last_audit_ts :: rat

definition runtime_init :: "string option \<Rightarrow> rat option option \<Rightarrow> runtime" where
  "runtime_init env_mode env_rate =
     \<lparr> rt_settings = initial_settings env_mode env_rate, rt_counter = 0, rt_last_audit_ts = 0 \<rparr>"

definition set_settings :: "sampler_settings \<Rightarrow> runtime \<Rightarrow> py_error + runtime" where
  "set_settings new rt =
     (if validate_settings new
      then Inr \<lparr> rt_settings = new, rt_counter = 0, rt_last_audit_ts = 0 \<rparr>
      else Inl ValueError)"

definition reset_for_tests :: "runtime \<Rightarrow> runtime" where
  "reset_for_tests rt = \<lparr> rt_settings = default_settings, rt_counter = 0, rt_last_audit_ts = 0 \<rparr>"

definition hard_trigger :: "sampler_settings \<Rightarrow> run_signals \<Rightarrow> string option" where
  "hard_trigger st sg =
     (if rs_channel_divergence sg then Some ''channel divergence''
      else if ss_critical_risk_threshold st \<le> rs_cheap_risk_score sg
        then Some (''cheap risk score '' @ str_int (rs_cheap_risk_score sg))
      else if rs_touched_sensitive_data sg \<and> \<not> rs_in_allowlisted_path sg
        then Some ''sensitive data outside allowlist''
      else if 0 < rs_tenant_recent_incident_count sg then Some ''recent tenant incidents''
      else None)"

definition decide_every_nth :: "runtime \<Rightarrow> sampler_decision \<times> runtime" where
  "decide_every_nth rt =
     (let current = rt_counter rt + 1; n = ss_every_n (rt_settings rt); rt = rt\<lparr>rt_counter := current\<rparr> in
      if current mod n = 0
      then (decision L2 (''every '' @ str_int n @ ''th run (#'' @ str_int current @ '')'') True True None, rt)
      else (decision NONE (''skip - run #'' @ str_int current @ '' is not a multiple of '' @ str_int n)
              False False None, rt))"

definition decide_interval :: "rat \<Rightarrow> runtime \<Rightarrow> sampler_decision \<times> runtime" where
  "decide_interval now rt =
     (let elapsed = fsub now (rt_last_audit_ts rt); w = ss_interval_seconds (rt_settings rt) in
      if w \<le> elapsed
      then (decision L2 (''audit window elapsed ('' @ fixed_text 0 w @ ''s)'') True True None,
            rt\<lparr>rt_last_audit_ts := now\<rparr>)
      else (decision NONE (''within interval (last audit '' @ fixed_text 0 elapsed @ ''s ago, window '' @
              fixed_text 0 w @ ''s)'') False False None, rt))"

definition decide_percentage :: "uuid \<Rightarrow> uuid \<Rightarrow> run_signals \<Rightarrow> runtime \<Rightarrow> sampler_decision \<times> runtime" where
  "decide_percentage run_id tenant_id sg rt =
     (let rate = ss_rate (rt_settings rt) in
      if in_sample (tenant_id @ '':'' @ rs_tool_category sg @ '':'' @ run_id) rate
      then (decision L2 (''stratified at '' @ percent_text 2 rate) True True (Some rate), rt)
      else (decision NONE (''skip - not sampled (rate '' @ percent_text 2 rate @ '')'') False False (Some rate), rt))"

definition runtime_decide :: "rat \<Rightarrow> uuid \<Rightarrow> uuid \<Rightarrow> run_signals \<Rightarrow> runtime \<Rightarrow> sampler_decision \<times> runtime" where
  "runtime_decide now run_id tenant_id sg rt =
     (let st = rt_settings rt in
      if ss_mode st = ''never'' then (decision NONE ''sampler off (mode=never)'' False False None, rt)
      else case hard_trigger st sg of
        Some r \<Rightarrow> (decision L1 r True True None, rt)
      | None \<Rightarrow>
          if ss_mode st = ''always'' then (decision L2 ''mode=always (every run audited)'' True True None, rt)
          else if ss_mode st = ''every_nth'' then decide_every_nth rt
          else if ss_mode st = ''interval'' then decide_interval now rt
          else decide_percentage run_id tenant_id sg rt)"

section \<open>Novelty indexes\<close>

locale novelty_index =
  fixes novel :: "'n \<Rightarrow> uuid \<Rightarrow> string list \<Rightarrow> string list \<Rightarrow> bool \<times> 'n"
    and seen_tools :: "'n \<Rightarrow> uuid \<Rightarrow> string set"
    and seen_egress :: "'n \<Rightarrow> uuid \<Rightarrow> string set"
  assumes answers:
      "fst (novel n t tools egress) \<longleftrightarrow> \<not> (set tools \<subseteq> seen_tools n t \<and> set egress \<subseteq> seen_egress n t)"
    and learns_tools:
      "seen_tools (snd (novel n t tools egress)) u = seen_tools n u \<union> (if u = t then set tools else {})"
    and learns_egress:
      "seen_egress (snd (novel n t tools egress)) u = seen_egress n u \<union> (if u = t then set egress else {})"
begin

lemma repeat_not_novel: "\<not> fst (novel (snd (novel n t tools egress)) t tools egress)"
  by (simp add: answers learns_tools learns_egress)

lemma tenants_isolated: "u \<noteq> t \<Longrightarrow> fst (novel (snd (novel n t xs ys)) u tools egress) = fst (novel n u tools egress)"
  by (simp add: answers learns_tools learns_egress)

text \<open>A run that was audited for its novelty is not novel when it is decided again.\<close>

lemma decide_again:
  assumes "sampler_decide rate hb novel th r t sg n = (d, n')" "sd_reason d = ''novel tool/egress''"
  shows "sd_reason (fst (sampler_decide rate hb novel th r' t sg n')) \<noteq> ''novel tool/egress''"
proof -
  have e: "n' = snd (novel n t (rs_tools_used sg) (rs_egress_domains sg))"
    and l: "\<not> rs_channel_divergence sg" "\<not> th \<le> rs_cheap_risk_score sg"
    "\<not> (rs_touched_sensitive_data sg \<and> \<not> rs_in_allowlisted_path sg)"
    using assms by (auto simp: sampler_decide_def decision_def Let_def split: if_splits prod.splits)
  have "\<not> fst (novel n' t (rs_tools_used sg) (rs_egress_domains sg))"
    unfolding e by (rule repeat_not_novel)
  then show ?thesis
    using l by (auto simp: sampler_decide_def decision_def Let_def split: prod.splits)
qed

end

interpretation mem_novelty: novelty_index is_novel
  "\<lambda>n t. set (dict_get_or [] (nv_tools n) t)" "\<lambda>n t. set (dict_get_or [] (nv_egress n) t)"
  by unfold_locales (auto simp: is_novel_def Let_def dict_get_or_def update_conv split: option.splits)

lemma redis_keys_apart: "ns @ '':tools:'' @ t \<noteq> ns @ '':egress:'' @ u"
  by simp

lemma redis_novelty_index:
  assumes "\<And>r k ms k' m. sismember (sadd r k ms) k' m \<longleftrightarrow> sismember r k' m \<or> (k' = k \<and> m \<in> set ms)"
  shows "novelty_index (redis_is_novel sismember sadd ns)
    (\<lambda>r t. {m. sismember r (ns @ '':tools:'' @ t) m}) (\<lambda>r t. {m. sismember r (ns @ '':egress:'' @ t) m})"
proof
  fix r t tools egress
  show "fst (redis_is_novel sismember sadd ns r t tools egress) \<longleftrightarrow>
    \<not> (set tools \<subseteq> {m. sismember r (ns @ '':tools:'' @ t) m} \<and> set egress \<subseteq> {m. sismember r (ns @ '':egress:'' @ t) m})"
    by (auto simp: redis_is_novel_def Let_def filter_empty_conv)
next
  fix r t tools egress u
  show "{m. sismember (snd (redis_is_novel sismember sadd ns r t tools egress)) (ns @ '':tools:'' @ u) m} =
    {m. sismember r (ns @ '':tools:'' @ u) m} \<union> (if u = t then set tools else {})"
    by (auto simp: redis_is_novel_def Let_def assms filter_empty_conv)
  show "{m. sismember (snd (redis_is_novel sismember sadd ns r t tools egress)) (ns @ '':egress:'' @ u) m} =
    {m. sismember r (ns @ '':egress:'' @ u) m} \<union> (if u = t then set egress else {})"
    by (auto simp: redis_is_novel_def Let_def assms filter_empty_conv)
qed

section \<open>Facts about signals\<close>

lemma signal_tool_sensitive:
  "sa_sensitive a \<or> tool \<in> set SENSITIVE_TOOLS \<Longrightarrow> sa_sensitive (signal_tool tool args a)"
  by (auto simp: signal_tool_def Let_def split: option.splits)

lemma signal_event_sensitive: "sa_sensitive a \<Longrightarrow> sa_sensitive (signal_event a b)"
  by (cases b) (auto intro: signal_tool_sensitive split: option.splits)

lemma signal_fold_sensitive: "sa_sensitive a \<Longrightarrow> sa_sensitive (foldl signal_event a bs)"
  by (induction bs arbitrary: a) (auto intro: signal_event_sensitive)

definition sensitive_body :: "event_body \<Rightarrow> bool" where
  "sensitive_body b =
     (case b of
        ToolCallStart _ tool _ _ _ _ \<Rightarrow> tool \<in> set SENSITIVE_TOOLS
      | SyscallOpenat path _ \<Rightarrow> re_search SENSITIVE_PATH path
      | _ \<Rightarrow> False)"

lemma signal_fold_finds:
  assumes "b \<in> set bs" "sensitive_body b"
  shows "sa_sensitive (foldl signal_event a bs)"
proof -
  obtain xs ys where bs: "bs = xs @ b # ys" using split_list [OF assms(1)] by blast
  have "sa_sensitive (signal_event c b)" for c
    using assms(2) by (cases b) (auto simp: sensitive_body_def intro: signal_tool_sensitive)
  then show ?thesis by (simp add: bs signal_fold_sensitive)
qed

lemma risk_score_bounds: "0 \<le> risk_score a" "risk_score a \<le> 100"
  by (auto simp: risk_score_def)

section \<open>Facts about rates\<close>

lemma bucket_bounds: "0 \<le> stable_hash key mod 10000" "stable_hash key mod 10000 < 10000"
  by simp_all

lemma in_sample_mono:
  assumes "0 \<le> r" "r \<le> r'" "in_sample key r"
  shows "in_sample key r'"
proof -
  have "0 \<le> fmul r 10000" "0 \<le> fmul r' 10000"
    unfolding fmul_def using assms(1,2) by (auto intro!: rnd64_nonneg)
  moreover have "\<lfloor>rnd64 (r * 10000)\<rfloor> \<le> \<lfloor>rnd64 (r' * 10000)\<rfloor>"
    using assms(2) by (rule b64.scaled_floor_mono)
  ultimately show ?thesis
    using assms(3) by (auto simp: in_sample_def py_int_nonneg fmul_def)
qed

lemma in_sample_one: "in_sample key 1"
  using rnd64_of_int [of 10000] bucket_bounds(2) [of key]
  by (simp add: in_sample_def fmul_def py_int_def)

lemma in_sample_zero: "\<not> in_sample key 0"
  using bucket_bounds(1) [of key] by (simp add: in_sample_def fmul_def py_int_def)

section \<open>The run-time policy over many runs\<close>

record decide_call =
  dk_now :: rat
  dk_run :: uuid
  dk_tenant :: uuid
  dk_signals :: run_signals

fun decide_all :: "runtime \<Rightarrow> decide_call list \<Rightarrow> sampler_decision list \<times> runtime" where
  "decide_all rt [] = ([], rt)"
| "decide_all rt (c # cs) =
     (let (d, rt) = runtime_decide (dk_now c) (dk_run c) (dk_tenant c) (dk_signals c) rt;
          (ds, rt) = decide_all rt cs
      in (d # ds, rt))"

lemma decide_keeps_settings [simp]:
  "rt_settings (snd (runtime_decide now r t sg rt)) = rt_settings rt"
  by (simp add: runtime_decide_def decide_every_nth_def decide_interval_def decide_percentage_def
      Let_def split: option.split)

lemma every_nth_step:
  assumes "ss_mode (rt_settings rt) = ''every_nth''" "hard_trigger (rt_settings rt) sg = None"
  shows "runtime_decide now r t sg rt = decide_every_nth rt"
  using assms by (simp add: runtime_decide_def Let_def)

lemma div_step:
  assumes "1 \<le> (n::int)"
  shows "(c + 1) div n = c div n + (if (c + 1) mod n = 0 then 1 else 0)"
proof (cases "c mod n + 1 = n")
  case True
  have "n * (c div n) + c mod n = c" "n * (c div n + 1) = n * (c div n) + n"
    by (simp_all add: distrib_left)
  with True have c: "c + 1 = n * (c div n + 1)" by linarith
  have "(c + 1) div n = c div n + 1" unfolding c using assms by simp
  moreover have "(c + 1) mod n = 0" unfolding c by simp
  ultimately show ?thesis by simp
next
  case False
  have m: "0 \<le> c mod n" "c mod n < n" using assms by simp_all
  have c: "c + 1 = n * (c div n) + (c mod n + 1)" using mult_div_mod_eq [of n c] by simp
  have lt: "0 \<le> c mod n + 1" "c mod n + 1 < n" using m False by linarith+
  have "(c + 1) mod n = c mod n + 1" by (rule int_mod_pos_eq [OF c lt])
  moreover have "(c + 1) div n = c div n" by (rule int_div_pos_eq [OF c lt])
  ultimately show ?thesis using m by simp
qed

lemma decide_all_every_nth:
  assumes "ss_mode (rt_settings rt) = ''every_nth''" "1 \<le> ss_every_n (rt_settings rt)"
    and "\<forall>c \<in> set cs. hard_trigger (rt_settings rt) (dk_signals c) = None"
  shows "int (length (filter sd_audit (fst (decide_all rt cs)))) =
    (rt_counter rt + int (length cs)) div ss_every_n (rt_settings rt) - rt_counter rt div ss_every_n (rt_settings rt)"
  using assms
proof (induction cs arbitrary: rt)
  case (Cons c cs)
  let ?n = "ss_every_n (rt_settings rt)"
  obtain d rt' where d: "decide_every_nth rt = (d, rt')" by (cases "decide_every_nth rt")
  then have rt': "rt_settings rt' = rt_settings rt" "rt_counter rt' = rt_counter rt + 1"
    and audit: "sd_audit d \<longleftrightarrow> (rt_counter rt + 1) mod ?n = 0"
    by (auto simp: decide_every_nth_def Let_def decision_def split: if_splits)
  have step: "runtime_decide (dk_now c) (dk_run c) (dk_tenant c) (dk_signals c) rt = (d, rt')"
    using Cons.prems d by (simp add: every_nth_step)
  have "int (length (filter sd_audit (fst (decide_all rt' cs)))) =
      (rt_counter rt' + int (length cs)) div ?n - rt_counter rt' div ?n"
    using Cons.IH [of rt'] Cons.prems rt' by simp
  then show ?case
    using step rt' audit div_step [OF Cons.prems(2), of "rt_counter rt"]
    by (auto simp: case_prod_beta Let_def add.assoc)
qed simp

inductive rt_reach :: "runtime \<Rightarrow> bool" where
  started: "rt_reach (runtime_init m r)"
| updated: "rt_reach rt \<Longrightarrow> set_settings new rt = Inr rt' \<Longrightarrow> rt_reach rt'"
| decided: "rt_reach rt \<Longrightarrow> rt_reach (snd (runtime_decide now r t sg rt))"
| reset: "rt_reach rt \<Longrightarrow> rt_reach (reset_for_tests rt)"

lemma default_settings_valid: "validate_settings default_settings"
  using b64.rnd_unit [of "5 / 100"] by (simp add: validate_settings_def default_settings_def VALID_MODES_def)

lemma initial_settings_valid: "validate_settings (initial_settings m r)"
  using default_settings_valid
  by (auto simp: initial_settings_def validate_settings_def Let_def split: option.splits)

lemma rt_reach_valid: "rt_reach rt \<Longrightarrow> validate_settings (rt_settings rt)"
  by (induction rule: rt_reach.induct)
    (auto simp: runtime_init_def initial_settings_valid set_settings_def reset_for_tests_def
      default_settings_valid split: if_splits)

section \<open>Properties\<close>

text \<open>
  C10. The settings in force are always valid, and what they promise holds: with mode \<^verbatim>\<open>never\<close>
  nothing is audited, with any other mode every run with a hard trigger is audited at tier L1,
  and with mode \<^verbatim>\<open>always\<close> every run is audited.
\<close>

theorem runtime_policy_sound:
  assumes "rt_reach rt"
  shows "validate_settings (rt_settings rt) \<and>
    (let d = fst (runtime_decide now r t sg rt) in
     (ss_mode (rt_settings rt) = ''never'' \<longrightarrow> \<not> sd_audit d) \<and>
     (ss_mode (rt_settings rt) \<noteq> ''never'' \<and> hard_trigger (rt_settings rt) sg \<noteq> None \<longrightarrow>
        sd_audit d \<and> sd_tier d = L1) \<and>
     (ss_mode (rt_settings rt) = ''always'' \<longrightarrow> sd_audit d))"
  using rt_reach_valid [OF assms]
  by (auto simp: runtime_decide_def Let_def decision_def split: option.splits)

theorem runtime_policy_sound_witness:
  "rt_reach (runtime_init None None) \<and> validate_settings (rt_settings (runtime_init None None))"
  using runtime_policy_sound [OF rt_reach.started [of None None]] rt_reach.started [of None None] by simp

text \<open>
  Every \<open>n\<close>-th run: in mode \<^verbatim>\<open>every_nth\<close>, a sequence of runs without hard triggers that
  starts at counter \<open>c\<close> is audited exactly \<open>(c + k) div n - c div n\<close> times in \<open>k\<close> runs, so once in
  every \<open>n\<close> consecutive runs.
\<close>

theorem every_nth_count:
  assumes "ss_mode (rt_settings rt) = ''every_nth''" "1 \<le> ss_every_n (rt_settings rt)"
    and "\<forall>c \<in> set cs. hard_trigger (rt_settings rt) (dk_signals c) = None"
  shows "int (length (filter sd_audit (fst (decide_all rt cs)))) =
      (rt_counter rt + int (length cs)) div ss_every_n (rt_settings rt) -
      rt_counter rt div ss_every_n (rt_settings rt) \<and>
    (int (length cs) = ss_every_n (rt_settings rt) \<longrightarrow>
      length (filter sd_audit (fst (decide_all rt cs))) = 1)"
  using decide_all_every_nth [OF assms] assms(2) by auto

definition quiet_signals :: run_signals where
  "quiet_signals =
     \<lparr> rs_tool_category = ''generic'', rs_channel_divergence = False, rs_cheap_risk_score = 0,
       rs_touched_sensitive_data = False, rs_in_allowlisted_path = True, rs_tools_used = [],
       rs_egress_domains = [], rs_tenant_recent_incident_count = 0 \<rparr>"

definition nth_runtime :: runtime where
  "nth_runtime =
     \<lparr> rt_settings = default_settings\<lparr>ss_mode := ''every_nth'', ss_every_n := 3\<rparr>,
       rt_counter = 4, rt_last_audit_ts = 0 \<rparr>"

theorem every_nth_count_witness:
  "length (filter sd_audit (fst (decide_all nth_runtime
     (replicate 3 \<lparr> dk_now = 0, dk_run = ''r'', dk_tenant = ''t'', dk_signals = quiet_signals \<rparr>)))) = 1"
  using every_nth_count [of nth_runtime
      "replicate 3 \<lparr> dk_now = 0, dk_run = ''r'', dk_tenant = ''t'', dk_signals = quiet_signals \<rparr>"]
  by (simp add: nth_runtime_def default_settings_def hard_trigger_def quiet_signals_def)

text \<open>
  Rate-based selection is monotone: a run that the stratified sample selects at some rate is
  selected at every higher rate; rate 1 selects every run and rate 0 none, whatever the floating-
  point product \<^verbatim>\<open>rate * 10_000\<close>.
\<close>

theorem sampling_monotone:
  assumes "0 \<le> rate" "rate \<le> rate'" and "in_sample key rate"
  shows "in_sample key rate' \<and> in_sample key 1 \<and> \<not> in_sample key 0"
  using in_sample_mono [OF assms] in_sample_one in_sample_zero by blast

theorem sampling_monotone_witness: "in_sample ''t:generic:r'' 1 \<and> \<not> in_sample ''t:generic:r'' 0"
  using sampling_monotone [of 1 1 "''t:generic:r''"] in_sample_one by simp

text \<open>
  A run that calls a tool for secrets or opens a sensitive path is audited, at tier L1, in
  every mode but \<^verbatim>\<open>never\<close>: the signal computed from the stored trace reaches the decision.
\<close>

theorem sensitive_run_audited:
  assumes "ss_mode (rt_settings rt) \<noteq> ''never''"
    and "e \<in> set (tr_events tr)" "sensitive_body (e_body e)"
  shows "sd_audit (fst (runtime_decide now r t (compute_run_signals tr) rt)) \<and>
    sd_tier (fst (runtime_decide now r t (compute_run_signals tr) rt)) = L1"
proof -
  have "sa_sensitive (foldl signal_event signal_start (map e_body (tr_events tr)))"
    using assms(2,3) by (intro signal_fold_finds [of "e_body e"]) auto
  then have "hard_trigger (rt_settings rt) (compute_run_signals tr) \<noteq> None"
    by (simp add: hard_trigger_def compute_run_signals_def Let_def)
  then show ?thesis
    using assms(1) by (auto simp: runtime_decide_def Let_def decision_def)
qed

definition sample_trace :: "event_body list \<Rightarrow> trace" where
  "sample_trace bs =
     \<lparr> tr_run_id = ''r1'', tr_tenant_id = ''t1'', tr_declared_goal = None,
       tr_events = map (\<lambda>b. \<lparr> e_event_id = ''e1'', e_run_id = ''r1'', e_tenant_id = ''t1'', e_span_id = ''s1'',
         e_parent_span_id = None, e_ts = 0, e_pid = None, e_schema_version = 1, e_body = b \<rparr>) bs,
       tr_metadata = [] \<rparr>"

theorem sensitive_run_audited_witness:
  "sd_audit (fst (runtime_decide 0 ''r1'' ''t1''
     (compute_run_signals (sample_trace [ToolCallStart ''a'' ''read_secret'' [] None None None])) nth_runtime))"
  by (rule conjunct1 [OF sensitive_run_audited [where e = "hd (tr_events
        (sample_trace [ToolCallStart ''a'' ''read_secret'' [] None None None]))"]])
    (simp_all add: nth_runtime_def default_settings_def sample_trace_def sensitive_body_def SENSITIVE_TOOLS_def)

text \<open>
  Egress that the signals miss: a run whose events are only data sent to addresses and DNS
  queries has no egress domain, risk score 0 and the generic category, because the code reads
  attributes these events do not have.
\<close>

theorem covert_egress_unseen:
  assumes "\<forall>e \<in> set (tr_events tr). \<exists>a b c q rs. e_body e = SyscallSendto a b c \<or> e_body e = DnsQueryEvent q rs"
  shows "rs_egress_domains (compute_run_signals tr) = [] \<and> rs_cheap_risk_score (compute_run_signals tr) = 0 \<and>
    rs_tool_category (compute_run_signals tr) = ''generic''"
proof -
  have "foldl signal_event a (map e_body es) = a"
    if "\<forall>e \<in> set es. \<exists>a b c q rs. e_body e = SyscallSendto a b c \<or> e_body e = DnsQueryEvent q rs" for a es
    using that by (induction es) auto
  from this [OF assms] show ?thesis
    by (simp add: compute_run_signals_def Let_def signal_start_def risk_score_def)
qed

theorem covert_egress_unseen_witness:
  "rs_cheap_risk_score (compute_run_signals
     (sample_trace [SyscallSendto 3 4096 (Some ''evil.example''), DnsQueryEvent ''evil.example'' []])) = 0"
  using covert_egress_unseen [of "sample_trace [SyscallSendto 3 4096 (Some ''evil.example''), DnsQueryEvent ''evil.example'' []]"]
  by (simp add: sample_trace_def)

end
