(* ===== verification/Lifecycle.thy ===== *)
theory Lifecycle
  imports Events Audit_Log Sampling
begin

text \<open>
  The detector lifecycle: \<^verbatim>\<open>auditor/detectors/lifecycle.py\<close> with the gates of
  \<^verbatim>\<open>detector_lifecycle_policy.yaml\<close>. A transition reads the latest state from a store, checks
  legality and gates, writes a row and appends to the audit log, in this order; the model keeps
  the effects of a call that raises half-way. The store is the parameter pair
  (\<open>put\<close>, \<open>latest\<close>) of the locale \<open>lifecycle_store\<close>, interpreted on the in-memory and on the
  database store.
\<close>

section \<open>Policy\<close>

record gates =
  g_min_days :: int
  g_precision_min :: "rat option"
  g_fp_rate_max :: "rat option"
  g_admin_approval :: bool
  g_no_critical_incidents :: bool

definition no_gates :: gates where
  "no_gates = \<lparr> g_min_days = 0, g_precision_min = None, g_fp_rate_max = None,
     g_admin_approval = False, g_no_critical_incidents = False \<rparr>"

text \<open>\<^verbatim>\<open>LEGAL_TRANSITIONS\<close> composed with the \<^verbatim>\<open>transitions\<close> section of the policy file.\<close>

fun lifecycle_gates :: "detector_state \<Rightarrow> detector_state \<Rightarrow> gates option" where
  "lifecycle_gates PROPOSED SHADOW = Some no_gates"
| "lifecycle_gates SHADOW CANARY =
     Some \<lparr> g_min_days = 7, g_precision_min = Some (f64 (80 / 100)), g_fp_rate_max = Some (f64 (5 / 100)),
       g_admin_approval = True, g_no_critical_incidents = False \<rparr>"
| "lifecycle_gates CANARY ENFORCING =
     Some \<lparr> g_min_days = 7, g_precision_min = Some (f64 (85 / 100)), g_fp_rate_max = None,
       g_admin_approval = True, g_no_critical_incidents = True \<rparr>"
| "lifecycle_gates ENFORCING DISABLED = Some no_gates"
| "lifecycle_gates ENFORCING DEPRECATED = Some (no_gates\<lparr>g_admin_approval := True\<rparr>)"
| "lifecycle_gates DISABLED SHADOW = Some (no_gates\<lparr>g_admin_approval := True\<rparr>)"
| "lifecycle_gates DEPRECATED REMOVED = Some (no_gates\<lparr>g_admin_approval := True\<rparr>)"
| "lifecycle_gates _ _ = None"

definition default_partition :: rat where
  "default_partition = f64 (5 / 100)"

datatype lifecycle_error =
    NotLegal detector_state detector_state
  | TooEarly int rat
  | NeedsApproval
  | PrecisionMissing rat
  | PrecisionTooLow rat
  | FpRateMissing rat
  | FpRateTooHigh rat
  | CriticalIncidents
  | GateTypeError
  | UnknownState string
  | BadActorId string
  | StoreFailed
  | AuditFailed

text \<open>A metric as a number: \<open>None\<close> is a value that does not compare with a float.\<close>

definition metric_number :: "json \<Rightarrow> rat option" where
  "metric_number j =
     (case j of JFloat x \<Rightarrow> Some x | JInt i \<Rightarrow> Some (of_int i) | JBool b \<Rightarrow> Some (if b then 1 else 0) | _ \<Rightarrow> None)"

definition check_min_days :: "gates \<Rightarrow> rat \<Rightarrow> lifecycle_error option" where
  "check_min_days g days =
     (if 0 < g_min_days g \<and> days < of_int (g_min_days g) then Some (TooEarly (g_min_days g) days) else None)"

definition check_approval :: "gates \<Rightarrow> string option \<Rightarrow> lifecycle_error option" where
  "check_approval g actor_id =
     (if g_admin_approval g \<and> (actor_id = None \<or> actor_id = Some []) then Some NeedsApproval else None)"

definition check_precision :: "gates \<Rightarrow> (string, json) pydict \<Rightarrow> lifecycle_error option" where
  "check_precision g m =
     (case g_precision_min g of
        None \<Rightarrow> None
      | Some p \<Rightarrow>
          (let j = dict_get_or JNull m ''precision'' in
           if j = JNull then Some (PrecisionMissing p)
           else case metric_number j of
             None \<Rightarrow> Some GateTypeError
           | Some x \<Rightarrow> if x < p then Some (PrecisionTooLow p) else None))"

definition check_fp_rate :: "gates \<Rightarrow> (string, json) pydict \<Rightarrow> lifecycle_error option" where
  "check_fp_rate g m =
     (case g_fp_rate_max g of
        None \<Rightarrow> None
      | Some p \<Rightarrow>
          (let j = dict_get_or JNull m ''fp_rate'' in
           if j = JNull then Some (FpRateMissing p)
           else case metric_number j of
             None \<Rightarrow> Some GateTypeError
           | Some x \<Rightarrow> if p < x then Some (FpRateTooHigh p) else None))"

definition check_critical :: "gates \<Rightarrow> (string, json) pydict \<Rightarrow> lifecycle_error option" where
  "check_critical g m =
     (if \<not> g_no_critical_incidents g then None
      else case metric_number (dict_get_or (JInt 0) m ''critical_incidents'') of
        None \<Rightarrow> Some GateTypeError
      | Some x \<Rightarrow> if 0 < x then Some CriticalIncidents else None)"

definition or_else :: "'a option \<Rightarrow> 'a option \<Rightarrow> 'a option" where
  "or_else a b = (case a of None \<Rightarrow> b | Some x \<Rightarrow> Some x)"

definition check_gates ::
  "gates \<Rightarrow> (string, json) pydict option \<Rightarrow> rat \<Rightarrow> string option \<Rightarrow> bool \<Rightarrow> lifecycle_error option" where
  "check_gates g metrics days actor_id force =
     (if force then None
      else
        (let m = (case metrics of None \<Rightarrow> [] | Some d \<Rightarrow> d) in
         or_else (check_min_days g days)
         (or_else (check_approval g actor_id)
         (or_else (check_precision g m)
         (or_else (check_fp_rate g m)
          (check_critical g m))))))"

section \<open>Stores\<close>

record lifecycle_row =
  lc_id :: uuid
  lc_detector :: string
  lc_version :: string
  lc_state :: string
  lc_previous_state :: "string option"
  lc_rationale :: "string option"
  lc_metrics_snapshot :: "(string, json) pydict option"
  lc_changed_by :: "string option"
  lc_tenant_id :: "string option"
  lc_canary_partition :: "rat option"
  lc_changed_at :: timestamp

definition rows_of :: "lifecycle_row list \<Rightarrow> string \<Rightarrow> string \<Rightarrow> lifecycle_row list" where
  "rows_of rows d v = filter (\<lambda>r. lc_detector r = d \<and> lc_version r = v) rows"

text \<open>Writing appends a row. The database column \<^verbatim>\<open>changed_by\<close> holds a UUID, so that the
  production store raises (\<open>None\<close>) on a text that is none; the in-memory store accepts any.\<close>

definition mem_write :: "lifecycle_row list \<Rightarrow> lifecycle_row \<Rightarrow> lifecycle_row list option" where
  "mem_write rows r = Some (rows @ [r])"

definition db_write :: "lifecycle_row list \<Rightarrow> lifecycle_row \<Rightarrow> lifecycle_row list option" where
  "db_write rows r =
     (case lc_changed_by r of
        None \<Rightarrow> Some (rows @ [r])
      | Some a \<Rightarrow> if parse_uuid a = None then None else Some (rows @ [r]))"

definition mem_latest :: "lifecycle_row list \<Rightarrow> string \<Rightarrow> string \<Rightarrow> string \<times> timestamp option" where
  "mem_latest rows d v =
     (case rows_of rows d v of
        [] \<Rightarrow> (''PROPOSED'', None)
      | r # rs \<Rightarrow> (let l = max_by lc_changed_at r rs in (lc_state l, Some (lc_changed_at l))))"

definition db_latest :: "lifecycle_row list \<Rightarrow> string \<Rightarrow> string \<Rightarrow> string \<times> timestamp option" where
  "db_latest rows d v =
     (case sort_key (\<lambda>r. - lc_changed_at r) (rows_of rows d v) of
        [] \<Rightarrow> (''PROPOSED'', None)
      | r # _ \<Rightarrow> (lc_state r, Some (lc_changed_at r)))"

section \<open>Transitions\<close>

definition detector_state_of :: "string \<Rightarrow> detector_state option" where
  "detector_state_of s =
     find (\<lambda>m. detector_state_value m = s)
       [PROPOSED, SHADOW, CANARY, ENFORCING, DISABLED, DEPRECATED, REMOVED]"

definition current_state :: "('s \<Rightarrow> string \<Rightarrow> string \<Rightarrow> string \<times> timestamp option) \<Rightarrow> 's \<Rightarrow> string \<Rightarrow> string \<Rightarrow> detector_state option" where
  "current_state latest st d v = detector_state_of (fst (latest st d v))"

definition SYSTEM_TENANT :: uuid where
  "SYSTEM_TENANT = ''00000000-0000-0000-0000-000000000001''"

definition days_between :: "timestamp option \<Rightarrow> timestamp \<Rightarrow> rat" where
  "days_between entered now =
     (case entered of None \<Rightarrow> 0 | Some e \<Rightarrow> fdiv (of_int (now - e)) (of_int 86400000000))"

text \<open>What a caller supplies, and the values drawn from the environment: the clock when the gates are
  checked, the one of the database when the row is inserted and again when the log entry is, the identifiers.\<close>

record transition_request =
  tq_detector :: string
  tq_version :: string
  tq_target :: detector_state
  tq_actor_id :: "string option"
  tq_rationale :: "string option"
  tq_metrics :: "(string, json) pydict option"
  tq_force :: bool
  tq_tenant_id :: "uuid option"
  tq_canary_partition :: "rat option"

record transition_env =
  te_now :: timestamp
  te_changed_at :: timestamp
  te_logged_at :: timestamp
  te_row_id :: uuid
  te_audit_seq :: int
  te_default_tenant :: uuid

definition transition_row :: "transition_env \<Rightarrow> transition_request \<Rightarrow> detector_state \<Rightarrow> lifecycle_row" where
  "transition_row env q current =
     \<lparr> lc_id = te_row_id env, lc_detector = tq_detector q, lc_version = tq_version q,
       lc_state = detector_state_value (tq_target q),
       lc_previous_state = Some (detector_state_value current),
       lc_rationale = tq_rationale q, lc_metrics_snapshot = tq_metrics q,
       lc_changed_by = tq_actor_id q, lc_tenant_id = tq_tenant_id q,
       lc_canary_partition =
         (if tq_target q = CANARY \<and> tq_canary_partition q = None then Some default_partition
          else tq_canary_partition q),
       lc_changed_at = te_changed_at env \<rparr>"

definition transition_payload :: "transition_request \<Rightarrow> detector_state \<Rightarrow> (string, json) pydict" where
  "transition_payload q current =
     [(''detector'', JStr (tq_detector q)), (''version'', JStr (tq_version q)),
      (''previous_state'', JStr (detector_state_value current)),
      (''new_state'', JStr (detector_state_value (tq_target q))),
      (''rationale'', opt_json (tq_rationale q)),
      (''metrics_snapshot'', (case tq_metrics q of None \<Rightarrow> JNull | Some m \<Rightarrow> JObj m))]"

text \<open>The audit call; \<^verbatim>\<open>uuid.UUID(actor_id)\<close> is evaluated among its arguments and may raise.\<close>

definition audit_transition ::
  "transition_env \<Rightarrow> transition_request \<Rightarrow> detector_state \<Rightarrow> audit_row list \<Rightarrow>
   lifecycle_error + audit_row list" where
  "audit_transition env q current alog =
     (let tenant = (case tq_tenant_id q of None \<Rightarrow> te_default_tenant env | Some t \<Rightarrow> t);
          append = (\<lambda>atype actor.
            case append_entry (te_audit_seq env) (te_logged_at env) tenant atype ''detector_lifecycle_transition''
                   actor (Some ''detector'') None (Some (transition_payload q current)) None alog of
              Inl _ \<Rightarrow> Inl AuditFailed
            | Inr (_, alog') \<Rightarrow> Inr alog')
      in case tq_actor_id q of
           None \<Rightarrow> append ''system'' None
         | Some a \<Rightarrow>
             if a = [] then append ''system'' None
             else case parse_uuid a of
               None \<Rightarrow> Inl (BadActorId a)
             | Some u \<Rightarrow> append ''user'' (Some u))"

text \<open>The first part of a transition reads the latest row and checks legality and gates. The row and the log
  entry are written afterwards, in transactions of their own; nothing is locked in between.\<close>

definition transition_check ::
  "('s \<Rightarrow> string \<Rightarrow> string \<Rightarrow> string \<times> timestamp option) \<Rightarrow> transition_env \<Rightarrow> transition_request \<Rightarrow> 's \<Rightarrow>
   lifecycle_error + detector_state" where
  "transition_check latest env q store =
     (case latest store (tq_detector q) (tq_version q) of (state_str, entered_at) \<Rightarrow>
        case detector_state_of state_str of
          None \<Rightarrow> Inl (UnknownState state_str)
        | Some current \<Rightarrow>
            (case lifecycle_gates current (tq_target q) of
               None \<Rightarrow> Inl (NotLegal current (tq_target q))
             | Some g \<Rightarrow>
                 (case check_gates g (tq_metrics q) (days_between entered_at (te_now env)) (tq_actor_id q) (tq_force q) of
                    Some e \<Rightarrow> Inl e
                  | None \<Rightarrow> Inr current)))"

text \<open>The whole of a transition with no other in between. The outcome is the error or the new state, with the
  store and the log as they are left.\<close>

definition lifecycle_transition ::
  "('s \<Rightarrow> lifecycle_row \<Rightarrow> 's option) \<Rightarrow> ('s \<Rightarrow> string \<Rightarrow> string \<Rightarrow> string \<times> timestamp option) \<Rightarrow>
   transition_env \<Rightarrow> transition_request \<Rightarrow> 's \<times> audit_row list \<Rightarrow>
   (lifecycle_error + detector_state) \<times> 's \<times> audit_row list" where
  "lifecycle_transition put latest env q st =
     (case st of (store, alog) \<Rightarrow>
        case transition_check latest env q store of
          Inl e \<Rightarrow> (Inl e, store, alog)
        | Inr current \<Rightarrow>
            (case put store (transition_row env q current) of
               None \<Rightarrow> (Inl StoreFailed, store, alog)
             | Some store' \<Rightarrow>
                 (case audit_transition env q current alog of
                    Inl e \<Rightarrow> (Inl e, store', alog)
                  | Inr alog' \<Rightarrow> (Inr (tq_target q), store', alog'))))"

section \<open>Canary routing and shadow verdicts\<close>

definition is_canary_selected :: "string \<Rightarrow> string \<Rightarrow> rat \<Rightarrow> bool" where
  "is_canary_selected detector run_id fraction =
     (stable_hash (detector @ '':'' @ run_id) mod 10000 < py_int (fmul fraction 10000))"

record shadow_row =
  sh_verdict :: verdict
  sh_detector_version :: "string option"

definition shadow_write :: "verdict \<Rightarrow> string option \<Rightarrow> shadow_row list \<Rightarrow> shadow_row list" where
  "shadow_write v ver st = st @ [\<lparr> sh_verdict = v, sh_detector_version = ver \<rparr>]"


section \<open>Stores\<close>

locale lifecycle_store =
  fixes put :: "'s \<Rightarrow> lifecycle_row \<Rightarrow> 's option"
    and latest :: "'s \<Rightarrow> string \<Rightarrow> string \<Rightarrow> string \<times> timestamp option"
  assumes latest_written:
      "put st r = Some st' \<Longrightarrow>
       (\<forall>e. snd (latest st (lc_detector r) (lc_version r)) = Some e \<longrightarrow> e < lc_changed_at r) \<Longrightarrow>
       latest st' (lc_detector r) (lc_version r) = (lc_state r, Some (lc_changed_at r))"
    and latest_other:
      "put st r = Some st' \<Longrightarrow> (d, v) \<noteq> (lc_detector r, lc_version r) \<Longrightarrow> latest st' d v = latest st d v"
begin

text \<open>A successful transition is along a legal edge, through its gates, and the store answers
  with the new state afterwards.\<close>

lemma transition_success:
  assumes "lifecycle_transition put latest env q (st, alog) = (Inr t, st', alog')"
  shows "\<exists>cur g. current_state latest st (tq_detector q) (tq_version q) = Some cur \<and>
    t = tq_target q \<and> lifecycle_gates cur t = Some g \<and>
    check_gates g (tq_metrics q) (days_between (snd (latest st (tq_detector q) (tq_version q))) (te_now env))
      (tq_actor_id q) (tq_force q) = None \<and>
    put st (transition_row env q cur) = Some st' \<and> audit_transition env q cur alog = Inr alog'"
  using assms
  by (auto simp: lifecycle_transition_def transition_check_def current_state_def Let_def
      split: prod.splits option.splits sum.splits)

lemma transition_updates_state:
  assumes "lifecycle_transition put latest env q (st, alog) = (Inr t, st', alog')"
    and "\<forall>e. snd (latest st (tq_detector q) (tq_version q)) = Some e \<longrightarrow> e < te_changed_at env"
  shows "latest st' (tq_detector q) (tq_version q) = (detector_state_value t, Some (te_changed_at env))"
proof -
  obtain cur where w: "put st (transition_row env q cur) = Some st'" "t = tq_target q"
    using transition_success [OF assms(1)] by blast
  show ?thesis
    using latest_written [OF w(1)] assms(2) w(2) by (simp add: transition_row_def)
qed

lemma transition_keeps_others:
  assumes "lifecycle_transition put latest env q (st, alog) = (res, st', alog')"
    and "(d, v) \<noteq> (tq_detector q, tq_version q)"
  shows "latest st' d v = latest st d v"
proof (cases "st' = st")
  case False
  then obtain cur where "put st (transition_row env q cur) = Some st'"
    using assms(1)
    by (auto simp: lifecycle_transition_def Let_def split: prod.splits option.splits sum.splits)
  then show ?thesis by (rule latest_other) (use assms(2) in \<open>simp add: transition_row_def\<close>)
qed simp

end

lemma rows_of_append: "rows_of (rows @ [r]) d v = rows_of rows d v @ (if lc_detector r = d \<and> lc_version r = v then [r] else [])"
  by (simp add: rows_of_def)

lemma max_by_snoc: "max_by f m (xs @ [x]) = (if f (max_by f m xs) < f x then x else max_by f m xs)"
  by (induction f m xs rule: max_by.induct) auto

interpretation mem_store: lifecycle_store mem_write mem_latest
proof
  fix st st' :: "lifecycle_row list" and r :: lifecycle_row
  assume w: "mem_write st r = Some st'"
    and newer: "\<forall>e. snd (mem_latest st (lc_detector r) (lc_version r)) = Some e \<longrightarrow> e < lc_changed_at r"
  then show "mem_latest st' (lc_detector r) (lc_version r) = (lc_state r, Some (lc_changed_at r))"
    by (auto simp: mem_write_def mem_latest_def rows_of_append max_by_snoc Let_def split: list.splits)
qed (auto simp: mem_write_def mem_latest_def rows_of_append)

lemma db_write_Some: "db_write rows r = Some rows' \<Longrightarrow> rows' = rows @ [r]"
  by (auto simp: db_write_def split: option.splits if_splits)

lemma insort_first: "\<forall>y \<in> set xs. f x < f y \<Longrightarrow> insort_key f x xs = x # xs"
  by (cases xs) auto

lemma sort_key_snoc_first:
  assumes "\<forall>y \<in> set xs. f x < f y"
  shows "sort_key f (xs @ [x]) = x # sort_key f xs"
  using assms
proof (induction xs)
  case (Cons y ys)
  then have "sort_key f ((y # ys) @ [x]) = insort_key f y (x # sort_key f ys)" by simp
  also have "\<dots> = x # insort_key f y (sort_key f ys)" using Cons.prems by (auto simp: not_le)
  finally show ?case by simp
qed simp

interpretation db_store: lifecycle_store db_write db_latest
proof
  fix st st' :: "lifecycle_row list" and r :: lifecycle_row
  assume w: "db_write st r = Some st'"
    and newer: "\<forall>e. snd (db_latest st (lc_detector r) (lc_version r)) = Some e \<longrightarrow> e < lc_changed_at r"
  let ?rs = "rows_of st (lc_detector r) (lc_version r)" and ?k = "\<lambda>r. - lc_changed_at r"
  have "\<forall>y \<in> set ?rs. ?k r < ?k y"
  proof (cases "sort_key ?k ?rs")
    case Nil
    then have "?rs = []" by (metis length_0_conv length_sort)
    then show ?thesis by simp
  next
    case (Cons z zs)
    have "?k z \<le> ?k y" if "y \<in> set ?rs" for y
    proof -
      have "y \<in> set (z # zs)" using that Cons by (metis set_sort)
      moreover have "sorted (map ?k (z # zs))" using sorted_sort_key [of ?k ?rs] Cons by simp
      ultimately show ?thesis by auto
    qed
    moreover have "?k r < ?k z" using newer Cons by (simp add: db_latest_def)
    ultimately show ?thesis by fastforce
  qed
  then show "db_latest st' (lc_detector r) (lc_version r) = (lc_state r, Some (lc_changed_at r))"
    using db_write_Some [OF w] by (simp add: db_latest_def rows_of_append sort_key_snoc_first)
qed (auto dest!: db_write_Some simp: db_latest_def rows_of_append)

section \<open>Histories\<close>

text \<open>The states a detector version went through, in the order of the rows, from \<^verbatim>\<open>PROPOSED\<close>.\<close>

definition history :: "lifecycle_row list \<Rightarrow> string \<Rightarrow> string \<Rightarrow> string list" where
  "history rows d v = ''PROPOSED'' # map lc_state (rows_of rows d v)"

definition legal_step :: "string \<Rightarrow> string \<Rightarrow> bool" where
  "legal_step a b \<longleftrightarrow>
     (\<exists>s t. a = detector_state_value s \<and> b = detector_state_value t \<and> lifecycle_gates s t \<noteq> None)"

text \<open>Stores reached by requests one after the other, at increasing clock values; the last argument is the
  latest clock value.\<close>

inductive lc_reach :: "lifecycle_row list \<Rightarrow> audit_row list \<Rightarrow> timestamp \<Rightarrow> bool" where
  initial: "lc_reach [] [] now"
| request: "lc_reach rows alog now \<Longrightarrow> now < te_changed_at env \<Longrightarrow>
    lifecycle_transition db_write db_latest env q (rows, alog) = (res, rows', alog') \<Longrightarrow>
    lc_reach rows' alog' (te_changed_at env)"

lemma transition_rows:
  assumes "lifecycle_transition db_write db_latest env q (rows, alog) = (res, rows', alog')"
  shows "rows' = rows \<or> (\<exists>cur. rows' = rows @ [transition_row env q cur] \<and>
    detector_state_of (fst (db_latest rows (tq_detector q) (tq_version q))) = Some cur \<and>
    lifecycle_gates cur (tq_target q) \<noteq> None)"
  using assms
  by (auto simp: lifecycle_transition_def transition_check_def Let_def dest!: db_write_Some
      split: prod.splits option.splits sum.splits)

lemma lc_reach_times:
  "lc_reach rows alog now \<Longrightarrow> sorted_wrt (\<lambda>a b. lc_changed_at a < lc_changed_at b) rows \<and>
    (\<forall>r \<in> set rows. lc_changed_at r \<le> now)"
proof (induction rule: lc_reach.induct)
  case (request rows alog now env q res rows' alog')
  then show ?case
    using transition_rows [OF request.hyps(3)]
    by (fastforce simp: sorted_wrt_append transition_row_def)
qed simp

lemma db_latest_last:
  assumes "sorted_wrt (\<lambda>a b. lc_changed_at a < lc_changed_at b) rows"
  shows "fst (db_latest rows d v) = last (history rows d v)"
proof -
  have s: "sorted_wrt (\<lambda>a b. lc_changed_at a < lc_changed_at b) (rows_of rows d v)"
    unfolding rows_of_def using assms by (rule sorted_wrt_filter)
  show ?thesis
  proof (cases "rows_of rows d v" rule: rev_cases)
    case Nil
    then show ?thesis by (simp add: db_latest_def history_def)
  next
    case (snoc rs r)
    then have "\<forall>y \<in> set rs. - lc_changed_at r < - lc_changed_at y" using s by (simp add: sorted_wrt_append)
    then show ?thesis using snoc by (simp add: db_latest_def history_def sort_key_snoc_first)
  qed
qed

lemma state_value_of: "detector_state_of s = Some m \<Longrightarrow> s = detector_state_value m"
  unfolding detector_state_of_def find_Some_iff by auto

lemma state_of_value: "detector_state_of (detector_state_value m) = Some m"
  by (cases m) (simp_all add: detector_state_of_def detector_state_value_def)

lemma legal_step_to:
  "legal_step a (detector_state_value t) \<longleftrightarrow> (\<exists>s. a = detector_state_value s \<and> lifecycle_gates s t \<noteq> None)"
  unfolding legal_step_def by (metis option.inject state_of_value)

lemma into_enforcing: "lifecycle_gates s ENFORCING \<noteq> None \<Longrightarrow> s = CANARY"
  by (cases s) simp_all

lemma into_canary: "lifecycle_gates s CANARY \<noteq> None \<Longrightarrow> s = SHADOW"
  by (cases s) simp_all

lemma successively_snoc:
  "successively P (xs @ [x]) \<longleftrightarrow> successively P xs \<and> (xs \<noteq> [] \<longrightarrow> P (last xs) x)"
  by (auto simp: successively_append_iff)

lemma lc_reach_history: "lc_reach rows alog now \<Longrightarrow> successively legal_step (history rows d v)"
proof (induction rule: lc_reach.induct)
  case (initial now)
  show ?case by (simp add: history_def rows_of_def)
next
  case (request rows alog now env q res rows' alog')
  have times: "sorted_wrt (\<lambda>a b. lc_changed_at a < lc_changed_at b) rows"
    using lc_reach_times [OF request.hyps(1)] by simp
  from transition_rows [OF request.hyps(3)] show ?case
  proof
    assume "\<exists>cur. rows' = rows @ [transition_row env q cur] \<and>
      detector_state_of (fst (db_latest rows (tq_detector q) (tq_version q))) = Some cur \<and>
      lifecycle_gates cur (tq_target q) \<noteq> None"
    then obtain cur where r: "rows' = rows @ [transition_row env q cur]"
      and c: "fst (db_latest rows (tq_detector q) (tq_version q)) = detector_state_value cur"
      and g: "lifecycle_gates cur (tq_target q) \<noteq> None"
      by (auto dest: state_value_of)
    show ?thesis
    proof (cases "d = tq_detector q \<and> v = tq_version q")
      case True
      have "history rows' d v = history rows d v @ [detector_state_value (tq_target q)]"
        using True r by (simp add: history_def rows_of_append transition_row_def)
      moreover have "legal_step (last (history rows d v)) (detector_state_value (tq_target q))"
        using c g True db_latest_last [OF times] by (auto simp: legal_step_def)
      ultimately show ?thesis using request.IH by (simp add: successively_snoc)
    next
      case False
      then have "history rows' d v = history rows d v"
        using r by (auto simp: history_def rows_of_append transition_row_def)
      then show ?thesis using request.IH by simp
    qed
  qed (use request.IH in simp)
qed


section \<open>Overlapping transitions\<close>

text \<open>Transitions of several callers overlap: each has read and checked, then waits to write its row, then to
  write its log entry, and any of these steps of different callers may follow one another. A failed write
  or a caller that dies leaves the rest undone.\<close>

datatype pending =
    ToStore transition_env transition_request detector_state
  | ToLog transition_env transition_request detector_state

inductive lc_run :: "lifecycle_row list \<Rightarrow> audit_row list \<Rightarrow> pending list \<Rightarrow> bool" where
  start: "lc_run [] [] []"
| read: "lc_run rows alog ps \<Longrightarrow> transition_check db_latest env q rows = Inr cur \<Longrightarrow>
    lc_run rows alog (ToStore env q cur # ps)"
| store: "lc_run rows alog ps \<Longrightarrow> ToStore env q cur \<in> set ps \<Longrightarrow>
    db_write rows (transition_row env q cur) = Some rows' \<Longrightarrow>
    lc_run rows' alog (ToLog env q cur # remove1 (ToStore env q cur) ps)"
| log: "lc_run rows alog ps \<Longrightarrow> ToLog env q cur \<in> set ps \<Longrightarrow> audit_transition env q cur alog = Inr alog' \<Longrightarrow>
    lc_run rows alog' (remove1 (ToLog env q cur) ps)"
| fail: "lc_run rows alog ps \<Longrightarrow> lc_run rows alog (remove1 p ps)"

text \<open>Requests one after the other are such a run.\<close>

lemma lc_reach_run: "lc_reach rows alog now \<Longrightarrow> lc_run rows alog []"
proof (induction rule: lc_reach.induct)
  case (request rows alog now env q res rows' alog')
  show ?case
  proof (cases "transition_check db_latest env q rows")
    case (Inr cur)
    note pending = lc_run.read [OF request.IH Inr]
    show ?thesis
    proof (cases "db_write rows (transition_row env q cur)")
      case (Some rows2)
      have stored: "lc_run rows2 alog [ToLog env q cur]" using lc_run.store [OF pending _ Some] by simp
      show ?thesis
        using request.hyps(3) Inr Some lc_run.log [OF stored] lc_run.fail [OF stored, of "ToLog env q cur"]
        by (auto simp: lifecycle_transition_def split: sum.splits)
    qed (use request Inr in \<open>simp add: lifecycle_transition_def\<close>)
  qed (use request in \<open>simp add: lifecycle_transition_def\<close>)
qed (rule lc_run.start)

lemma db_latest_in_history: "fst (db_latest rows d v) \<in> set (history rows d v)"
proof (cases "sort_key (\<lambda>r. - lc_changed_at r) (rows_of rows d v)")
  case (Cons r rs)
  then have "r \<in> set (rows_of rows d v)" by (metis list.set_intros(1) set_sort)
  then show ?thesis by (simp add: db_latest_def Cons history_def)
qed (simp add: db_latest_def history_def)

lemma transition_check_Inr:
  assumes "transition_check db_latest env q rows = Inr cur"
  shows "fst (db_latest rows (tq_detector q) (tq_version q)) = detector_state_value cur \<and>
    lifecycle_gates cur (tq_target q) \<noteq> None"
  using assms
  by (auto simp: transition_check_def dest: state_value_of split: prod.splits option.splits)

definition justified :: "string list \<Rightarrow> bool" where
  "justified h \<longleftrightarrow> (\<forall>i. 0 < i \<longrightarrow> i < length h \<longrightarrow> (\<exists>j < i. legal_step (h ! j) (h ! i)))"

lemma justified_snoc: "justified (h @ [x]) \<longleftrightarrow> justified h \<and> (h \<noteq> [] \<longrightarrow> (\<exists>a \<in> set h. legal_step a x))"
    (is "?l \<longleftrightarrow> ?r")
proof
  assume j: "?l"
  have "\<exists>a \<in> set h. legal_step a x" if "h \<noteq> []"
    using j [unfolded justified_def, rule_format, of "length h"] that by (auto simp: nth_append)
  moreover have "\<exists>j < i. legal_step (h ! j) (h ! i)" if "0 < i" "i < length h" for i
    using j [unfolded justified_def, rule_format, of i] that by (auto simp: nth_append)
  ultimately show "?r" by (simp add: justified_def)
next
  assume r: "?r"
  have "\<exists>j < i. legal_step ((h @ [x]) ! j) ((h @ [x]) ! i)" if "0 < i" "i < length (h @ [x])" for i
  proof (cases "i < length h")
    case True
    with r that obtain j where "j < i" "legal_step (h ! j) (h ! i)" unfolding justified_def by blast
    with True show ?thesis by (intro exI [of _ j]) (simp add: nth_append)
  next
    case False
    with r that obtain j where "j < length h" "legal_step (h ! j) x" by (auto simp: in_set_conv_nth)
    with False that show ?thesis by (intro exI [of _ j]) (simp add: nth_append less_Suc_eq)
  qed
  then show "?l" by (simp add: justified_def)
qed

lemma history_write:
  "db_write rows (transition_row env q cur) = Some rows' \<Longrightarrow>
   history rows' d v = history rows d v @
     (if d = tq_detector q \<and> v = tq_version q then [detector_state_value (tq_target q)] else [])"
  by (auto dest!: db_write_Some simp: history_def rows_of_append transition_row_def)

text \<open>What a waiting transition has read stays in the history, so its row is justified when it is written.\<close>

lemma lc_run_justified:
  "lc_run rows alog ps \<Longrightarrow>
   (\<forall>env q cur. ToStore env q cur \<in> set ps \<longrightarrow>
      detector_state_value cur \<in> set (history rows (tq_detector q) (tq_version q)) \<and>
      lifecycle_gates cur (tq_target q) \<noteq> None) \<and>
   justified (history rows d v)"
proof (induction rule: lc_run.induct)
  case start
  show ?case by (simp add: history_def rows_of_def justified_def)
next
  case (read rows alog ps env q cur)
  then show ?case
    using transition_check_Inr [OF read.hyps(2)] db_latest_in_history [of rows "tq_detector q" "tq_version q"] by auto
next
  case (store rows alog ps env q cur rows')
  have "\<exists>a \<in> set (history rows (tq_detector q) (tq_version q)). legal_step a (detector_state_value (tq_target q))"
    unfolding legal_step_def using store.IH store.hyps(2) by blast
  then have "justified (history rows' d v)"
    using store.IH by (cases "d = tq_detector q \<and> v = tq_version q") (auto simp: history_write [OF store.hyps(3)] justified_snoc)
  moreover have "detector_state_value c \<in> set (history rows' (tq_detector q') (tq_version q')) \<and>
      lifecycle_gates c (tq_target q') \<noteq> None" if "ToStore e q' c \<in> set ps" for e q' c
    using store.IH that by (simp add: history_write [OF store.hyps(3)])
  ultimately show ?case using notin_set_remove1 by (metis (no_types) pending.distinct(1) set_ConsD)
next
  case (log rows alog ps env q cur alog')
  then show ?case by (auto dest!: notin_set_remove1)
next
  case (fail rows alog ps p)
  then show ?case by (auto dest!: notin_set_remove1)
qed

lemma legal_into:
  "legal_step a ''ENFORCING'' \<Longrightarrow> a = ''CANARY''" "legal_step a ''CANARY'' \<Longrightarrow> a = ''SHADOW''"
proof -
  show "a = ''CANARY''" if "legal_step a ''ENFORCING''"
    using that legal_step_to [of a ENFORCING] into_enforcing by (force simp: detector_state_value_def)
  show "a = ''SHADOW''" if "legal_step a ''CANARY''"
    using that legal_step_to [of a CANARY] into_canary by (force simp: detector_state_value_def)
qed

section \<open>Properties\<close>

text \<open>
  C11. No detector is shipped straight to enforcement. However the transitions of several callers overlap
  (each reads and checks the state, and later writes the new one), forced ones included, every state in the
  history of a detector version but the initial \<^verbatim>\<open>PROPOSED\<close> was reached along a legal edge from a state
  earlier in that history, so \<^verbatim>\<open>ENFORCING\<close> is preceded by \<^verbatim>\<open>CANARY\<close> and that by \<^verbatim>\<open>SHADOW\<close>. When transitions do
  not overlap the history is a path of the legal graph from \<^verbatim>\<open>PROPOSED\<close>, and \<^verbatim>\<open>ENFORCING\<close> is directly
  preceded by \<^verbatim>\<open>CANARY\<close> and that by \<^verbatim>\<open>SHADOW\<close>.
\<close>

theorem enforcing_only_after_canary:
  fixes d v :: string
  assumes "lc_run rows alog ps"
  defines "h \<equiv> history rows d v"
  shows "h ! 0 = ''PROPOSED'' \<and>
    (\<forall>i. 0 < i \<longrightarrow> i < length h \<longrightarrow> (\<exists>j < i. legal_step (h ! j) (h ! i))) \<and>
    (\<forall>i < length h. h ! i = ''ENFORCING'' \<longrightarrow> (\<exists>j < i. \<exists>k < j. h ! j = ''CANARY'' \<and> h ! k = ''SHADOW'')) \<and>
    (lc_reach rows alog now \<longrightarrow> successively legal_step h \<and>
      (\<forall>i < length h. h ! i = ''ENFORCING'' \<longrightarrow> 2 \<le> i \<and> h ! (i - 1) = ''CANARY'' \<and> h ! (i - 2) = ''SHADOW''))"
proof -
  have h0: "h ! 0 = ''PROPOSED''" by (simp add: h_def history_def)
  have just: "\<exists>j < i. legal_step (h ! j) (h ! i)" if "0 < i" "i < length h" for i
    using lc_run_justified [OF assms(1)] that by (simp add: justified_def h_def)
  have pos: "0 < i" if "h ! i \<noteq> ''PROPOSED''" for i using that h0 by (cases i) auto
  have canary: "\<exists>j < i. h ! j = ''SHADOW''" if "i < length h" "h ! i = ''CANARY''" for i
    using just [OF pos that(1)] that(2) legal_into(2) by auto
  have enf: "\<exists>j < i. \<exists>k < j. h ! j = ''CANARY'' \<and> h ! k = ''SHADOW''" if e: "i < length h" "h ! i = ''ENFORCING''" for i
  proof -
    obtain j where "j < i" "h ! j = ''CANARY''" using just [OF pos e(1)] e(2) legal_into(1) by auto
    with canary [of j] e(1) show ?thesis by auto
  qed
  have direct: "2 \<le> i \<and> h ! (i - 1) = ''CANARY'' \<and> h ! (i - 2) = ''SHADOW''"
    if path: "successively legal_step h" and i_enf: "i < length h" "h ! i = ''ENFORCING''" for i
  proof -
    have step: "legal_step (h ! j) (h ! Suc j)" if "Suc j < length h" for j
      using path that by (simp add: successively_conv_nth)
    obtain j where i: "i = Suc j" using h0 i_enf(2) by (cases i) auto
    have c: "h ! j = ''CANARY''" using step [of j] legal_into(1) i_enf i by simp
    obtain k where j: "j = Suc k" using h0 c by (cases j) auto
    have "h ! k = ''SHADOW''" using step [of k] legal_into(2) c i_enf(1) i j by simp
    with c i j show ?thesis by simp
  qed
  have "successively legal_step h" if "lc_reach rows alog now"
    using lc_reach_history [OF that] by (simp add: h_def)
  with h0 just enf direct show ?thesis by blast
qed

definition promote :: "detector_state \<Rightarrow> bool \<Rightarrow> transition_request" where
  "promote t f =
     \<lparr> tq_detector = ''d'', tq_version = ''1'', tq_target = t, tq_actor_id = None, tq_rationale = None,
       tq_metrics = None, tq_force = f, tq_tenant_id = None, tq_canary_partition = None \<rparr>"

definition at_time :: "timestamp \<Rightarrow> transition_env" where
  "at_time t = \<lparr> te_now = t, te_changed_at = t, te_logged_at = t, te_row_id = ''x'', te_audit_seq = t, te_default_tenant = SYSTEM_TENANT \<rparr>"

lemma promote_step:
  assumes "lc_reach rows alog now" "now < t" "fst (db_latest rows ''d'' ''1'') = detector_state_value cur"
    and "lifecycle_gates cur tgt \<noteq> None"
  shows "\<exists>alog'. lc_reach (rows @ [transition_row (at_time t) (promote tgt True) cur]) alog' t"
proof -
  have "\<exists>alog'. lifecycle_transition db_write db_latest (at_time t) (promote tgt True) (rows, alog) =
      (Inr tgt, rows @ [transition_row (at_time t) (promote tgt True) cur], alog')"
    using assms(3,4)
    by (auto simp: lifecycle_transition_def transition_check_def promote_def check_gates_def db_write_def transition_row_def
        audit_transition_def append_entry_def Let_def state_of_value split: prod.splits)
  then show ?thesis using lc_reach.request [OF assms(1), of "at_time t"] assms(2)
    by (force simp: at_time_def)
qed

theorem enforcing_only_after_canary_witness:
  "\<exists>rows alog. lc_reach rows alog 3 \<and> history rows ''d'' ''1'' ! 3 = ''ENFORCING'' \<and>
     history rows ''d'' ''1'' ! 2 = ''CANARY'' \<and> history rows ''d'' ''1'' ! 1 = ''SHADOW''"
proof -
  let ?r = "\<lambda>t tgt cur. transition_row (at_time t) (promote tgt True) cur"
  let ?r1 = "?r 1 SHADOW PROPOSED" and ?r2 = "?r 2 CANARY SHADOW" and ?r3 = "?r 3 ENFORCING CANARY"
  note latest = db_latest_def rows_of_def transition_row_def promote_def at_time_def detector_state_value_def
  obtain l1 where 1: "lc_reach [?r1] l1 1"
    using promote_step [OF lc_reach.initial [of 0], of 1 PROPOSED SHADOW] by (auto simp: latest)
  obtain l2 where 2: "lc_reach [?r1, ?r2] l2 2"
    using promote_step [OF 1, of 2 SHADOW CANARY] by (auto simp: latest)
  obtain l3 where 3: "lc_reach [?r1, ?r2, ?r3] l3 3"
    using promote_step [OF 2, of 3 CANARY ENFORCING] by (auto simp: latest)
  let ?h = "history [?r1, ?r2, ?r3] ''d'' ''1''"
  have h: "?h ! 3 = ''ENFORCING''" "length ?h = 4"
    by (simp_all add: history_def rows_of_def transition_row_def promote_def detector_state_value_def)
  note run = enforcing_only_after_canary [OF lc_reach_run [OF 3], of "''d''" "''1''" 3]
  have "\<forall>i < length ?h. ?h ! i = ''ENFORCING'' \<longrightarrow> 2 \<le> i \<and> ?h ! (i - 1) = ''CANARY'' \<and> ?h ! (i - 2) = ''SHADOW''"
    using run 3 by blast
  from this [rule_format, of 3] have "?h ! (3 - 1) = ''CANARY'' \<and> ?h ! (3 - 2) = ''SHADOW''" using h by simp
  moreover have "3 - 1 = (2::nat)" "3 - 2 = (1::nat)" by simp_all
  ultimately show ?thesis using 3 h(1) by metis
qed

text \<open>
  Without a lock a stale check wins: of two requests for \<^verbatim>\<open>ENFORCING\<close> that both read \<^verbatim>\<open>CANARY\<close>, one is stored,
  the detector is disabled, and then the other is stored, so that a disabled detector enforces again although
  there is no such edge.
\<close>

lemma promote_check:
  assumes "fst (db_latest rows ''d'' ''1'') = detector_state_value cur" "lifecycle_gates cur tgt \<noteq> None"
  shows "transition_check db_latest env (promote tgt True) rows = Inr cur"
  using assms by (auto simp: transition_check_def promote_def check_gates_def state_of_value split: prod.splits)

lemma promote_store:
  assumes "lc_run rows alog ps" "ToStore env (promote tgt True) cur \<in> set ps"
  shows "\<exists>ps'. lc_run (rows @ [transition_row env (promote tgt True) cur]) alog ps' \<and>
    (\<forall>p \<in> set ps. p \<noteq> ToStore env (promote tgt True) cur \<longrightarrow> p \<in> set ps')"
proof -
  have "db_write rows (transition_row env (promote tgt True) cur) = Some (rows @ [transition_row env (promote tgt True) cur])"
    by (simp add: db_write_def transition_row_def promote_def)
  from lc_run.store [OF assms this] show ?thesis by (auto intro!: exI simp: in_set_remove1)
qed

lemma at_time_eq: "at_time t = at_time u \<longleftrightarrow> t = u"
  by (auto simp: at_time_def)

lemma stale_check_enforces:
  "\<exists>rows alog ps. lc_run rows alog ps \<and>
     history rows ''d'' ''1'' = [''PROPOSED'', ''SHADOW'', ''CANARY'', ''ENFORCING'', ''DISABLED'', ''ENFORCING''] \<and>
     fst (db_latest rows ''d'' ''1'') = ''ENFORCING'' \<and> \<not> legal_step ''DISABLED'' ''ENFORCING''"
proof -
  let ?r = "\<lambda>t tgt cur. transition_row (at_time t) (promote tgt True) cur"
  let ?p = "\<lambda>t tgt cur. ToStore (at_time t) (promote tgt True) cur"
  let ?rows = "[?r 1 SHADOW PROPOSED, ?r 2 CANARY SHADOW]" and ?last = "?p 5 ENFORCING CANARY"
  note latest = db_latest_def rows_of_def transition_row_def promote_def at_time_def detector_state_value_def
  obtain l1 where 1: "lc_reach [?r 1 SHADOW PROPOSED] l1 1"
    using promote_step [OF lc_reach.initial [of 0], of 1 PROPOSED SHADOW] by (auto simp: latest)
  obtain l2 where 2: "lc_reach ?rows l2 2"
    using promote_step [OF 1, of 2 SHADOW CANARY] by (auto simp: latest)
  have cur: "fst (db_latest ?rows ''d'' ''1'') = detector_state_value CANARY" by (simp add: latest)
  have "lc_run ?rows l2 [?last]"
    by (intro lc_run.read [OF lc_reach_run [OF 2] promote_check [OF cur]]) simp
  then have "lc_run ?rows l2 [?p 3 ENFORCING CANARY, ?last]"
    by (rule lc_run.read [OF _ promote_check [OF cur]]) simp
  from promote_store [OF this, of "at_time 3" ENFORCING CANARY] obtain ps1
    where 3: "lc_run (?rows @ [?r 3 ENFORCING CANARY]) l2 ps1" "?last \<in> set ps1"
    by (auto simp: at_time_eq)
  have "fst (db_latest (?rows @ [?r 3 ENFORCING CANARY]) ''d'' ''1'') = detector_state_value ENFORCING"
    by (simp add: latest)
  then have "lc_run (?rows @ [?r 3 ENFORCING CANARY]) l2 (?p 4 DISABLED ENFORCING # ps1)"
    by (intro lc_run.read [OF 3(1) promote_check]) simp_all
  from promote_store [OF this, of "at_time 4" DISABLED ENFORCING] 3(2) obtain ps2
    where 4: "lc_run ((?rows @ [?r 3 ENFORCING CANARY]) @ [?r 4 DISABLED ENFORCING]) l2 ps2" "?last \<in> set ps2"
    by (auto simp: at_time_eq)
  from promote_store [OF this] obtain ps3
    where "lc_run (((?rows @ [?r 3 ENFORCING CANARY]) @ [?r 4 DISABLED ENFORCING]) @ [?r 5 ENFORCING CANARY]) l2 ps3"
    by blast
  moreover have "\<not> legal_step ''DISABLED'' ''ENFORCING''" by (auto dest: legal_into(1))
  ultimately show ?thesis
    by (intro exI [of _ "((?rows @ [?r 3 ENFORCING CANARY]) @ [?r 4 DISABLED ENFORCING]) @ [?r 5 ENFORCING CANARY]"]
        exI [of _ l2] exI [of _ ps3]) (auto simp: latest history_def)
qed

text \<open>
  The gates hold at the door of enforcement: when a request that is not forced moves a
  detector to \<^verbatim>\<open>ENFORCING\<close>, the store had it in \<^verbatim>\<open>CANARY\<close> for at least 7 days, the request names an
  actor, its precision metric is at least 0.85 and no critical incident is reported; afterwards
  the store answers \<^verbatim>\<open>ENFORCING\<close>.
\<close>

theorem enforcing_gates:
  assumes "lifecycle_transition db_write db_latest env q (rows, alog) = (Inr ENFORCING, rows', alog')"
    and "\<not> tq_force q"
    and "\<forall>e. snd (db_latest rows (tq_detector q) (tq_version q)) = Some e \<longrightarrow> e < te_changed_at env"
  shows "fst (db_latest rows (tq_detector q) (tq_version q)) = ''CANARY'' \<and>
    7 \<le> days_between (snd (db_latest rows (tq_detector q) (tq_version q))) (te_now env) \<and>
    (\<exists>a m x. tq_actor_id q = Some a \<and> a \<noteq> [] \<and> tq_metrics q = Some m \<and>
       metric_number (dict_get_or JNull m ''precision'') = Some x \<and> f64 (85 / 100) \<le> x \<and>
       (\<exists>c. metric_number (dict_get_or (JInt 0) m ''critical_incidents'') = Some c \<and> c \<le> 0)) \<and>
    db_latest rows' (tq_detector q) (tq_version q) = (''ENFORCING'', Some (te_changed_at env))"
proof -
  obtain cur g where cur: "current_state db_latest rows (tq_detector q) (tq_version q) = Some cur"
    and t: "ENFORCING = tq_target q" and g: "lifecycle_gates cur ENFORCING = Some g"
    and ok: "check_gates g (tq_metrics q)
      (days_between (snd (db_latest rows (tq_detector q) (tq_version q))) (te_now env)) (tq_actor_id q) (tq_force q) = None"
    using db_store.transition_success [OF assms(1)] by blast
  have c: "cur = CANARY" using g by (cases cur) auto
  then have g': "g = \<lparr> g_min_days = 7, g_precision_min = Some (f64 (85 / 100)), g_fp_rate_max = None,
       g_admin_approval = True, g_no_critical_incidents = True \<rparr>" using g by simp
  let ?m = "case tq_metrics q of None \<Rightarrow> [] | Some d \<Rightarrow> d"
  have checks: "check_min_days g (days_between (snd (db_latest rows (tq_detector q) (tq_version q))) (te_now env)) = None"
      "check_approval g (tq_actor_id q) = None" "check_precision g ?m = None" "check_critical g ?m = None"
    using ok assms(2) by (auto simp: check_gates_def Let_def or_else_def split: option.splits if_splits)
  have "7 \<le> days_between (snd (db_latest rows (tq_detector q) (tq_version q))) (te_now env)"
    using checks(1) by (simp add: check_min_days_def g' split: if_splits)
  moreover obtain a where "tq_actor_id q = Some a" "a \<noteq> []"
    using checks(2) by (auto simp: check_approval_def g' split: if_splits)
  moreover obtain x where "metric_number (dict_get_or JNull ?m ''precision'') = Some x" "f64 (85 / 100) \<le> x"
    using checks(3) by (auto simp: check_precision_def g' Let_def split: if_splits option.splits)
  moreover from this obtain m where "tq_metrics q = Some m"
    by (cases "tq_metrics q") (auto simp: dict_get_or_def metric_number_def)
  moreover obtain n where "metric_number (dict_get_or (JInt 0) ?m ''critical_incidents'') = Some n" "n \<le> 0"
    using checks(4) by (auto simp: check_critical_def g' split: if_splits option.splits)
  moreover have "fst (db_latest rows (tq_detector q) (tq_version q)) = ''CANARY''"
    using cur c state_value_of by (fastforce simp: current_state_def detector_state_value_def)
  moreover have "db_latest rows' (tq_detector q) (tq_version q) = (''ENFORCING'', Some (te_changed_at env))"
    using db_store.transition_updates_state [OF assms(1,3)] by (simp add: detector_state_value_def)
  ultimately show ?thesis by auto
qed

definition canary_row :: lifecycle_row where
  "canary_row = transition_row (at_time 0) (promote CANARY True) SHADOW"

definition enforce_request :: transition_request where
  "enforce_request = (promote ENFORCING False)
     \<lparr>tq_actor_id := Some SYSTEM_TENANT, tq_metrics := Some [(''precision'', JInt 1)]\<rparr>"

theorem enforcing_gates_witness:
  "\<exists>alog' rows'. lifecycle_transition db_write db_latest (at_time 691200000000) enforce_request ([canary_row], []) =
      (Inr ENFORCING, rows', alog') \<and> 7 \<le> days_between (Some 0) 691200000000"
proof -
  have l: "db_latest [canary_row] ''d'' ''1'' = (''CANARY'', Some 0)"
    by (simp add: canary_row_def db_latest_def rows_of_def transition_row_def promote_def at_time_def
        detector_state_value_def)
  have u: "parse_uuid SYSTEM_TENANT = Some SYSTEM_TENANT" by code_simp
  have d: "days_between (Some 0) 691200000000 = 8"
    using rnd64_of_int [of 8] by (simp add: days_between_def fdiv_def)
  have p: "rnd64 (17 / 20) \<le> 1" using b64.rnd_unit [of "17 / 20"] by simp
  have ne: "SYSTEM_TENANT \<noteq> []" by (simp add: SYSTEM_TENANT_def)
  have q: "enforce_request = \<lparr> tq_detector = ''d'', tq_version = ''1'', tq_target = ENFORCING,
      tq_actor_id = Some SYSTEM_TENANT, tq_rationale = None, tq_metrics = Some [(''precision'', JInt 1)],
      tq_force = False, tq_tenant_id = None, tq_canary_partition = None \<rparr>"
    by (simp add: enforce_request_def promote_def)
  have s: "detector_state_of ''CANARY'' = Some CANARY"
    using state_of_value [of CANARY] by (simp add: detector_state_value_def)
  have "\<exists>alog' rows'. lifecycle_transition db_write db_latest (at_time 691200000000) enforce_request ([canary_row], []) =
      (Inr ENFORCING, rows', alog')"
    using p
    by (simp add: lifecycle_transition_def transition_check_def q l s d check_gates_def check_min_days_def check_approval_def
        check_precision_def check_fp_rate_def check_critical_def or_else_def metric_number_def ne u
        db_write_def transition_row_def audit_transition_def append_entry_def at_time_def dict_get_or_def Let_def)
  then obtain alog' rows' where t: "lifecycle_transition db_write db_latest (at_time 691200000000) enforce_request
      ([canary_row], []) = (Inr ENFORCING, rows', alog')" by blast
  from enforcing_gates [OF t] have "7 \<le> days_between (Some 0) (691200000000 :: int)"
    by (simp add: q l at_time_def)
  with t show ?thesis by blast
qed

text \<open>
  State changes and the audit log: a request that succeeds adds one row and one log entry;
  one that is refused changes nothing; with the in-memory store, an actor identifier that is not
  a UUID leaves a new state with no log entry and raises.
\<close>

theorem transition_audited:
  "case lifecycle_transition mem_write mem_latest env q (rows, alog) of
     (Inr t, rows', alog') \<Rightarrow> length rows' = Suc (length rows) \<and> length alog' = Suc (length alog)
   | (Inl e, rows', alog') \<Rightarrow>
       alog' = alog \<and> (case e of BadActorId a \<Rightarrow> length rows' = Suc (length rows) | _ \<Rightarrow> rows' = rows)"
proof -
  have app: "append_entry s n t k ac a tt ti p b l = Inr (h, l') \<Longrightarrow> length l' = Suc (length l)" for s n t k ac a tt ti p b l h l'
    by (auto simp: append_entry_def Let_def split: if_splits)
  have aud: "case audit_transition env q cur alog of
      Inr l \<Rightarrow> length l = Suc (length alog) | Inl e \<Rightarrow> (\<exists>a. e = BadActorId a)" for cur
    by (auto simp: audit_transition_def Let_def append_entry_def split: option.splits)
  have parts: "check_min_days g d \<noteq> Some (BadActorId x)" "check_approval g a \<noteq> Some (BadActorId x)"
      "check_precision g m \<noteq> Some (BadActorId x)" "check_fp_rate g m \<noteq> Some (BadActorId x)"
      "check_critical g m \<noteq> Some (BadActorId x)" for g d a m x
    by (simp_all add: check_min_days_def check_approval_def check_precision_def check_fp_rate_def
        check_critical_def Let_def split: option.split)
  have "or_else a b \<noteq> Some e" if "a \<noteq> Some e" "b \<noteq> Some e" for a b and e :: lifecycle_error
    using that by (auto simp: or_else_def split: option.splits)
  then have chk: "check_gates g m d a f \<noteq> Some (BadActorId x)" for g m d a f x
    unfolding check_gates_def Let_def using parts by simp
  show ?thesis
    using aud chk
    by (fastforce simp: lifecycle_transition_def transition_check_def mem_write_def split: prod.splits option.splits sum.splits
        lifecycle_error.splits)
qed

end
