(* ===== verification/Orchestration.thy ===== *)
theory Orchestration
  imports Lifecycle
begin

text \<open>
  The detector pipeline: \<^verbatim>\<open>auditor/async_pipeline/orchestrator.py\<close> (fan-out of the detectors over a
  trace, lifecycle-aware routing of their verdicts, aggregation) and \<^verbatim>\<open>pipeline.py\<close> (sampling
  decision, analysis and hand-over of the flag). A detector is its class name, category and the
  function \<^verbatim>\<open>run\<close>, whose exception is the text \<^verbatim>\<open>Type: message\<close>. \<^verbatim>\<open>asyncio.gather\<close> returns the
  outcomes in the order of the detectors, whatever the interleaving. Calls to other components
  are recorded as effects, in order; best-effort calls cannot change the outcome.
\<close>

section \<open>Orchestrator\<close>

record detector =
  dt_class_name :: string
  dt_asi_category :: string
  dt_run :: detector_run

definition SKIP_STATES :: "detector_state list" where
  "SKIP_STATES = [PROPOSED, DISABLED, DEPRECATED, REMOVED]"

text \<open>The values a run of the pipeline draws from its environment: identifier and time of each
  crash verdict and of the flag.\<close>

record orch_env =
  oe_crash :: "nat \<Rightarrow> verdict_env"
  oe_flag_id :: uuid
  oe_now :: timestamp

record orchestrator =
  oc_persist :: bool
  oc_state_for :: "(string \<Rightarrow> detector_state) option"
  oc_has_shadow_store :: bool
  oc_canary_partition :: rat

datatype effect =
    StoreRunResult "verdict list" "flag option"
  | ShadowWrite verdict
  | PersistSamplerDecision uuid sampler_decision
  | PublishFlag flag
  | RouteFlag flag

record orchestrator_result =
  or_flag :: "flag option"
  or_verdicts :: "verdict list"
  or_errors :: "(string \<times> string) list"

definition detector_key :: "detector \<Rightarrow> string" where
  "detector_key d = (if dt_asi_category d = [] then dt_class_name d else dt_asi_category d)"

definition crash_verdict :: "verdict_env \<Rightarrow> trace \<Rightarrow> detector \<Rightarrow> string \<Rightarrow> verdict" where
  "crash_verdict env tr d message =
     make_verdict env tr (dt_class_name d)
       (if dt_asi_category d = [] then ''UNKNOWN'' else dt_asi_category d)
       NEEDS_REVIEW 0 [evidence_text (''detector raised an exception: '' @ message)] None"

definition tag_canary :: "verdict \<Rightarrow> verdict" where
  "tag_canary v =
     v\<lparr>vd_evidence := evidence_text ''[canary] verdict from CANARY-state detector'' # vd_evidence v\<rparr>"

definition write_shadow :: "orchestrator \<Rightarrow> verdict list \<Rightarrow> effect list" where
  "write_shadow oc vs = (if oc_has_shadow_store oc then map ShadowWrite vs else [])"

text \<open>What one detector's outcome contributes: verdicts that count, all verdicts, errors, effects.\<close>

record contribution =
  cb_enforcing :: "verdict list"
  cb_all :: "verdict list"
  cb_errors :: "(string \<times> string) list"
  cb_effects :: "effect list"

definition route_outcome :: "orchestrator \<Rightarrow> verdict_env \<Rightarrow> trace \<Rightarrow> detector \<Rightarrow> string + verdict list \<Rightarrow> contribution" where
  "route_outcome oc env tr d outcome =
     (case outcome of
        Inl message \<Rightarrow>
          (let crash = crash_verdict env tr d message in
           \<lparr> cb_enforcing = [crash], cb_all = [crash],
             cb_errors = [(detector_key d, message)], cb_effects = [] \<rparr>)
      | Inr vs \<Rightarrow>
          (case oc_state_for oc of
             None \<Rightarrow> \<lparr> cb_enforcing = vs, cb_all = vs, cb_errors = [], cb_effects = [] \<rparr>
           | Some state_for \<Rightarrow>
               (case state_for (detector_key d) of
                  SHADOW \<Rightarrow> \<lparr> cb_enforcing = [], cb_all = vs, cb_errors = [], cb_effects = write_shadow oc vs \<rparr>
                | CANARY \<Rightarrow>
                    (if is_canary_selected (detector_key d) (tr_run_id tr) (oc_canary_partition oc)
                     then \<lparr> cb_enforcing = map tag_canary vs, cb_all = vs, cb_errors = [], cb_effects = [] \<rparr>
                     else \<lparr> cb_enforcing = [], cb_all = vs, cb_errors = [], cb_effects = write_shadow oc vs \<rparr>)
                | _ \<Rightarrow> \<lparr> cb_enforcing = vs, cb_all = vs, cb_errors = [], cb_effects = [] \<rparr>)))"

definition runnable :: "orchestrator \<Rightarrow> detector list \<Rightarrow> detector list" where
  "runnable oc ds =
     (case oc_state_for oc of
        None \<Rightarrow> ds
      | Some state_for \<Rightarrow> filter (\<lambda>d. state_for (detector_key d) \<notin> set SKIP_STATES) ds)"

definition contributions :: "orchestrator \<Rightarrow> orch_env \<Rightarrow> trace \<Rightarrow> detector list \<Rightarrow> contribution list" where
  "contributions oc env tr ds =
     map (\<lambda>(i, d). route_outcome oc (oe_crash env i) tr d (dt_run d tr)) (enumerate 0 (runnable oc ds))"

definition analyze_trace ::
  "orchestrator \<Rightarrow> orch_env \<Rightarrow> trace \<Rightarrow> detector list \<Rightarrow> orchestrator_result \<times> effect list" where
  "analyze_trace oc env tr ds =
     (let cs = contributions oc env tr ds;
          flag = aggregate (oe_flag_id env) (oe_now env) (tr_run_id tr) (tr_tenant_id tr)
                   (concat (map cb_enforcing cs));
          all = concat (map cb_all cs)
      in (\<lparr> or_flag = flag, or_verdicts = all, or_errors = concat (map cb_errors cs) \<rparr>,
          concat (map cb_effects cs) @ (if oc_persist oc then [StoreRunResult all flag] else [])))"

text \<open>\<^verbatim>\<open>default_detectors\<close>: one of each registration, in registration order.\<close>

definition default_detectors :: "(string \<Rightarrow> string) \<Rightarrow> registry \<Rightarrow> detector list" where
  "default_detectors class_name reg =
     map (\<lambda>(_, r). \<lparr> dt_class_name = class_name (dr_name r), dt_asi_category = dr_asi_category r,
                      dt_run = dr_factory r \<rparr>) reg"

section \<open>Post-run pipeline\<close>

record audit_outcome =
  ao_run_id :: uuid
  ao_sampled :: bool
  ao_tier :: tier
  ao_reason :: string
  ao_flag :: "flag option"
  ao_verdicts :: "verdict list"

definition route_flag :: "flag \<Rightarrow> effect list" where
  "route_flag f = [PublishFlag f, RouteFlag f]"

definition audit_run ::
  "orchestrator \<Rightarrow> orch_env \<Rightarrow> detector list \<Rightarrow> trace \<Rightarrow> rat \<Rightarrow> runtime \<Rightarrow>
   audit_outcome \<times> runtime \<times> effect list" where
  "audit_run oc env ds tr now rt =
     (let sg = compute_run_signals tr;
          (dec, rt) = runtime_decide now (tr_run_id tr) (tr_tenant_id tr) sg rt;
          saved = [PersistSamplerDecision (tr_run_id tr) dec]
      in if \<not> sd_audit dec
         then (\<lparr> ao_run_id = tr_run_id tr, ao_sampled = False, ao_tier = sd_tier dec,
                 ao_reason = sd_reason dec, ao_flag = None, ao_verdicts = [] \<rparr>, rt, saved)
         else
           (let (res, effs) = analyze_trace oc env tr ds in
            (\<lparr> ao_run_id = tr_run_id tr, ao_sampled = True, ao_tier = sd_tier dec,
               ao_reason = sd_reason dec, ao_flag = or_flag res, ao_verdicts = or_verdicts res \<rparr>,
             rt,
             saved @ effs @ (case or_flag res of None \<Rightarrow> [] | Some f \<Rightarrow> route_flag f))))"

section \<open>Facts\<close>

lemma tag_canary_result [simp]: "vd_result (tag_canary v) = vd_result v"
  by (simp add: tag_canary_def)

lemma tag_canary_classify [simp]: "classify (tag_canary v) = classify v"
  by (simp add: classify_def tag_canary_def classify_violation_def cong: verdict_result.case_cong option.case_cong)

lemma crash_verdict_result [simp]: "vd_result (crash_verdict env tr d m) = NEEDS_REVIEW"
  by (simp add: crash_verdict_def)

text \<open>The detectors whose verdicts count towards the flag.\<close>

definition counts :: "orchestrator \<Rightarrow> trace \<Rightarrow> detector \<Rightarrow> bool" where
  "counts oc tr d =
     (case oc_state_for oc of
        None \<Rightarrow> True
      | Some sf \<Rightarrow> sf (detector_key d) = ENFORCING \<or>
          (sf (detector_key d) = CANARY \<and> is_canary_selected (detector_key d) (tr_run_id tr) (oc_canary_partition oc)))"

definition counted :: "orchestrator \<Rightarrow> trace \<Rightarrow> detector \<Rightarrow> verdict list" where
  "counted oc tr d =
     (let vs = projr (dt_run d tr) in
      case oc_state_for oc of
        None \<Rightarrow> vs
      | Some sf \<Rightarrow> if sf (detector_key d) = CANARY then map tag_canary vs else vs)"

lemma route_counts:
  assumes "d \<in> set (runnable oc ds)" "dt_run d tr = Inr vs"
  shows "cb_enforcing (route_outcome oc env tr d (Inr vs)) = (if counts oc tr d then counted oc tr d else [])"
  using assms
  by (auto simp: counts_def counted_def route_outcome_def runnable_def SKIP_STATES_def
      split: option.splits detector_state.splits)

lemma route_shadow:
  assumes "\<not> counts oc tr d" "d \<in> set (runnable oc ds)"
  shows "cb_effects (route_outcome oc env tr d (Inr vs)) = write_shadow oc vs"
  using assms
  by (auto simp: counts_def route_outcome_def runnable_def SKIP_STATES_def split: option.splits detector_state.splits)

lemma shadow_write_in [simp]:
  "oc_has_shadow_store oc \<Longrightarrow> ShadowWrite v \<in> set (write_shadow oc vs) \<longleftrightarrow> v \<in> set vs"
  by (auto simp: write_shadow_def)

lemma counted_results: "dt_run d tr = Inr vs \<Longrightarrow> vd_result ` set (counted oc tr d) = vd_result ` set vs"
  by (auto simp: counted_def image_image split: option.splits)

lemma enforcing_concat:
  assumes "\<And>d. d \<in> set xs \<Longrightarrow> d \<in> set (runnable oc ds) \<and> (\<exists>vs. dt_run d tr = Inr vs)"
  shows "concat (map (cb_enforcing \<circ> (\<lambda>(i, d). route_outcome oc (oe_crash env i) tr d (dt_run d tr))) (enumerate n xs)) =
    concat (map (counted oc tr) (filter (counts oc tr) xs))"
  using assms
proof (induction xs arbitrary: n)
  case (Cons d xs)
  then obtain vs where "dt_run d tr = Inr vs" "d \<in> set (runnable oc ds)" by auto
  with Cons show ?case using route_counts [of d oc ds tr vs] by simp
qed simp

lemma counts_runnable: "counts oc tr d \<Longrightarrow> d \<in> set ds \<Longrightarrow> d \<in> set (runnable oc ds)"
  by (auto simp: counts_def runnable_def SKIP_STATES_def split: option.splits)

lemma aggregate_None_iff: "aggregate fresh now r t vs = None \<longleftrightarrow> (\<forall>v \<in> set vs. vd_result v = OK)"
  by (auto simp: aggregate_def Let_def filter_empty_conv)

lemma contribution_in:
  assumes "d \<in> set (runnable oc ds)"
  shows "\<exists>env'. route_outcome oc env' tr d (dt_run d tr) \<in> set (contributions oc env tr ds)"
proof -
  obtain i where "i < length (runnable oc ds)" "runnable oc ds ! i = d"
    using assms by (auto simp: in_set_conv_nth)
  then have "(i, d) \<in> set (enumerate 0 (runnable oc ds))" by (force simp: in_set_enumerate_eq)
  then show ?thesis unfolding contributions_def by (auto intro!: exI [of _ "oe_crash env i"] rev_image_eqI)
qed

lemma enforcing_verdict_in:
  assumes "d \<in> set (runnable oc ds)" "dt_run d tr = Inl m \<or> (\<exists>vs. dt_run d tr = Inr vs \<and> counts oc tr d \<and> (\<exists>v \<in> set vs. vd_result v \<noteq> OK))"
  shows "\<exists>v \<in> set (concat (map cb_enforcing (contributions oc env tr ds))). vd_result v \<noteq> OK"
proof -
  obtain env' where c: "route_outcome oc env' tr d (dt_run d tr) \<in> set (contributions oc env tr ds)"
    using contribution_in [OF assms(1)] by blast
  have "\<exists>v \<in> set (cb_enforcing (route_outcome oc env' tr d (dt_run d tr))). vd_result v \<noteq> OK"
    using assms(2)
  proof
    assume "dt_run d tr = Inl m"
    then show ?thesis by (simp add: route_outcome_def Let_def)
  next
    assume "\<exists>vs. dt_run d tr = Inr vs \<and> counts oc tr d \<and> (\<exists>v \<in> set vs. vd_result v \<noteq> OK)"
    then obtain vs v where vs: "dt_run d tr = Inr vs" "counts oc tr d" "v \<in> set vs" "vd_result v \<noteq> OK" by blast
    have "vd_result v \<in> vd_result ` set (cb_enforcing (route_outcome oc env' tr d (Inr vs)))"
      using route_counts [OF assms(1) vs(1), of env'] counted_results [OF vs(1), of oc] vs(2,3) by simp
    then show ?thesis using vs by auto
  qed
  with c show ?thesis by auto
qed

section \<open>Properties\<close>

text \<open>
  C12. No silent pass: if a detector that counts (enforcing, or canary with the run in the
  partition) reports anything but OK, or any detector that runs raises, the analysis produces a
  flag.
\<close>

theorem analysis_flags_findings:
  assumes "d \<in> set (runnable oc ds)"
    and "dt_run d tr = Inl m \<or> (\<exists>vs. dt_run d tr = Inr vs \<and> counts oc tr d \<and> (\<exists>v \<in> set vs. vd_result v \<noteq> OK))"
  shows "or_flag (fst (analyze_trace oc env tr ds)) \<noteq> None"
  using enforcing_verdict_in [OF assms] aggregate_None_iff
  by (auto simp: analyze_trace_def Let_def)

definition sample_env :: orch_env where
  "sample_env = \<lparr> oe_crash = (\<lambda>_. \<lparr> ve_id = ''c'', ve_now = 0 \<rparr>), oe_flag_id = ''f'', oe_now = 0 \<rparr>"

definition sample_orchestrator :: "detector_state \<Rightarrow> orchestrator" where
  "sample_orchestrator s =
     \<lparr> oc_persist = False, oc_state_for = Some (\<lambda>_. s), oc_has_shadow_store = True, oc_canary_partition = 0 \<rparr>"

definition sample_detector :: "string + verdict list \<Rightarrow> detector" where
  "sample_detector out = \<lparr> dt_class_name = ''D'', dt_asi_category = ''ASI02'', dt_run = (\<lambda>_. out) \<rparr>"

theorem analysis_flags_findings_witness:
  "or_flag (fst (analyze_trace (sample_orchestrator SHADOW) sample_env (sample_trace [])
     [sample_detector (Inl ''KeyError: x'')])) \<noteq> None"
  by (rule analysis_flags_findings [where d = "sample_detector (Inl ''KeyError: x'')" and m = "''KeyError: x''"])
    (simp_all add: sample_detector_def sample_orchestrator_def runnable_def SKIP_STATES_def)

text \<open>
  Shadow isolation: when no detector raises, the flag is the aggregation of exactly the
  verdicts of the detectors that count, with the canary tag on those of canary detectors; verdicts
  of the others never reach it, however severe, and are written to the shadow store if there is
  one.
\<close>

theorem shadow_isolated:
  assumes "\<And>d. d \<in> set (runnable oc ds) \<Longrightarrow> \<exists>vs. dt_run d tr = Inr vs"
  shows "or_flag (fst (analyze_trace oc env tr ds)) =
      aggregate (oe_flag_id env) (oe_now env) (tr_run_id tr) (tr_tenant_id tr)
        (concat (map (counted oc tr) (filter (counts oc tr) ds))) \<and>
    (oc_has_shadow_store oc \<longrightarrow>
      (\<forall>d \<in> set (runnable oc ds). \<not> counts oc tr d \<longrightarrow>
        (\<forall>v \<in> set (projr (dt_run d tr)). ShadowWrite v \<in> set (snd (analyze_trace oc env tr ds)))))"
proof -
  have "concat (map cb_enforcing (contributions oc env tr ds)) =
      concat (map (counted oc tr) (filter (counts oc tr) (runnable oc ds)))"
    unfolding contributions_def map_map by (rule enforcing_concat) (use assms in auto)
  moreover have "filter (counts oc tr) (runnable oc ds) = filter (counts oc tr) ds"
    by (auto simp: runnable_def filter_filter counts_def SKIP_STATES_def intro!: filter_cong split: option.splits)
  moreover have "ShadowWrite v \<in> set (snd (analyze_trace oc env tr ds))"
    if sh: "oc_has_shadow_store oc" "d \<in> set (runnable oc ds)" "\<not> counts oc tr d" "v \<in> set (projr (dt_run d tr))" for d v
  proof -
    obtain env' where "route_outcome oc env' tr d (dt_run d tr) \<in> set (contributions oc env tr ds)"
      using contribution_in [OF sh(2)] by blast
    moreover obtain vs where "dt_run d tr = Inr vs" using assms sh(2) by blast
    moreover from this have "ShadowWrite v \<in> set (cb_effects (route_outcome oc env' tr d (Inr vs)))"
      using route_shadow [OF sh(3,2)] sh(1,4) by simp
    ultimately show ?thesis by (auto simp: analyze_trace_def Let_def)
  qed
  ultimately show ?thesis by (simp add: analyze_trace_def Let_def)
qed

theorem shadow_isolated_witness:
  "or_flag (fst (analyze_trace (sample_orchestrator SHADOW) sample_env (sample_trace [])
     [sample_detector (Inr [sample_verdict ''d'' ''ASI04'' VIOLATION 1])])) = None"
proof -
  let ?d = "sample_detector (Inr [sample_verdict ''d'' ''ASI04'' VIOLATION 1])"
  have "or_flag (fst (analyze_trace (sample_orchestrator SHADOW) sample_env (sample_trace []) [?d])) =
      aggregate (oe_flag_id sample_env) (oe_now sample_env) ''r1'' ''t1''
        (concat (map (counted (sample_orchestrator SHADOW) (sample_trace []))
          (filter (counts (sample_orchestrator SHADOW) (sample_trace [])) [?d])))"
    using shadow_isolated [of "sample_orchestrator SHADOW" "[?d]" "sample_trace []" sample_env]
    by (simp add: sample_detector_def sample_orchestrator_def runnable_def SKIP_STATES_def sample_trace_def)
  then show ?thesis by (simp add: counts_def sample_orchestrator_def aggregate_def)
qed

end
