(* ===== verification/Detectors.thy ===== *)
theory Detectors
  imports Events
begin

text \<open>
  The deterministic detectors of \<^verbatim>\<open>auditor/detectors/\<close>: tool misuse (\<^verbatim>\<open>asi02\<close>, with its depth-first
  search for cycles in the span graph), identity abuse (\<^verbatim>\<open>asi03\<close>), supply chain (\<^verbatim>\<open>asi04\<close>), code
  execution (\<^verbatim>\<open>asi05\<close>), inter-agent messages (\<^verbatim>\<open>asi07\<close>) and cascading errors (\<^verbatim>\<open>asi08\<close>). Each \<^verbatim>\<open>run\<close>
  is a function from a trace to verdicts or an exception; run-level configuration is read from the
  free-form metadata, with the exceptions a value of the wrong type raises.
\<close>

section \<open>Shared parts\<close>

text \<open>\<^verbatim>\<open>VIOLATION if evidence else OK\<close>, with a default explanation.\<close>

definition evidence_verdict ::
  "verdict_env \<Rightarrow> trace \<Rightarrow> string \<Rightarrow> string \<Rightarrow> rat \<Rightarrow> evidence list \<Rightarrow> string \<Rightarrow>
   (string, json) pydict option \<Rightarrow> verdict" where
  "evidence_verdict env tr name asi conf evs ok_reason scores =
     (if evs = [] then make_verdict env tr name asi OK 1 [evidence_text ok_reason] None
      else make_verdict env tr name asi VIOLATION (f64 conf) evs scores)"

definition tool_starts :: "trace \<Rightarrow> event list" where
  "tool_starts tr = filter (\<lambda>e. case e_body e of ToolCallStart _ _ _ _ _ _ \<Rightarrow> True | _ \<Rightarrow> False) (tr_events tr)"

definition tool_name :: "event \<Rightarrow> string" where
  "tool_name e = (case e_body e of ToolCallStart _ t _ _ _ _ \<Rightarrow> t | _ \<Rightarrow> [])"

text \<open>\<^verbatim>\<open>s in j\<close>.\<close>

definition json_contains :: "string \<Rightarrow> json \<Rightarrow> py_error + bool" where
  "json_contains s j =
     (case j of
        JList xs \<Rightarrow> Inr (JStr s \<in> set xs)
      | JStr t \<Rightarrow> Inr (str_in s t)
      | JObj d \<Rightarrow> Inr (s \<in> fst ` set d)
      | _ \<Rightarrow> Inl TypeError)"

section \<open>ASI02: tool misuse\<close>

definition MIN_CYCLE_DEPTH :: nat where
  "MIN_CYCLE_DEPTH = 3"

definition MAX_SAME_TOOL :: nat where
  "MAX_SAME_TOOL = 50"

definition DANGEROUS_CHAINS :: "(string, string list) pydict" where
  "DANGEROUS_CHAINS =
     [(''read_secret'', [''http_post'', ''send_email'', ''exec_shell'']),
      (''query_employee'', [''send_email'', ''http_post'']),
      (''kb_search'', [''exec_shell''])]"

datatype color = WHITE | GRAY | BLACK

type_synonym adjacency = "(uuid, uuid list) pydict"

text \<open>The closure's state: the colours and the stack. \<^verbatim>\<open>dfs\<close> recurses with fuel (\<open>None\<close> when it is
  used up); one unit per white node is enough. The interpreter's own recursion limit is not modelled.\<close>

type_synonym dfs_state = "(uuid, color) pydict \<times> uuid list"

definition color_of :: "dfs_state \<Rightarrow> uuid \<Rightarrow> color" where
  "color_of st u = dict_get_or WHITE (fst st) u"

definition neighbours :: "adjacency \<Rightarrow> uuid \<Rightarrow> uuid list" where
  "neighbours adj u = dict_get_or [] adj u"

fun dfs :: "nat \<Rightarrow> adjacency \<Rightarrow> uuid \<Rightarrow> dfs_state \<Rightarrow> (uuid list option \<times> dfs_state) option"
  and dfs_edges :: "nat \<Rightarrow> adjacency \<Rightarrow> uuid \<Rightarrow> uuid list \<Rightarrow> dfs_state \<Rightarrow> (uuid list option \<times> dfs_state) option" where
  "dfs 0 adj node st = None"
| "dfs (Suc n) adj node st =
     dfs_edges n adj node (neighbours adj node) (dict_set node GRAY (fst st), snd st @ [node])"
| "dfs_edges n adj node [] st = Some (None, (dict_set node BLACK (fst st), butlast (snd st)))"
| "dfs_edges n adj node (nxt # rest) st =
     (if color_of st nxt = GRAY then
        (let cycle = dropWhile (\<lambda>u. u \<noteq> nxt) (snd st) in
         if MIN_CYCLE_DEPTH \<le> length cycle then Some (Some cycle, st)
         else dfs_edges n adj node rest st)
      else if color_of st nxt = WHITE then
        (case dfs n adj nxt st of
           None \<Rightarrow> None
         | Some (Some c, st') \<Rightarrow> Some (Some c, st')
         | Some (None, st') \<Rightarrow> dfs_edges n adj node rest st')
      else dfs_edges n adj node rest st)"

fun dfs_starts :: "nat \<Rightarrow> adjacency \<Rightarrow> uuid list \<Rightarrow> dfs_state \<Rightarrow> uuid list option option" where
  "dfs_starts n adj [] st = Some None"
| "dfs_starts n adj (s # ss) st =
     (if color_of st s = WHITE then
        (case dfs n adj s st of
           None \<Rightarrow> None
         | Some (Some c, _) \<Rightarrow> Some (Some c)
         | Some (None, st') \<Rightarrow> dfs_starts n adj ss st')
      else dfs_starts n adj ss st)"

definition nodes :: "adjacency \<Rightarrow> uuid list" where
  "nodes adj = remdups (map fst adj @ concat (map snd adj))"

definition find_cycle :: "adjacency \<Rightarrow> uuid list option option" where
  "find_cycle adj =
     dfs_starts (length (nodes adj)) adj (map fst adj) (map (\<lambda>(u, _). (u, WHITE)) adj, [])"

definition add_span :: "adjacency \<Rightarrow> event \<Rightarrow> adjacency" where
  "add_span adj e =
     (let adj = dict_set (e_span_id e) (neighbours adj (e_span_id e)) adj in
      case e_parent_span_id e of
        None \<Rightarrow> adj
      | Some p \<Rightarrow> dict_set p (neighbours adj p @ [e_span_id e]) adj)"

definition count_tool :: "(string, nat) pydict \<Rightarrow> event \<Rightarrow> (string, nat) pydict" where
  "count_tool counts e = dict_set (tool_name e) (dict_get_or 0 counts (tool_name e) + 1) counts"

definition burst_evidence :: "event list \<Rightarrow> evidence list" where
  "burst_evidence starts =
     [evidence_text (''tool '' @ py_repr tool @ '' invoked '' @ str_nat n @ '' times (> '' @ str_nat MAX_SAME_TOOL @ '')'').
       (tool, n) \<leftarrow> foldl count_tool [] starts, MAX_SAME_TOOL < n]"

fun chain_evidence :: "string list \<Rightarrow> event list \<Rightarrow> evidence list" where
  "chain_evidence seen [] = []"
| "chain_evidence seen (e # es) =
     (let tool = tool_name e in
      [evidence_at e (''dangerous composition: '' @ src @ '' -> '' @ tool).
         (src, sinks) \<leftarrow> DANGEROUS_CHAINS, src \<in> set seen \<and> tool \<in> set sinks] @
      chain_evidence (if tool \<in> fst ` set DANGEROUS_CHAINS then tool # seen else seen) es)"

definition asi02_evidence :: "event list \<Rightarrow> evidence list option" where
  "asi02_evidence starts =
     (case find_cycle (foldl add_span [] starts) of
        None \<Rightarrow> None
      | Some c \<Rightarrow> Some (
          (case c of
             None \<Rightarrow> []
           | Some cyc \<Rightarrow> [evidence_text (''tool-call cycle of depth '' @ str_nat (length cyc) @ '' detected in span graph'')]) @
          burst_evidence starts @ chain_evidence [] starts))"

text \<open>The outer option is the fuel of the cycle search.\<close>

definition asi02_run :: "verdict_env \<Rightarrow> trace \<Rightarrow> verdict list option" where
  "asi02_run env tr =
     (let starts = tool_starts tr in
      if starts = [] then Some []
      else map_option (\<lambda>evs.
        [evidence_verdict env tr ''asi02_tool_misuse'' ''ASI02'' (95 / 100) evs
           (str_nat (length starts) @ '' tool calls; no cycle/burst/dangerous chain'') None]) (asi02_evidence starts))"

section \<open>ASI03: identity abuse\<close>

text \<open>\<^verbatim>\<open>capabilities.get(role)\<close> for a role read from the metadata.\<close>

definition role_lookup :: "(string, json) pydict \<Rightarrow> json \<Rightarrow> py_error + json" where
  "role_lookup caps role =
     (case role of
        JStr r \<Rightarrow> Inr (dict_get_or JNull caps r)
      | JList _ \<Rightarrow> Inl TypeError
      | JObj _ \<Rightarrow> Inl TypeError
      | _ \<Rightarrow> Inr JNull)"

definition asi03_tool :: "(string, json) pydict \<Rightarrow> json option \<Rightarrow> event \<Rightarrow> uuid \<Rightarrow> string \<Rightarrow> py_error + evidence list" where
  "asi03_tool caps roles e agent tool =
     (case (case roles of None \<Rightarrow> Inr (JStr agent) | Some (JObj d) \<Rightarrow> Inr (dict_get_or (JStr agent) d agent)
              | Some _ \<Rightarrow> Inl AttributeError) of
        Inl err \<Rightarrow> Inl err
      | Inr role \<Rightarrow>
          (case role_lookup caps role of
             Inl err \<Rightarrow> Inl err
           | Inr allowed \<Rightarrow>
               if allowed = JNull then
                 Inr [evidence_at e (''agent role '' @ json_repr role @ '' has no capability entry (implicit deny)'')]
               else
                 (case json_contains tool allowed of
                    Inl err \<Rightarrow> Inl err
                  | Inr ok \<Rightarrow>
                      Inr (if ok then []
                           else [evidence_at e (''role '' @ json_repr role @ '' not permitted to call '' @ py_repr tool)]))))"

definition asi03_event :: "json \<Rightarrow> json option \<Rightarrow> event \<Rightarrow> py_error + evidence list" where
  "asi03_event capabilities roles e =
     (case e_body e of
        ToolCallStart agent tool _ _ _ _ \<Rightarrow>
          if \<not> json_truthy capabilities then Inr []
          else (case capabilities of JObj caps \<Rightarrow> asi03_tool caps roles e agent tool | _ \<Rightarrow> Inl AttributeError)
      | InterAgentMessage _ _ _ sig \<Rightarrow>
          Inr (if sig = [] then [evidence_at e ''inter-agent message missing HMAC signature (identity unproven)''] else [])
      | _ \<Rightarrow> Inr [])"

definition asi03_run :: "verdict_env \<Rightarrow> trace \<Rightarrow> py_error + verdict list" where
  "asi03_run env tr =
     (let capabilities = dict_get_or (JObj []) (tr_metadata tr) ''capabilities'';
          roles = dict_get (tr_metadata tr) ''agent_roles''
      in map_sum id (\<lambda>evs. [evidence_verdict env tr ''asi03_identity_abuse'' ''ASI03'' (97 / 100) (concat evs)
           ''all tool calls within role capabilities; messages signed'' None])
         (traverse (asi03_event capabilities roles) (tr_events tr)))"

section \<open>ASI04: supply chain\<close>

definition asi04_event :: "(string, json) pydict \<Rightarrow> event \<Rightarrow> py_error + evidence list" where
  "asi04_event catalog e =
     (case e_body e of
        ToolCallStart _ tool _ _ _ schema_hash \<Rightarrow>
          (case dict_get_or JNull catalog tool of
             JNull \<Rightarrow> Inr [evidence_at e (''[critical] unknown tool '' @ py_repr tool @ '' not in pinned catalog'')]
           | expected \<Rightarrow>
               (case schema_hash of
                  None \<Rightarrow> Inr [evidence_at e (''[critical] tool '' @ py_repr tool @ '' carries no schema_hash'')]
                | Some h \<Rightarrow>
                    (if JStr h = expected then Inr []
                     else case expected of
                       JStr x \<Rightarrow> Inr [evidence_at e (''[critical] schema_hash mismatch for '' @ py_repr tool @
                         '': observed '' @ take 12 h @ ''.. != catalog '' @ take 12 x @ ''..'')]
                     | JList xs \<Rightarrow> Inr [evidence_at e (''[critical] schema_hash mismatch for '' @ py_repr tool @
                         '': observed '' @ take 12 h @ ''.. != catalog '' @ json_repr (JList (take 12 xs)) @ ''..'')]
                     | JObj _ \<Rightarrow> Inl KeyError
                     | _ \<Rightarrow> Inl TypeError)))
      | _ \<Rightarrow> Inr [])"

definition asi04_run :: "verdict_env \<Rightarrow> trace \<Rightarrow> py_error + verdict list" where
  "asi04_run env tr =
     (let starts = tool_starts tr; catalog = dict_get_or (JObj []) (tr_metadata tr) ''tool_catalog'' in
      if starts = [] then Inr []
      else if \<not> json_truthy catalog then Inr []
      else case catalog of
        JObj cat \<Rightarrow>
          map_sum id (\<lambda>evs. [evidence_verdict env tr ''asi04_supply_chain'' ''ASI04'' (99 / 100) (concat evs)
             (''all '' @ str_nat (length starts) @ '' tool schema hashes match the pinned catalog'')
             (Some [(''severity'', JStr ''critical'')])])
          (traverse (asi04_event cat) starts)
      | _ \<Rightarrow> Inl AttributeError)"

section \<open>ASI05: code execution\<close>

definition DEFAULT_EXECVE_ALLOWLIST :: "string list" where
  "DEFAULT_EXECVE_ALLOWLIST =
     [''/usr/bin/python3'', ''/usr/bin/python'', ''/usr/bin/node'', ''/bin/sh'', ''/usr/bin/env'']"

definition ASI05_TOOLS :: "string list" where
  "ASI05_TOOLS = [''exec_shell'', ''eval'', ''exec'', ''run_code'', ''python_exec'']"

text \<open>\<^verbatim>\<open>set(metadata.get("execve_allowlist", default))\<close>: a list or a dictionary gives its elements
  or keys, a text its characters; a list with unhashable elements, or a number, raises.\<close>

definition unhashable :: "json \<Rightarrow> bool" where
  "unhashable j = (case j of JList _ \<Rightarrow> True | JObj _ \<Rightarrow> True | _ \<Rightarrow> False)"

definition execve_allowlist :: "trace \<Rightarrow> py_error + string list" where
  "execve_allowlist tr =
     (case dict_get (tr_metadata tr) ''execve_allowlist'' of
        None \<Rightarrow> Inr DEFAULT_EXECVE_ALLOWLIST
      | Some (JList xs) \<Rightarrow>
          if list_ex unhashable xs then Inl TypeError else Inr [s. JStr s \<leftarrow> xs]
      | Some (JObj d) \<Rightarrow> Inr (map fst d)
      | Some (JStr s) \<Rightarrow> Inr (map (\<lambda>c. [c]) s)
      | Some _ \<Rightarrow> Inl TypeError)"

definition asi05_event :: "string list \<Rightarrow> event \<Rightarrow> evidence list" where
  "asi05_event allowlist e =
     (case e_body e of
        SyscallExecve binary _ \<Rightarrow>
          if binary \<notin> set allowlist
          then [evidence_at e (''[critical] execve of non-allowlisted binary '' @ py_repr binary)] else []
      | ToolCallStart _ tool _ purpose _ _ \<Rightarrow>
          if tool \<in> set ASI05_TOOLS \<and> (purpose = None \<or> purpose = Some [])
          then [evidence_at e (''[high] code-exec tool '' @ py_repr tool @ '' called without a declared_purpose'')] else []
      | _ \<Rightarrow> [])"

definition asi05_run :: "verdict_env \<Rightarrow> trace \<Rightarrow> py_error + verdict list" where
  "asi05_run env tr =
     map_sum id (\<lambda>allow. [evidence_verdict env tr ''asi05_code_execution'' ''ASI05'' (98 / 100)
        (concat (map (asi05_event allow) (tr_events tr)))
        ''no non-allowlisted execve and no unpurposed code-exec tool calls'' None])
     (execve_allowlist tr)"

section \<open>ASI07: inter-agent messages\<close>

definition asi07_messages :: "trace \<Rightarrow> event list" where
  "asi07_messages tr = filter (\<lambda>e. case e_body e of InterAgentMessage _ _ _ _ \<Rightarrow> True | _ \<Rightarrow> False) (tr_events tr)"

definition asi07_event :: "event \<Rightarrow> evidence list" where
  "asi07_event e =
     (case e_body e of
        InterAgentMessage sender receiver _ sig \<Rightarrow>
          if sig = [] then [evidence_at e (''unsigned inter-agent message '' @ sender @ '' -> '' @ receiver @
            '' (empty HMAC signature)'')] else []
      | _ \<Rightarrow> [])"

definition asi07_run :: "verdict_env \<Rightarrow> trace \<Rightarrow> verdict list" where
  "asi07_run env tr =
     (let ms = asi07_messages tr in
      if ms = [] then []
      else [evidence_verdict env tr ''asi07_inter_agent'' ''ASI07'' (97 / 100) (concat (map asi07_event ms))
        (''all '' @ str_nat (length ms) @ '' inter-agent messages carry an HMAC signature'') None])"

section \<open>ASI08: cascading failures\<close>

definition ERROR_K :: nat where
  "ERROR_K = 5"

definition note_call :: "(uuid, string) pydict \<Rightarrow> event \<Rightarrow> (uuid, string) pydict" where
  "note_call m e =
     (case e_body e of ToolCallStart _ tool _ _ (Some call) _ \<Rightarrow> dict_set call tool m | _ \<Rightarrow> m)"

type_synonym error_acc = "(uuid \<times> string, nat) pydict \<times> (uuid \<times> string, uuid) pydict"

definition count_error :: "(uuid, string) pydict \<Rightarrow> error_acc \<Rightarrow> event \<Rightarrow> error_acc" where
  "count_error calls acc e =
     (case e_body e of
        ToolCallEnd agent call status _ _ \<Rightarrow>
          if status = ''error'' then
            (let key = (agent, dict_get_or ''<unknown>'' calls call) in
             (dict_set key (dict_get_or 0 (fst acc) key + 1) (fst acc), dict_set key (e_event_id e) (snd acc)))
          else acc
      | _ \<Rightarrow> acc)"

definition error_counts :: "trace \<Rightarrow> error_acc" where
  "error_counts tr = foldl (count_error (foldl note_call [] (tr_events tr))) ([], []) (tr_events tr)"

definition asi08_evidence :: "error_acc \<Rightarrow> evidence list" where
  "asi08_evidence acc =
     [\<lparr> ev_event_id = dict_get (snd acc) (agent, tool),
        ev_reason = ''circuit-breaker: agent '' @ agent @ '' tool '' @ py_repr tool @ '' errored '' @ str_nat n @
          '' times (> '' @ str_nat ERROR_K @ ''); cascade risk'' \<rparr>.
      ((agent, tool), n) \<leftarrow> fst acc, ERROR_K < n]"

definition asi08_run :: "verdict_env \<Rightarrow> trace \<Rightarrow> verdict list" where
  "asi08_run env tr =
     (let acc = error_counts tr in
      if fst acc = [] then []
      else [evidence_verdict env tr ''asi08_cascading'' ''ASI08'' (90 / 100) (asi08_evidence acc)
        (''errors present but no (agent,tool) pair exceeded '' @ str_nat ERROR_K) None])"


section \<open>The cycle search\<close>

definition edge :: "adjacency \<Rightarrow> uuid \<Rightarrow> uuid \<Rightarrow> bool" where
  "edge adj u v \<longleftrightarrow> v \<in> set (neighbours adj u)"

definition real_cycle :: "adjacency \<Rightarrow> uuid list \<Rightarrow> bool" where
  "real_cycle adj c \<longleftrightarrow>
     MIN_CYCLE_DEPTH \<le> length c \<and> distinct c \<and> successively (edge adj) c \<and> edge adj (last c) (hd c)"

definition dfs_inv :: "adjacency \<Rightarrow> dfs_state \<Rightarrow> bool" where
  "dfs_inv adj st \<longleftrightarrow>
     successively (edge adj) (snd st) \<and> distinct (snd st) \<and> (\<forall>u. color_of st u = GRAY \<longleftrightarrow> u \<in> set (snd st))"

lemma color_of_set: "color_of (dict_set u c (fst st), stk) v = (if v = u then c else color_of st v)"
  by (auto simp: color_of_def dict_get_or_def update_conv)

lemma dfs_inv_push:
  assumes "dfs_inv adj st" "color_of st node = WHITE" "snd st = [] \<or> edge adj (last (snd st)) node"
  shows "dfs_inv adj (dict_set node GRAY (fst st), snd st @ [node])"
proof -
  have "color_of st node \<noteq> GRAY" using assms(2) by simp
  then have "node \<notin> set (snd st)" using assms(1) unfolding dfs_inv_def by blast
  then show ?thesis
    using assms by (auto simp: dfs_inv_def successively_append_iff color_of_set)
qed

lemma dfs_inv_pop:
  assumes "dfs_inv adj st" "snd st \<noteq> []" "last (snd st) = node"
  shows "dfs_inv adj (dict_set node BLACK (fst st), butlast (snd st))"
proof -
  obtain xs where xs: "snd st = xs @ [node]" using assms(2,3) by (metis append_butlast_last_id)
  then show ?thesis
    using assms(1) by (auto simp: dfs_inv_def successively_append_iff color_of_set)
qed

lemma back_edge_cycle:
  assumes "dfs_inv adj st" "snd st \<noteq> []" "last (snd st) = node" "edge adj node nxt" "color_of st nxt = GRAY"
    and "MIN_CYCLE_DEPTH \<le> length (dropWhile (\<lambda>u. u \<noteq> nxt) (snd st))"
  shows "real_cycle adj (dropWhile (\<lambda>u. u \<noteq> nxt) (snd st))"
proof -
  let ?c = "dropWhile (\<lambda>u. u \<noteq> nxt) (snd st)"
  have "nxt \<in> set (snd st)" using assms(1,5) by (simp add: dfs_inv_def)
  then have ne: "?c \<noteq> []" by (auto simp: dropWhile_eq_Nil_conv)
  have s: "snd st = takeWhile (\<lambda>u. u \<noteq> nxt) (snd st) @ ?c" by simp
  have "successively (edge adj) ?c" "distinct ?c"
    using assms(1) s unfolding dfs_inv_def by (metis successively_append_iff, simp)
  moreover have "last ?c = node" using assms(3) ne s by (metis last_appendR)
  moreover have "hd ?c = nxt" using hd_dropWhile [of "\<lambda>u. u \<noteq> nxt" "snd st"] ne by simp
  ultimately show ?thesis using assms(4,6) by (simp add: real_cycle_def)
qed

lemma dfs_sound:
  shows "dfs n adj node st = Some (r, st') \<Longrightarrow> dfs_inv adj st \<Longrightarrow> color_of st node = WHITE \<Longrightarrow>
      snd st = [] \<or> edge adj (last (snd st)) node \<Longrightarrow>
      (case r of Some c \<Rightarrow> real_cycle adj c | None \<Rightarrow> dfs_inv adj st' \<and> snd st' = snd st)"
    and "dfs_edges n adj node es st = Some (r, st') \<Longrightarrow> dfs_inv adj st \<Longrightarrow> snd st \<noteq> [] \<Longrightarrow>
      last (snd st) = node \<Longrightarrow> set es \<subseteq> set (neighbours adj node) \<Longrightarrow>
      (case r of Some c \<Rightarrow> real_cycle adj c | None \<Rightarrow> dfs_inv adj st' \<and> snd st' = butlast (snd st))"
proof (induction n adj node st and n adj node es st arbitrary: r st' and r st' rule: dfs_dfs_edges.induct)
  case (2 n adj node st)
  then show ?case using dfs_inv_push [OF "2.prems"(2-4)] by (auto split: option.splits)
next
  case (3 n adj node st)
  then show ?case using dfs_inv_pop [OF "3.prems"(2-4)] by auto
next
  case (4 n adj node nxt rest st)
  have e: "edge adj node nxt" using "4.prems"(5) by (simp add: edge_def)
  consider (gray) "color_of st nxt = GRAY" | (white) "color_of st nxt = WHITE" | (black) "color_of st nxt = BLACK"
    by (cases "color_of st nxt") auto
  then show ?case
  proof cases
    case gray
    show ?thesis
    proof (cases "MIN_CYCLE_DEPTH \<le> length (dropWhile (\<lambda>u. u \<noteq> nxt) (snd st))")
      case True
      then show ?thesis using "4.prems" gray back_edge_cycle [OF "4.prems"(2-4) e gray] by auto
    next
      case False
      then show ?thesis using "4.prems" gray "4.IH"(1) by simp
    qed
  next
    case white
    then obtain r1 st1 where d: "dfs n adj nxt st = Some (r1, st1)" using "4.prems"(1) by (auto split: option.splits)
    have p: "snd st = [] \<or> edge adj (last (snd st)) nxt" using e "4.prems"(4) by simp
    note ih = "4.IH"(2) [OF _ white d "4.prems"(2) white p]
    show ?thesis
    proof (cases r1)
      case None
      then have "dfs_edges n adj node rest st1 = Some (r, st')" using "4.prems"(1) white d by simp
      moreover have "dfs_inv adj st1" "snd st1 = snd st" using ih None white by simp_all
      ultimately show ?thesis
        using "4.IH"(3) [of "(r1, st1)" r1 st1 r st'] white d None "4.prems" by (auto split: option.splits)
    next
      case (Some c)
      then show ?thesis using ih white "4.prems"(1) d by auto
    qed
  next
    case black
    then show ?thesis using "4.prems" "4.IH"(4) by simp
  qed
qed simp

lemma dfs_starts_sound:
  "dfs_starts n adj ss st = Some (Some c) \<Longrightarrow> dfs_inv adj st \<Longrightarrow> snd st = [] \<Longrightarrow> real_cycle adj c"
proof (induction n adj ss st rule: dfs_starts.induct)
  case (2 n adj s ss st)
  show ?case
  proof (cases "color_of st s = WHITE")
    case True
    then obtain r st1 where d: "dfs n adj s st = Some (r, st1)" using "2.prems"(1) by (auto split: option.splits)
    note so = dfs_sound(1) [OF d "2.prems"(2) True] 
    show ?thesis using so d True "2.prems" "2.IH"(1) [OF True d] by (cases r) auto
  next
    case False
    then show ?thesis using 2 by simp
  qed
qed simp

section \<open>The search always returns\<close>

definition whites :: "uuid set \<Rightarrow> dfs_state \<Rightarrow> uuid set" where
  "whites U st = {u \<in> U. color_of st u = WHITE}"

lemma whites_push: "node \<in> U \<Longrightarrow> whites U (dict_set node GRAY (fst st), stk) = whites U st - {node}"
  by (auto simp: whites_def color_of_def dict_get_or_def update_conv)

lemma whites_pop: "whites U (dict_set node BLACK (fst st), stk) \<subseteq> whites U st"
  by (auto simp: whites_def color_of_def dict_get_or_def update_conv split: if_splits)

lemma dfs_total:
  assumes fin: "finite U" and closed: "\<And>u. u \<in> U \<Longrightarrow> set (neighbours adj u) \<subseteq> U"
  shows "node \<in> U \<Longrightarrow> color_of st node = WHITE \<Longrightarrow> card (whites U st) \<le> n \<Longrightarrow>
      \<exists>r st'. dfs n adj node st = Some (r, st') \<and> whites U st' \<subseteq> whites U st"
    and "set es \<subseteq> U \<Longrightarrow> card (whites U st) \<le> n \<Longrightarrow>
      \<exists>r st'. dfs_edges n adj node es st = Some (r, st') \<and> whites U st' \<subseteq> whites U st"
  using closed
proof (induction n adj node st and n adj node es st rule: dfs_dfs_edges.induct)
  case (1 adj node st)
  have "node \<in> whites U st" using 1 by (simp add: whites_def)
  moreover have "finite (whites U st)" using fin by (simp add: whites_def)
  ultimately show ?case using 1 by (auto simp: card_gt_0_iff)
next
  case (2 n adj node st)
  let ?st = "(dict_set node GRAY (fst st), snd st @ [node])"
  have w: "whites U ?st = whites U st - {node}" using 2 by (simp add: whites_push)
  have "node \<in> whites U st" "finite (whites U st)" using 2 fin by (simp_all add: whites_def)
  then have "card (whites U ?st) \<le> n" using w 2(4) by simp
  then show ?case using "2.IH" 2(2,5) w by (fastforce simp: neighbours_def)
next
  case (3 n adj node st)
  then show ?case using whites_pop by simp
next
  case (4 n adj node nxt rest st)
  have finw: "finite (whites U x)" for x using fin by (simp add: whites_def)
  show ?case
  proof (cases "color_of st nxt = WHITE")
    case True
    then obtain r1 st1 where d: "dfs n adj nxt st = Some (r1, st1)" "whites U st1 \<subseteq> whites U st"
      using "4.IH"(2) 4(5-7) by auto
    show ?thesis
    proof (cases r1)
      case None
      have "card (whites U st1) \<le> n" using card_mono [OF finw d(2)] 4(6) by linarith
      then show ?thesis using "4.IH"(3) [of "(r1, st1)" r1 st1] True d None 4(5,7) by fastforce
    next
      case (Some c)
      then show ?thesis using True d by simp
    qed
  next
    case False
    then show ?thesis
      using "4.IH"(1,4) 4(5-7) by (cases "color_of st nxt"; cases st) (auto simp: Let_def)
  qed
qed

lemma dfs_starts_total:
  assumes "finite U" "\<And>u. u \<in> U \<Longrightarrow> set (neighbours adj u) \<subseteq> U" "set ss \<subseteq> U" "card (whites U st) \<le> n"
  shows "\<exists>r. dfs_starts n adj ss st = Some r"
  using assms(3,4)
proof (induction ss arbitrary: st)
  case (Cons s ss)
  show ?case
  proof (cases "color_of st s = WHITE")
    case True
    then obtain r st1 where d: "dfs n adj s st = Some (r, st1)" "whites U st1 \<subseteq> whites U st"
      using dfs_total(1) [OF assms(1,2), of s st n] Cons.prems by auto
    have "finite (whites U st)" using assms(1) by (simp add: whites_def)
    then have "card (whites U st1) \<le> n" using card_mono [OF _ d(2)] Cons.prems by fastforce
    then show ?thesis using Cons d True by (cases r) auto
  next
    case False
    then show ?thesis using Cons by simp
  qed
qed simp

lemma neighbours_nodes: "u \<in> set (nodes adj) \<Longrightarrow> set (neighbours adj u) \<subseteq> set (nodes adj)"
proof (cases "dict_get adj u")
  case (Some vs)
  then have "(u, vs) \<in> set adj" by (rule map_of_SomeD)
  then show ?thesis using Some by (auto simp: nodes_def neighbours_def dict_get_or_def)
qed (simp add: neighbours_def dict_get_or_def)

lemma initial_colors: "color_of (map (\<lambda>(u, _). (u, WHITE)) adj, stk) u = WHITE"
proof -
  have "map_of (map (\<lambda>(u, _). (u, WHITE)) adj) u = map_option (\<lambda>_. WHITE) (map_of adj u)"
    by (induction adj) auto
  then show ?thesis by (auto simp: color_of_def dict_get_or_def split: option.splits)
qed

lemma find_cycle_total: "\<exists>r. find_cycle adj = Some r"
proof -
  let ?U = "set (nodes adj)"
  have "card (whites ?U st) \<le> length (nodes adj)" for st
    using card_mono [of ?U "whites ?U st"] card_length [of "nodes adj"] by (auto simp: whites_def)
  then show ?thesis
    unfolding find_cycle_def
    by (intro dfs_starts_total [where U = ?U]) (use neighbours_nodes in \<open>auto simp: nodes_def\<close>)
qed

lemma dfs_inv_start: "dfs_inv adj (map (\<lambda>(u, _). (u, WHITE)) adj, [])"
  by (simp add: dfs_inv_def initial_colors)

section \<open>Counting errors\<close>

text \<open>The reference for the circuit breaker: the tool of a call is that of its latest start event,
  and the errors of a pair are the errored end events that resolve to it.\<close>

definition starts_call :: "uuid \<Rightarrow> event \<Rightarrow> bool" where
  "starts_call call e = (case e_body e of ToolCallStart _ _ _ _ c _ \<Rightarrow> c = Some call | _ \<Rightarrow> False)"

definition call_tool :: "event list \<Rightarrow> uuid \<Rightarrow> string" where
  "call_tool es call =
     (case filter (starts_call call) (rev es) of [] \<Rightarrow> ''<unknown>'' | e # _ \<Rightarrow> tool_name e)"

definition errored :: "event \<Rightarrow> bool" where
  "errored e = (case e_body e of ToolCallEnd _ _ status _ _ \<Rightarrow> status = ''error'' | _ \<Rightarrow> False)"

definition error_key :: "(uuid \<Rightarrow> string) \<Rightarrow> event \<Rightarrow> uuid \<times> string" where
  "error_key tool e = (case e_body e of ToolCallEnd agent call _ _ _ \<Rightarrow> (agent, tool call) | _ \<Rightarrow> ([], []))"

definition pair_errors :: "event list \<Rightarrow> uuid \<Rightarrow> string \<Rightarrow> nat" where
  "pair_errors es agent tool =
     length (filter (\<lambda>e. errored e \<and> error_key (call_tool es) e = (agent, tool)) es)"

lemma note_call_get:
  "dict_get (note_call m e) call = (if starts_call call e then Some (tool_name e) else dict_get m call)"
  by (auto simp: note_call_def starts_call_def tool_name_def update_conv split: event_body.splits option.splits)

lemma note_calls_tool: "dict_get_or ''<unknown>'' (foldl note_call [] es) call = call_tool es call"
  by (induction es rule: rev_induct) (simp_all add: call_tool_def dict_get_or_def note_call_get)

definition tally :: "nat \<Rightarrow> nat option" where
  "tally n = (if n = 0 then None else Some n)"

lemma count_error_alt:
  "count_error calls acc e =
     (if errored e then
        (let key = error_key (dict_get_or ''<unknown>'' calls) e in
         (dict_set key (dict_get_or 0 (fst acc) key + 1) (fst acc), dict_set key (e_event_id e) (snd acc)))
      else acc)"
  by (auto simp: count_error_def errored_def error_key_def Let_def split: event_body.splits)

lemma count_errors_get:
  "dict_get (fst (foldl (count_error calls) ([], []) es)) k =
     tally (length (filter (\<lambda>e. errored e \<and> error_key (dict_get_or ''<unknown>'' calls) e = k) es))"
proof (induction es rule: rev_induct)
  case (snoc e es)
  have "dict_get_or 0 d j = (case dict_get d j of None \<Rightarrow> 0 | Some n \<Rightarrow> n)"
    for d :: "(uuid \<times> string, nat) pydict" and j
    by (simp add: dict_get_or_def)
  with snoc show ?case by (auto simp: count_error_alt Let_def dict_get_set tally_def)
qed (simp add: tally_def)

lemma count_errors_wf: "wf_dict (fst (foldl (count_error calls) ([], []) es))"
  by (induction es rule: rev_induct) (auto simp: count_error_alt Let_def)

lemma error_counts_get: "dict_get (fst (error_counts tr)) (a, t) = tally (pair_errors (tr_events tr) a t)"
  unfolding error_counts_def count_errors_get pair_errors_def note_calls_tool ..

lemma error_counts_wf: "wf_dict (fst (error_counts tr))"
  by (simp add: error_counts_def count_errors_wf)

lemma error_counts_empty: "fst (error_counts tr) = [] \<longleftrightarrow> (\<forall>e \<in> set (tr_events tr). \<not> errored e)"
proof
  assume "fst (error_counts tr) = []"
  then have "tally (pair_errors (tr_events tr) a t) = None" for a t
    using error_counts_get [of tr a t] by simp
  then have "filter (\<lambda>e. errored e \<and> error_key (call_tool (tr_events tr)) e = (a, t)) (tr_events tr) = []" for a t
    unfolding tally_def pair_errors_def by (metis length_0_conv option.distinct(1))
  then show "\<forall>e \<in> set (tr_events tr). \<not> errored e" by (auto simp: filter_empty_conv) (metis surj_pair)
next
  assume none: "\<forall>e \<in> set (tr_events tr). \<not> errored e"
  have "dict_get (fst (error_counts tr)) k = None" for k
    using none error_counts_get [of tr "fst k" "snd k"] by (auto simp: pair_errors_def tally_def)
  then show "fst (error_counts tr) = []" 
    by (metis map_of_eq_None_iff empty_iff fst_conv list.set_intros(1) map_of.simps(2) neq_Nil_conv option.distinct(1) fun_upd_same)
qed

lemma asi08_evidence_empty:
  "asi08_evidence (error_counts tr) = [] \<longleftrightarrow> (\<forall>a t. pair_errors (tr_events tr) a t \<le> ERROR_K)"
proof -
  have "asi08_evidence (error_counts tr) = [] \<longleftrightarrow>
      (\<forall>a t n. ((a, t), n) \<in> set (fst (error_counts tr)) \<longrightarrow> n \<le> ERROR_K)"
    by (auto simp: asi08_evidence_def concat_eq_Nil_conv not_less split: if_splits)
  also have "\<dots> \<longleftrightarrow> (\<forall>a t n. tally (pair_errors (tr_events tr) a t) = Some n \<longrightarrow> n \<le> ERROR_K)"
    using map_of_eq_Some_iff [OF error_counts_wf [of tr, unfolded wf_dict_def]] by (simp flip: error_counts_get)
  also have "\<dots> \<longleftrightarrow> (\<forall>a t. pair_errors (tr_events tr) a t \<le> ERROR_K)"
    by (simp add: tally_def) (metis le0 not_gr_zero)
  finally show ?thesis .
qed

section \<open>Properties\<close>

definition missed_spans :: "event list" where
  "missed_spans =
     map (\<lambda>(s, p). \<lparr> e_event_id = s, e_run_id = ''r'', e_tenant_id = ''t'', e_span_id = s,
        e_parent_span_id = p, e_ts = 0, e_pid = None, e_schema_version = 1,
        e_body = ToolCallStart ''a'' ''lookup'' [] None None None \<rparr>)
       [(''x'', None), (''z'', Some ''x''), (''y'', Some ''x''), (''z'', Some ''y''), (''x'', Some ''z'')]"

text \<open>C13. The cycle search of the tool-misuse detector returns on every span graph, and what it
  reports is a real cycle: at least three distinct spans, each the recorded child of the one before,
  and the first one a child of the last.\<close>

theorem find_cycle_sound:
  "case find_cycle adj of
     None \<Rightarrow> False
   | Some None \<Rightarrow> True
   | Some (Some c) \<Rightarrow> 3 \<le> length c \<and> distinct c \<and> successively (edge adj) c \<and> edge adj (last c) (hd c)"
proof -
  obtain r where r: "find_cycle adj = Some r" using find_cycle_total by blast
  have "real_cycle adj c" if "r = Some c" for c
    using r that dfs_starts_sound dfs_inv_start unfolding find_cycle_def by (metis snd_conv)
  then show ?thesis using r by (auto simp: real_cycle_def MIN_CYCLE_DEPTH_def split: option.split)
qed

text \<open>The search is not complete: a back edge that closes too short a cycle is dropped and its
  node blackened, so the tool calls below, whose span graph has the cycle \<open>x \<rightarrow> y \<rightarrow> z \<rightarrow> x\<close> of
  depth three, are reported as free of cycles.\<close>

theorem find_cycle_incomplete:
  "real_cycle (foldl add_span [] missed_spans) [''x'', ''y'', ''z'']
     \<and> find_cycle (foldl add_span [] missed_spans) = Some None"
  by code_simp

text \<open>The circuit breaker of the cascading-failure detector implements its specification: it is
  silent exactly when no tool call errored, and otherwise reports a violation exactly when some
  agent has more than five errored calls of one tool, where the tool of a call is resolved through
  the latest start event with its identifier.\<close>

theorem asi08_circuit_breaker:
  "map vd_result (asi08_run env tr) =
     (if filter errored (tr_events tr) = [] then []
      else if \<exists>agent tool. 5 < pair_errors (tr_events tr) agent tool then [VIOLATION] else [OK])"
proof -
  have e: "filter errored (tr_events tr) = [] \<longleftrightarrow> fst (error_counts tr) = []"
    by (simp add: error_counts_empty filter_empty_conv)
  have "asi08_evidence (error_counts tr) = [] \<longleftrightarrow> \<not> (\<exists>a t. 5 < pair_errors (tr_events tr) a t)"
    by (simp add: asi08_evidence_empty ERROR_K_def not_less)
  then show ?thesis
    unfolding e by (simp add: asi08_run_def evidence_verdict_def Let_def)
qed

end
