(* ===== verification/Ipc.thy ===== *)
theory Ipc
  imports Sha256 "HOL-Library.Sublist"
begin

text \<open>
  The IPC control plane below the dispatcher: the length-prefixed frames of \<^verbatim>\<open>auditor/ipc/protocol.py\<close>
  and the identity a peer certificate carries (\<^verbatim>\<open>auditor/ipc/auth.py\<close>, with the name that
  \<^verbatim>\<open>auditor/auth/ca.py\<close> mints). A stream reader is the bytes it will deliver before the end of the
  stream; the verified certificate is the list of its alternative names.
\<close>

unbundle bit_operations_syntax

section \<open>Frames\<close>

definition LEN_size :: nat where
  "LEN_size = 4"

definition MAX_FRAME_BYTES :: nat where
  "MAX_FRAME_BYTES = 16 * 1024 * 1024"

datatype ipc_error = FrameError | IncompleteReadError

text \<open>\<^verbatim>\<open>struct.Struct(">I")\<close>: \<^verbatim>\<open>pack\<close> of a number in range and \<^verbatim>\<open>unpack\<close> of four bytes.\<close>

definition LEN_pack :: "nat \<Rightarrow> bytes" where
  "LEN_pack n = bytes32 (of_nat n)"

fun LEN_unpack :: "bytes \<Rightarrow> nat" where
  "LEN_unpack [a, b, c, d] = unat (be32 a b c d)"
| "LEN_unpack _ = 0"

definition encode_frame :: "bytes \<Rightarrow> ipc_error + bytes" where
  "encode_frame payload =
     (if MAX_FRAME_BYTES < length payload then Inl FrameError
      else Inr (LEN_pack (length payload) @ payload))"

definition decode_frame :: "bytes \<Rightarrow> ipc_error + bytes option \<times> bytes" where
  "decode_frame buf =
     (if length buf < LEN_size then Inr (None, buf)
      else
        (let len = LEN_unpack (take LEN_size buf); endp = LEN_size + len in
         if MAX_FRAME_BYTES < len then Inl FrameError
         else if length buf < endp then Inr (None, buf)
         else Inr (Some (take len (drop LEN_size buf)), drop endp buf)))"

definition readexactly :: "nat \<Rightarrow> bytes \<Rightarrow> ipc_error + bytes \<times> bytes" where
  "readexactly n reader = (if length reader < n then Inl IncompleteReadError else Inr (take n reader, drop n reader))"

definition read_frame :: "bytes \<Rightarrow> ipc_error + bytes \<times> bytes" where
  "read_frame reader =
     (case readexactly LEN_size reader of
        Inl e \<Rightarrow> Inl e
      | Inr (header, reader') \<Rightarrow>
          (let len = LEN_unpack header in
           if MAX_FRAME_BYTES < len then Inl FrameError else readexactly len reader'))"

text \<open>\<^verbatim>\<open>write_frame\<close> appends to what the peer will read.\<close>

definition write_frame :: "bytes \<Rightarrow> bytes \<Rightarrow> ipc_error + bytes" where
  "write_frame writer payload = map_sum id (\<lambda>f. writer @ f) (encode_frame payload)"

text \<open>The read loop of a connection: payloads in order until the first error.\<close>

function read_frames :: "bytes \<Rightarrow> bytes list \<times> ipc_error" where
  "read_frames reader =
     (case read_frame reader of
        Inl e \<Rightarrow> ([], e)
      | Inr (raw, reader') \<Rightarrow> (let (rest, e) = read_frames reader' in (raw # rest, e)))"
  by pat_completeness auto

termination
proof (relation "measure length")
  fix reader x raw reader'
  assume "read_frame reader = Inr x" "(raw, reader') = x"
  then show "(reader', reader) \<in> measure length"
    by (auto simp: read_frame_def readexactly_def LEN_size_def Let_def split: sum.splits if_splits)
qed simp

declare read_frames.simps [simp del]

section \<open>Peer identity\<close>

definition SAN_SCHEME :: string where
  "SAN_SCHEME = ''x-auditor''"

definition encode_san :: "string \<Rightarrow> string \<Rightarrow> string \<Rightarrow> string" where
  "encode_san role run_id tenant_id =
     SAN_SCHEME @ '':role='' @ role @ '';run_id='' @ run_id @ '';tenant_id='' @ tenant_id"

record peer_identity =
  pi_role :: string
  pi_run_id :: string
  pi_tenant_id :: string

text \<open>\<^verbatim>\<open>s.split(c)\<close> on a single character.\<close>

fun py_split :: "char \<Rightarrow> string \<Rightarrow> string list" where
  "py_split c [] = [[]]"
| "py_split c (x # s) =
     (if x = c then [] # py_split c s
      else case py_split c s of [] \<Rightarrow> [[x]] | w # ws \<Rightarrow> (x # w) # ws)"

definition san_fields :: "string \<Rightarrow> (string, string) pydict" where
  "san_fields body =
     foldl (\<lambda>fields part.
        if CHR ''='' \<in> set part
        then dict_set (before_char (CHR ''='') part) (after_char (CHR ''='') part) fields
        else fields) [] (py_split (CHR '';'') body)"

fun identity_of_names :: "(string \<times> string) list \<Rightarrow> peer_identity option" where
  "identity_of_names [] = None"
| "identity_of_names ((san_type, san_value) # rest) =
     (if san_type = ''URI'' \<and> startswith san_value (SAN_SCHEME @ '':'') then
        (let fields = san_fields (drop (length SAN_SCHEME + 1) san_value) in
         case (dict_get fields ''role'', dict_get fields ''run_id'', dict_get fields ''tenant_id'') of
           (Some r, Some u, Some t) \<Rightarrow> Some \<lparr> pi_role = r, pi_run_id = u, pi_tenant_id = t \<rparr>
         | _ \<Rightarrow> identity_of_names rest)
      else identity_of_names rest)"

text \<open>\<^verbatim>\<open>parse_peer_identity\<close>: the argument is \<open>None\<close> without TLS, and the certificate's
  \<^verbatim>\<open>subjectAltName\<close> entries otherwise; an empty certificate has none.\<close>

definition parse_peer_identity :: "(string \<times> string) list option \<Rightarrow> peer_identity option" where
  "parse_peer_identity ssl = (case ssl of None \<Rightarrow> None | Some names \<Rightarrow> identity_of_names names)"

text \<open>The names of a minted leaf certificate.\<close>

definition leaf_names :: "string \<Rightarrow> string \<Rightarrow> string \<Rightarrow> string \<Rightarrow> (string \<times> string) list" where
  "leaf_names role run_id tenant_id hostname =
     [(''DNS'', hostname), (''URI'', encode_san role run_id tenant_id)]"

section \<open>Length prefixes\<close>

lemma length_LEN_pack [simp]: "length (LEN_pack n) = LEN_size"
  by (simp add: LEN_pack_def bytes32_def LEN_size_def)

lemma be32_bytes:
  "be32 (ucast (drop_bit 24 w)) (ucast (drop_bit 16 w)) (ucast (drop_bit 8 w)) (ucast w) = w"
proof (rule bit_word_eqI)
  fix n assume n: "n < LENGTH(32)"
  then consider "n < 8" | "8 \<le> n" "n < 16" | "16 \<le> n" "n < 24" | "24 \<le> n" by linarith
  then show "bit (be32 (ucast (drop_bit 24 w)) (ucast (drop_bit 16 w)) (ucast (drop_bit 8 w)) (ucast w)) n = bit w n"
    using n by cases (auto simp: be32_def bit_or_iff bit_push_bit_iff bit_ucast_iff bit_drop_bit_eq)
qed

lemma LEN_roundtrip: "n \<le> MAX_FRAME_BYTES \<Longrightarrow> LEN_unpack (LEN_pack n) = n"
  by (simp add: LEN_pack_def bytes32_def be32_bytes unat_of_nat MAX_FRAME_BYTES_def)

lemma take_LEN_pack [simp]: "take LEN_size (LEN_pack n @ xs) = LEN_pack n" "drop LEN_size (LEN_pack n @ xs) = xs"
  by simp_all

lemma read_encoded:
  assumes "length p \<le> MAX_FRAME_BYTES"
  shows "read_frame (LEN_pack (length p) @ p @ rest) = Inr (p, rest)"
  using assms by (simp add: read_frame_def readexactly_def Let_def LEN_roundtrip)

lemma decode_encoded:
  assumes "length p \<le> MAX_FRAME_BYTES"
  shows "decode_frame (LEN_pack (length p) @ p @ rest) = Inr (Some p, rest)"
  using assms by (simp add: decode_frame_def Let_def LEN_roundtrip flip: append_assoc)

text \<open>The buffered decoder agrees with the stream reader: it has a frame exactly when the reader
  would return one, and waits exactly when the reader would find the stream too short.\<close>

lemma decode_reads:
  "decode_frame buf =
     (case read_frame buf of
        Inr (p, rest) \<Rightarrow> Inr (Some p, rest)
      | Inl FrameError \<Rightarrow> Inl FrameError
      | Inl IncompleteReadError \<Rightarrow> Inr (None, buf))"
  by (auto simp: decode_frame_def read_frame_def readexactly_def Let_def add.commute
      split: sum.splits ipc_error.splits)

lemma encode_Inr_iff: "encode_frame p = Inr f \<longleftrightarrow> length p \<le> MAX_FRAME_BYTES \<and> f = LEN_pack (length p) @ p"
  by (auto simp: encode_frame_def)

section \<open>Names\<close>

lemma py_split_plain: "c \<notin> set s \<Longrightarrow> py_split c s = [s]"
  by (induction s) auto

lemma py_split_sep: "c \<notin> set s \<Longrightarrow> py_split c (s @ c # t) = s # py_split c t"
  by (induction s) auto

lemma split_key: "CHR ''='' \<notin> set k \<Longrightarrow>
    before_char (CHR ''='') (k @ CHR ''='' # v) = k \<and> after_char (CHR ''='') (k @ CHR ''='' # v) = v"
  by (induction k) (auto simp: before_char_def after_char_def)

lemma san_fields_encoded:
  assumes "CHR '';'' \<notin> set r" "CHR '';'' \<notin> set u" "CHR '';'' \<notin> set t"
  shows "san_fields (''role='' @ r @ '';run_id='' @ u @ '';tenant_id='' @ t) =
    [(''role'', r), (''run_id'', u), (''tenant_id'', t)]"
proof -
  have "py_split (CHR '';'') (''role='' @ r @ '';run_id='' @ u @ '';tenant_id='' @ t) =
      [''role'' @ CHR ''='' # r, ''run_id'' @ CHR ''='' # u, ''tenant_id'' @ CHR ''='' # t]"
    using py_split_sep [of "CHR '';''" "''role='' @ r" "''run_id='' @ u @ '';tenant_id='' @ t"]
      py_split_sep [of "CHR '';''" "''run_id='' @ u" "''tenant_id='' @ t"]
      py_split_plain [of "CHR '';''" "''tenant_id='' @ t"] assms by simp
  then show ?thesis
    unfolding san_fields_def
    using split_key [of "''role''" r] split_key [of "''run_id''" u] split_key [of "''tenant_id''" t] by simp
qed

lemma leaf_identity:
  assumes "CHR '';'' \<notin> set r" "CHR '';'' \<notin> set u" "CHR '';'' \<notin> set t"
  shows "parse_peer_identity (Some (leaf_names r u t host)) = Some \<lparr> pi_role = r, pi_run_id = u, pi_tenant_id = t \<rparr>"
  using san_fields_encoded [OF assms]
  by (simp add: parse_peer_identity_def leaf_names_def encode_san_def SAN_SCHEME_def)

section \<open>Properties\<close>

text \<open>C19. Framing round-trips: payloads within the cap are all accepted, and a reader of the
  concatenated frames returns the same payloads in the same order, whatever bytes of an incomplete
  frame follow. The buffered decoder agrees with the stream reader on every buffer: it returns a
  frame exactly when the reader would, and waits exactly when the stream would be too short.\<close>

theorem frames_roundtrip:
  assumes "list_all (\<lambda>p. length p \<le> MAX_FRAME_BYTES) ps" and "read_frame tail = Inl IncompleteReadError"
  shows "(\<exists>fs. traverse encode_frame ps = Inr fs \<and> read_frames (concat fs @ tail) = (ps, IncompleteReadError)) \<and>
    (\<forall>buf. decode_frame buf =
       (case read_frame buf of
          Inr (p, rest) \<Rightarrow> Inr (Some p, rest)
        | Inl FrameError \<Rightarrow> Inl FrameError
        | Inl IncompleteReadError \<Rightarrow> Inr (None, buf)))"
proof
  let ?fs = "map (\<lambda>p. LEN_pack (length p) @ p) ps"
  have "traverse encode_frame ps = Inr ?fs"
    using assms(1) by (intro traverse_total) (auto simp: encode_Inr_iff list_all_iff)
  moreover have "read_frames (concat ?fs @ tail) = (ps, IncompleteReadError)"
    using assms by (induction ps) (simp_all add: read_frames.simps read_encoded)
  ultimately show "\<exists>fs. traverse encode_frame ps = Inr fs \<and> read_frames (concat fs @ tail) = (ps, IncompleteReadError)"
    by blast
qed (simp add: decode_reads)

theorem frames_roundtrip_witness:
  "\<exists>fs. traverse encode_frame [[1, 2], []] = Inr fs \<and>
     read_frames (concat fs @ [0, 0]) = ([[1, 2], []], IncompleteReadError)"
  using frames_roundtrip [of "[[1, 2], []]" "[0, 0]"]
  by (simp add: MAX_FRAME_BYTES_def read_frame_def readexactly_def LEN_size_def)

end
