(* ===== verification/Gate.thy ===== *)
theory Gate
  imports Events
begin

text \<open>
  The inline gate, \<^verbatim>\<open>auditor/inline_gate/\<close>: the client of the policy engine with its cache
  (\<^verbatim>\<open>policy_engine.py\<close>), the tool budget with its Redis script (\<^verbatim>\<open>budget.py\<close>), the scan of outbound
  content (\<^verbatim>\<open>pii_scanner.py\<close>) and their combination (\<^verbatim>\<open>decide.py\<close>). The policy server, the Redis
  commands and the entity analyzer are arguments; an exception is its class, and the text of one
  comes from an argument.
\<close>

section \<open>Votes\<close>

text \<open>The dictionary a check returns: its decision, its reasons and its other entries.\<close>

record gate_vote =
  gv_decision :: json
  gv_reasons :: "json list"
  gv_extra :: "(string, json) pydict"

definition mk_vote :: "string \<Rightarrow> string list \<Rightarrow> (string, json) pydict \<Rightarrow> gate_vote" where
  "mk_vote d rs x = \<lparr> gv_decision = JStr d, gv_reasons = map JStr rs, gv_extra = x \<rparr>"

record gate_outcome =
  go_decision :: json
  go_reasons :: "json list"
  go_votes :: "(string, gate_vote) pydict"
  go_latency_ms :: int

section \<open>The policy client\<close>

definition CACHE_MAX :: nat where
  "CACHE_MAX = 10000"

type_synonym opa_cache = "(string, gate_vote \<times> rat) pydict"

definition json_get :: "json \<Rightarrow> string \<Rightarrow> json \<Rightarrow> py_error + json" where
  "json_get j k dflt = (case j of JObj d \<Rightarrow> Inr (dict_get_or dflt d k) | _ \<Rightarrow> Inl AttributeError)"

text \<open>\<^verbatim>\<open>list(x)\<close>.\<close>

definition json_list :: "json \<Rightarrow> py_error + json list" where
  "json_list j =
     (case j of JList xs \<Rightarrow> Inr xs | JStr s \<Rightarrow> Inr (map (\<lambda>c. JStr [c]) s) | JObj d \<Rightarrow> Inr (map (JStr \<circ> fst) d)
      | _ \<Rightarrow> Inl TypeError)"

definition opa_decision :: "json \<Rightarrow> py_error + gate_vote" where
  "opa_decision body =
     (case json_get body ''result'' JNull of
        Inl e \<Rightarrow> Inl e
      | Inr result \<Rightarrow>
          if \<not> json_truthy result then Inr (mk_vote ''ALLOW'' [] [])
          else (case json_get result ''decision'' (JStr ''ALLOW'') of
             Inl e \<Rightarrow> Inl e
           | Inr d \<Rightarrow>
               (case json_get result ''reasons'' (JList []) of
                  Inl e \<Rightarrow> Inl e
                | Inr rs \<Rightarrow> map_sum id (\<lambda>rs. \<lparr> gv_decision = d, gv_reasons = rs, gv_extra = [] \<rparr>) (json_list rs))))"

text \<open>\<^verbatim>\<open>evaluate\<close>: \<open>post\<close> is the exchange with the server, an exception or the JSON body.\<close>

definition opa_miss ::
  "(json \<Rightarrow> py_error + json) \<Rightarrow> rat \<Rightarrow> rat \<Rightarrow> opa_cache \<Rightarrow> json \<Rightarrow> (py_error + gate_vote) \<times> opa_cache" where
  "opa_miss post ttl now cache event_input =
     (case post event_input of
        Inl e \<Rightarrow> (Inl e, cache)
      | Inr body \<Rightarrow>
          (case opa_decision body of
             Inl e \<Rightarrow> (Inl e, cache)
           | Inr d \<Rightarrow>
               (Inr d, dict_set (json_dumps_default event_input) (d, fadd now ttl)
                  (if CACHE_MAX \<le> length cache then [] else cache))))"

definition opa_evaluate ::
  "(json \<Rightarrow> py_error + json) \<Rightarrow> rat \<Rightarrow> rat \<Rightarrow> opa_cache \<Rightarrow> json \<Rightarrow> (py_error + gate_vote) \<times> opa_cache" where
  "opa_evaluate post ttl now cache event_input =
     (case dict_get cache (json_dumps_default event_input) of
        Some (d, deadline) \<Rightarrow>
          if now < deadline then (Inr d, cache) else opa_miss post ttl now cache event_input
      | None \<Rightarrow> opa_miss post ttl now cache event_input)"

text \<open>\<^verbatim>\<open>load_policy\<close>: \<open>put\<close> is the outcome of the upload.\<close>

definition opa_load_policy :: "(py_error + unit) \<Rightarrow> opa_cache \<Rightarrow> (py_error + unit) \<times> opa_cache" where
  "opa_load_policy put cache = (case put of Inl e \<Rightarrow> (Inl e, cache) | Inr _ \<Rightarrow> (Inr (), []))"

section \<open>The tool budget\<close>

definition MAX_CALLS_PER_RUN :: int where
  "MAX_CALLS_PER_RUN = 200"

definition MAX_SAME_TOOL_STREAK :: int where
  "MAX_SAME_TOOL_STREAK = 50"

definition BURST_LIMIT :: int where
  "BURST_LIMIT = 20"

definition BUDGET_TTL :: nat where
  "BUDGET_TTL = 3600"

definition BURST_TTL :: nat where
  "BURST_TTL = 10"

text \<open>The Redis commands of the script, on a server state.\<close>

record 's redis_ops =
  rd_get :: "'s \<Rightarrow> string \<Rightarrow> string option"
  rd_incr :: "'s \<Rightarrow> string \<Rightarrow> int \<times> 's"
  rd_set :: "'s \<Rightarrow> string \<Rightarrow> string \<Rightarrow> 's"
  rd_expire :: "'s \<Rightarrow> string \<Rightarrow> nat \<Rightarrow> 's"

record budget_keys =
  bk_total :: string
  bk_last :: string
  bk_streak :: string
  bk_burst :: string

definition keys_of_run :: "string \<Rightarrow> budget_keys" where
  "keys_of_run run_id =
     \<lparr> bk_total = ''budget:'' @ run_id @ '':total'', bk_last = ''budget:'' @ run_id @ '':last_tool'',
       bk_streak = ''budget:'' @ run_id @ '':streak'', bk_burst = ''budget:'' @ run_id @ '':burst'' \<rparr>"

definition budget_script :: "'s redis_ops \<Rightarrow> budget_keys \<Rightarrow> string \<Rightarrow> 's \<Rightarrow> (int \<times> int \<times> int) \<times> 's" where
  "budget_script R ks tool s =
     (let i = rd_incr R s (bk_total ks); s1 = rd_expire R (snd i) (bk_total ks) BUDGET_TTL;
          j = (if rd_get R s1 (bk_last ks) = Some tool then rd_incr R s1 (bk_streak ks)
               else (1, rd_set R (rd_set R s1 (bk_last ks) tool) (bk_streak ks) ''1''));
          s2 = rd_expire R (rd_expire R (snd j) (bk_last ks) BUDGET_TTL) (bk_streak ks) BUDGET_TTL;
          b = rd_incr R s2 (bk_burst ks);
          s3 = (if fst b = 1 then rd_expire R (snd b) (bk_burst ks) BURST_TTL else snd b)
      in ((fst i, fst j, fst b), s3))"

definition budget_vote :: "string \<Rightarrow> int \<Rightarrow> int \<Rightarrow> int \<Rightarrow> gate_vote" where
  "budget_vote tool tot streak burst =
     (let extra = [(''total'', JInt tot), (''streak'', JInt streak), (''burst'', JInt burst)] in
      if MAX_CALLS_PER_RUN < tot then
        mk_vote ''DENY'' [''run tool budget exceeded ('' @ str_int tot @ '' > '' @ str_int MAX_CALLS_PER_RUN @ '')''] extra
      else if MAX_SAME_TOOL_STREAK < streak then
        mk_vote ''DENY'' [''tool '' @ [CHR 0x27] @ tool @ [CHR 0x27] @ '' called '' @ str_int streak @
          ''x in a row (loop > '' @ str_int MAX_SAME_TOOL_STREAK @ '')''] extra
      else if BURST_LIMIT < burst then
        mk_vote ''CONFIRM'' [''burst '' @ str_int burst @ ''/'' @ str_nat BURST_TTL @ ''s exceeds '' @
          str_int BURST_LIMIT @ '' (throttle)''] extra
      else mk_vote ''ALLOW'' [] extra)"

definition budget_check :: "'s redis_ops \<Rightarrow> string \<Rightarrow> string \<Rightarrow> 's \<Rightarrow> gate_vote \<times> 's" where
  "budget_check R run_id tool s =
     (let ((tot, streak, burst), s') = budget_script R (keys_of_run run_id) tool s
      in (budget_vote tool tot streak burst, s'))"

section \<open>Outbound content\<close>

definition CRITICAL_ENTITIES :: "string list" where
  "CRITICAL_ENTITIES = [''PRIVATE_KEY'', ''AWS_ACCESS_KEY_ID'', ''AWS_SECRET_ACCESS_KEY'', ''GENERIC_API_KEY'']"

definition HIGH_ENTITIES :: "string list" where
  "HIGH_ENTITIES = [''US_SSN'', ''CREDIT_CARD'', ''US_PASSPORT'']"

definition MEDIUM_ENTITIES :: "string list" where
  "MEDIUM_ENTITIES = [''EMAIL_ADDRESS'', ''PHONE_NUMBER'', ''IP_ADDRESS'']"

text \<open>\<open>analyze entities content\<close> is the analyzer's list of entity types, or the exception it raises.\<close>

definition pii_scan :: "(string list \<Rightarrow> string \<Rightarrow> py_error + string list) \<Rightarrow> string \<Rightarrow> py_error + string list" where
  "pii_scan analyze content =
     (if content = [] then Inr []
      else analyze (sort (CRITICAL_ENTITIES @ HIGH_ENTITIES @ MEDIUM_ENTITIES)) content)"

definition sorted_in :: "string list \<Rightarrow> string list \<Rightarrow> string list" where
  "sorted_in types wanted = sort (remdups (filter (\<lambda>t. t \<in> set wanted) types))"

definition strs_repr :: "string list \<Rightarrow> string" where
  "strs_repr xs = json_repr (JList (map JStr xs))"

definition outbound_vote :: "bool \<Rightarrow> string list \<Rightarrow> gate_vote" where
  "outbound_vote allowlisted_dest types =
     (let critical = sorted_in types CRITICAL_ENTITIES; high = sorted_in types HIGH_ENTITIES;
          extra = [(''entities'', JList (map JStr (sort (remdups types))))]
      in if critical \<noteq> [] then mk_vote ''DENY'' [''secret in outbound payload: '' @ strs_repr critical] extra
         else if high \<noteq> [] then
           (if allowlisted_dest then
              mk_vote ''CONFIRM'' [''PII to allowlisted destination: '' @ strs_repr high] extra
            else mk_vote ''DENY'' [''PII to non-allowlisted destination: '' @ strs_repr high] extra)
         else mk_vote ''ALLOW'' [] extra)"

definition evaluate_outbound ::
  "(string list \<Rightarrow> string \<Rightarrow> py_error + string list) \<Rightarrow> bool \<Rightarrow> string \<Rightarrow> py_error + gate_vote" where
  "evaluate_outbound analyze allowlisted_dest content =
     map_sum id (outbound_vote allowlisted_dest) (pii_scan analyze content)"

section \<open>The combination\<close>

type_synonym event_dict = "(string, json) pydict"

definition ev_get :: "event_dict \<Rightarrow> string \<Rightarrow> json" where
  "ev_get event k = dict_get_or JNull event k"

definition tool_args_of :: "event_dict \<Rightarrow> json" where
  "tool_args_of event = (if json_truthy (ev_get event ''tool_args'') then ev_get event ''tool_args'' else JObj [])"

text \<open>\<^verbatim>\<open>x or y\<close>, where evaluating \<^verbatim>\<open>y\<close> may raise.\<close>

definition json_or :: "json \<Rightarrow> py_error + json \<Rightarrow> py_error + json" where
  "json_or x y = (if json_truthy x then Inr x else y)"

definition opa_input :: "event_dict \<Rightarrow> py_error + event_dict" where
  "opa_input event =
     (let args = tool_args_of event in
      case json_or (ev_get event ''path'') (json_get args ''path'' JNull) of
        Inl e \<Rightarrow> Inl e
      | Inr path \<Rightarrow>
          (case (if json_truthy (ev_get event ''dest'') then Inr (ev_get event ''dest'')
                 else case json_get args ''url'' JNull of
                   Inl e \<Rightarrow> Inl e | Inr url \<Rightarrow> json_or url (json_get args ''host'' JNull)) of
             Inl e \<Rightarrow> Inl e
           | Inr dest \<Rightarrow>
               Inr (filter (\<lambda>(k, v). v \<noteq> JNull)
                 [(''event_type'', ev_get event ''event_type''), (''tool_name'', ev_get event ''tool_name''),
                  (''tool_args'', args), (''declared_purpose'', ev_get event ''declared_purpose''),
                  (''path'', path), (''dest'', dest)])))"

definition OUTBOUND_TOOLS :: "string list" where
  "OUTBOUND_TOOLS = [''send_email'', ''http_post'']"

text \<open>\<^verbatim>\<open>_SEVERITY[d]\<close>: an unknown decision raises, and so does an unhashable one.\<close>

definition gate_severity :: "json \<Rightarrow> py_error + nat" where
  "gate_severity d =
     (case d of
        JStr s \<Rightarrow> if s = ''ALLOW'' then Inr 0 else if s = ''CONFIRM'' then Inr 1 else if s = ''DENY'' then Inr 2 else Inl KeyError
      | JList _ \<Rightarrow> Inl TypeError
      | JObj _ \<Rightarrow> Inl TypeError
      | _ \<Rightarrow> Inl KeyError)"

text \<open>The three collaborators as the code calls them; the policy client and the budget keep state.\<close>

record ('o, 'b) gate_env =
  ge_opa :: "'o \<Rightarrow> json \<Rightarrow> (py_error + gate_vote) \<times> 'o"
  ge_budget :: "'b \<Rightarrow> string \<Rightarrow> json \<Rightarrow> (py_error + gate_vote) \<times> 'b"
  ge_pii :: "string \<Rightarrow> py_error + gate_vote"
  ge_exc_text :: "py_error \<Rightarrow> string"
  ge_latency :: int

definition opa_vote :: "('o, 'b) gate_env \<Rightarrow> event_dict \<Rightarrow> 'o \<Rightarrow> gate_vote \<times> 'o" where
  "opa_vote E event o0 =
     (let failed = (\<lambda>e. mk_vote ''DENY'' [''policy engine unavailable: '' @ ge_exc_text E e] []) in
      case opa_input event of
        Inl e \<Rightarrow> (failed e, o0)
      | Inr inp \<Rightarrow>
          (case ge_opa E o0 (JObj inp) of
             (Inl e, o1) \<Rightarrow> (failed e, o1)
           | (Inr v, o1) \<Rightarrow> (v, o1)))"

definition is_tool_start :: "event_dict \<Rightarrow> bool" where
  "is_tool_start event = (ev_get event ''event_type'' = JStr ''tool_call.start'')"

definition budget_stage ::
  "('o, 'b) gate_env \<Rightarrow> string \<Rightarrow> event_dict \<Rightarrow> 'b \<Rightarrow> (py_error + (string, gate_vote) pydict) \<times> 'b" where
  "budget_stage E run_id event b0 =
     (let tool_name = ev_get event ''tool_name'' in
      if is_tool_start event \<and> json_truthy tool_name
      then (let (r, b1) = ge_budget E b0 run_id tool_name in (map_sum id (\<lambda>v. [(''budget'', v)]) r, b1))
      else (Inr [], b0))"

text \<open>\<^verbatim>\<open>tool_name in _OUTBOUND_TOOLS\<close> on a set: an unhashable name raises.\<close>

definition outbound_tool :: "json \<Rightarrow> py_error + bool" where
  "outbound_tool j =
     (case j of JStr s \<Rightarrow> Inr (s \<in> set OUTBOUND_TOOLS) | JList _ \<Rightarrow> Inl TypeError | JObj _ \<Rightarrow> Inl TypeError
      | _ \<Rightarrow> Inr False)"

definition outbound_text :: "event_dict \<Rightarrow> py_error + string" where
  "outbound_text event =
     (case tool_args_of event of
        JObj d \<Rightarrow> Inr (py_join '' '' (map (\<lambda>(k, v). json_str v) d))
      | _ \<Rightarrow> Inl AttributeError)"

definition pii_stage :: "('o, 'b) gate_env \<Rightarrow> event_dict \<Rightarrow> py_error + (string, gate_vote) pydict" where
  "pii_stage E event =
     (if \<not> is_tool_start event then Inr []
      else case outbound_tool (ev_get event ''tool_name'') of
        Inl e \<Rightarrow> Inl e
      | Inr False \<Rightarrow> Inr []
      | Inr True \<Rightarrow>
          (case outbound_text event of
             Inl e \<Rightarrow> Inl e
           | Inr content \<Rightarrow> map_sum id (\<lambda>v. [(''pii'', v)]) (ge_pii E content)))"

text \<open>\<^verbatim>\<open>max(..., key=lambda d: _SEVERITY[d])\<close> and the outcome.\<close>

definition combine_votes :: "int \<Rightarrow> (string, gate_vote) pydict \<Rightarrow> py_error + gate_outcome" where
  "combine_votes latency votes =
     map_sum id (\<lambda>ranked.
        \<lparr> go_decision = (case ranked of [] \<Rightarrow> JStr ''ALLOW'' | r # rs \<Rightarrow> fst (max_by snd r rs)),
          go_reasons = concat (map (gv_reasons \<circ> snd) votes), go_votes = votes, go_latency_ms = latency \<rparr>)
     (traverse (\<lambda>(_, v). map_sum id (\<lambda>n. (gv_decision v, n)) (gate_severity (gv_decision v))) votes)"

definition decide ::
  "('o, 'b) gate_env \<Rightarrow> string \<Rightarrow> event_dict \<Rightarrow> 'o \<times> 'b \<Rightarrow> (py_error + gate_outcome) \<times> 'o \<times> 'b" where
  "decide E run_id event st =
     (let (v, o1) = opa_vote E event (fst st); (budget_out, b1) = budget_stage E run_id event (snd st) in
      (case budget_out of
         Inl e \<Rightarrow> Inl e
       | Inr bv \<Rightarrow>
           (case pii_stage E event of
              Inl e \<Rightarrow> Inl e
            | Inr pv \<Rightarrow> combine_votes (ge_latency E) ((''opa'', v) # bv @ pv)),
       o1, b1))"

section \<open>Most restrictive vote\<close>

lemma gate_severity_cases:
  "gate_severity d = Inr n \<Longrightarrow>
     (n = 0 \<and> d = JStr ''ALLOW'') \<or> (n = 1 \<and> d = JStr ''CONFIRM'') \<or> (n = 2 \<and> d = JStr ''DENY'')"
  by (auto simp: gate_severity_def split: json.splits if_splits)

lemma gate_severity_iff:
  assumes "gate_severity d = Inr n"
  shows "d = JStr ''DENY'' \<longleftrightarrow> n = 2" "d = JStr ''ALLOW'' \<longleftrightarrow> n = 0" "n \<le> 2"
    "d \<in> {JStr ''ALLOW'', JStr ''CONFIRM'', JStr ''DENY''}"
  using gate_severity_cases [OF assms] by (elim disjE; simp)+

lemma combine_votes_max:
  assumes "combine_votes l votes = Inr res" and "votes \<noteq> []"
  shows "go_votes res = votes" and "\<exists>v \<in> snd ` set votes. go_decision res = gv_decision v"
    and "\<And>v. v \<in> snd ` set votes \<Longrightarrow>
      \<exists>n m. gate_severity (gv_decision v) = Inr n \<and> gate_severity (go_decision res) = Inr m \<and> n \<le> m"
proof -
  let ?f = "\<lambda>(_ :: string, v). map_sum id (\<lambda>n. (gv_decision v, n)) (gate_severity (gv_decision v))"
  obtain ranked where r: "traverse ?f votes = Inr ranked"
    and res: "res = \<lparr> go_decision = (case ranked of [] \<Rightarrow> JStr ''ALLOW'' | r # rs \<Rightarrow> fst (max_by snd r rs)),
          go_reasons = concat (map (gv_reasons \<circ> snd) votes), go_votes = votes, go_latency_ms = l \<rparr>"
    using assms(1) unfolding combine_votes_def map_sum_Inr_iff by blast
  obtain q qs where q: "ranked = q # qs"
    using r assms(2) by (cases ranked) (auto simp: traverse_Inr_iff)
  let ?m = "max_by snd q qs"
  have dec: "go_decision res = fst ?m" by (simp add: res q)
  have "?m \<in> set ranked" unfolding q by (rule max_by_in)
  then obtain kv where kv: "kv \<in> set votes" "?f kv = Inr ?m" using traverse_Inr_set(1) [OF r] by blast
  then have m: "fst ?m = gv_decision (snd kv)" "gate_severity (fst ?m) = Inr (snd ?m)"
    by (auto simp: map_sum_Inr_iff split: prod.splits)
  show "go_votes res = votes" by (simp add: res)
  show "\<exists>v \<in> snd ` set votes. go_decision res = gv_decision v" using dec m(1) kv(1) by (metis image_eqI)
  fix v assume "v \<in> snd ` set votes"
  then obtain k where "(k, v) \<in> set votes" by auto
  then obtain y where "y \<in> set ranked" "?f (k, v) = Inr y" using traverse_Inr_set(2) [OF r] by blast
  moreover have "snd y \<le> snd ?m" using calculation(1) unfolding q by (rule max_by_upper)
  ultimately show "\<exists>n m. gate_severity (gv_decision v) = Inr n \<and> gate_severity (go_decision res) = Inr m \<and> n \<le> m"
    using m dec by (auto simp: map_sum_Inr_iff)
qed

section \<open>The cache\<close>

text \<open>What the client would answer without a cache.\<close>

definition opa_fresh :: "(json \<Rightarrow> py_error + json) \<Rightarrow> json \<Rightarrow> py_error + gate_vote" where
  "opa_fresh post inp = (case post inp of Inl e \<Rightarrow> Inl e | Inr body \<Rightarrow> opa_decision body)"

text \<open>Every entry is the answer to the inputs with its key.\<close>

definition cache_ok :: "(json \<Rightarrow> py_error + json) \<Rightarrow> opa_cache \<Rightarrow> bool" where
  "cache_ok post cache \<longleftrightarrow>
     (\<forall>inp d t. dict_get cache (json_dumps_default inp) = Some (d, t) \<longrightarrow> opa_fresh post inp = Inr d)"

lemma opa_evaluate_step:
  assumes pure: "\<And>x y. json_dumps_default x = json_dumps_default y \<Longrightarrow> post x = post y"
    and ok: "cache_ok post cache"
  shows "fst (opa_evaluate post ttl now cache inp) = opa_fresh post inp"
    and "cache_ok post (snd (opa_evaluate post ttl now cache inp))"
proof -
  have same: "opa_fresh post x = opa_fresh post y" if "json_dumps_default x = json_dumps_default y" for x y
    using pure [OF that] by (simp add: opa_fresh_def)
  have hit: "dict_get cache (json_dumps_default inp) = Some (d, t) \<Longrightarrow> opa_fresh post inp = Inr d" for d t
    using ok by (simp add: cache_ok_def)
  have "fst (opa_miss post ttl now cache inp) = opa_fresh post inp"
    by (simp add: opa_miss_def opa_fresh_def split: sum.split)
  then show "fst (opa_evaluate post ttl now cache inp) = opa_fresh post inp"
    using hit by (simp add: opa_evaluate_def split: option.split prod.split)
  have ins: "cache_ok post (dict_set (json_dumps_default inp) (d, t) c)"
    if "opa_fresh post inp = Inr d" "c = cache \<or> c = []" for d t c
    unfolding cache_ok_def
  proof (intro allI impI)
    fix x e u
    assume a: "dict_get (dict_set (json_dumps_default inp) (d, t) c) (json_dumps_default x) = Some (e, u)"
    show "opa_fresh post x = Inr e"
    proof (cases "json_dumps_default x = json_dumps_default inp")
      case True
      then show ?thesis using a same [OF True] that(1) by (simp add: dict_get_set)
    next
      case False
      then have "dict_get c (json_dumps_default x) = Some (e, u)" using a by (simp add: dict_get_set)
      then show ?thesis using that(2) ok unfolding cache_ok_def by auto
    qed
  qed
  have "cache_ok post (snd (opa_miss post ttl now cache inp))"
    using ok ins ins [where c = "[]", simplified] by (simp add: opa_miss_def opa_fresh_def split: sum.split)
  then show "cache_ok post (snd (opa_evaluate post ttl now cache inp))"
    using ok by (simp add: opa_evaluate_def split: option.split prod.split)
qed

section \<open>Counters\<close>

text \<open>The documented behaviour of the commands: \<^verbatim>\<open>INCR\<close> counts from an absent key or a decimal
  number, \<^verbatim>\<open>SET\<close> assigns, a positive \<^verbatim>\<open>EXPIRE\<close> removes nothing at once.\<close>

definition redis_laws :: "'s redis_ops \<Rightarrow> bool" where
  "redis_laws R \<longleftrightarrow>
     (\<forall>s k j. rd_get R (snd (rd_incr R s k)) j =
        (if j = k then Some (str_int (fst (rd_incr R s k))) else rd_get R s j)) \<and>
     (\<forall>s k. rd_get R s k = None \<longrightarrow> fst (rd_incr R s k) = 1) \<and>
     (\<forall>s k n. rd_get R s k = Some (str_int n) \<longrightarrow> fst (rd_incr R s k) = n + 1) \<and>
     (\<forall>s k v j. rd_get R (rd_set R s k v) j = (if j = k then Some v else rd_get R s j)) \<and>
     (\<forall>s k t j. 0 < t \<longrightarrow> rd_get R (rd_expire R s k t) j = rd_get R s j)"

text \<open>Calls of several runs, with the time between two calls as a change of the store.\<close>

type_synonym 's budget_call = "('s \<Rightarrow> 's) \<times> string \<times> string"

fun budget_calls :: "'s redis_ops \<Rightarrow> 's budget_call list \<Rightarrow> 's \<Rightarrow> 's" where
  "budget_calls R [] s = s"
| "budget_calls R ((gap, run_id, tool) # cs) s = budget_calls R cs (gap (snd (budget_check R run_id tool s)))"

definition calls_of_run :: "string \<Rightarrow> 's budget_call list \<Rightarrow> string list" where
  "calls_of_run r cs = map (\<lambda>(_, _, tool). tool) (filter (\<lambda>(_, run_id, _). run_id = r) cs)"

definition streak_of :: "string list \<Rightarrow> nat" where
  "streak_of ts = (case rev ts of [] \<Rightarrow> 0 | t # us \<Rightarrow> Suc (length (takeWhile (\<lambda>u. u = t) us)))"

text \<open>A gap in which no counter other than the ten-second one runs out.\<close>

definition within_ttl :: "'s redis_ops \<Rightarrow> ('s \<Rightarrow> 's) \<Rightarrow> bool" where
  "within_ttl R gap \<longleftrightarrow> (\<forall>s r k. k \<in> {bk_total (keys_of_run r), bk_last (keys_of_run r), bk_streak (keys_of_run r)} \<longrightarrow>
     rd_get R (gap s) k = rd_get R s k)"

text \<open>The store holds the counters of a run whose calls so far are \<open>ts\<close>.\<close>

definition budget_counts :: "'s redis_ops \<Rightarrow> string \<Rightarrow> string list \<Rightarrow> 's \<Rightarrow> bool" where
  "budget_counts R r ts s \<longleftrightarrow>
     rd_get R s (bk_total (keys_of_run r)) = (if ts = [] then None else Some (str_int (int (length ts)))) \<and>
     rd_get R s (bk_last (keys_of_run r)) = (if ts = [] then None else Some (last ts)) \<and>
     rd_get R s (bk_streak (keys_of_run r)) = (if ts = [] then None else Some (str_int (int (streak_of ts))))"

lemma budget_keys_apart:
  "bk_total (keys_of_run r) \<noteq> bk_last (keys_of_run q)" "bk_total (keys_of_run r) \<noteq> bk_streak (keys_of_run q)"
  "bk_total (keys_of_run r) \<noteq> bk_burst (keys_of_run q)" "bk_last (keys_of_run r) \<noteq> bk_streak (keys_of_run q)"
  "bk_last (keys_of_run r) \<noteq> bk_burst (keys_of_run q)" "bk_streak (keys_of_run r) \<noteq> bk_burst (keys_of_run q)"
  unfolding keys_of_run_def budget_keys.simps
  by (rule notI, drule arg_cong [where f = "\<lambda>s. (last s, last (butlast s))"], simp add: butlast_append)+

lemma budget_keys_inj [simp]:
  "bk_total (keys_of_run r) = bk_total (keys_of_run q) \<longleftrightarrow> r = q"
  "bk_last (keys_of_run r) = bk_last (keys_of_run q) \<longleftrightarrow> r = q"
  "bk_streak (keys_of_run r) = bk_streak (keys_of_run q) \<longleftrightarrow> r = q"
  by (auto simp: keys_of_run_def)

lemmas budget_keys_simps [simp] = budget_keys_apart budget_keys_apart [symmetric]

lemma streak_of_snoc: "streak_of (ts @ [t]) = (if ts \<noteq> [] \<and> last ts = t then Suc (streak_of ts) else 1)"
  by (cases ts rule: rev_cases) (auto simp: streak_of_def)

lemma streak_of_single [simp]: "streak_of [t] = 1"
  by (simp add: streak_of_def)

lemma budget_check_counts:
  assumes laws: "redis_laws R"
  shows "budget_counts R r ts s \<Longrightarrow>
      \<exists>burst. fst (budget_check R r t s) = budget_vote t (int (length ts) + 1) (int (streak_of (ts @ [t]))) burst"
    and "budget_counts R r ts s \<Longrightarrow> budget_counts R r (ts @ [t]) (snd (budget_check R r t s))"
    and "q \<noteq> r \<Longrightarrow> budget_counts R q us s \<Longrightarrow> budget_counts R q us (snd (budget_check R r t s))"
proof -
  have gi: "rd_get R (snd (rd_incr R x k)) j = (if j = k then Some (str_int (fst (rd_incr R x k))) else rd_get R x j)"
    and gs: "rd_get R (rd_set R x k v) j = (if j = k then Some v else rd_get R x j)"
    and ge: "rd_get R (rd_expire R x k BUDGET_TTL) j = rd_get R x j" "rd_get R (rd_expire R x k BURST_TTL) j = rd_get R x j"
    and i0: "rd_get R x k = None \<Longrightarrow> fst (rd_incr R x k) = 1"
    and iS: "rd_get R x k = Some (str_int n) \<Longrightarrow> fst (rd_incr R x k) = n + 1" for x k j v n
    using laws unfolding redis_laws_def BUDGET_TTL_def BURST_TTL_def by auto
  have one: "''1'' = str_int 1" by code_simp
  let ?s1 = "rd_expire R (snd (rd_incr R s (bk_total (keys_of_run r)))) (bk_total (keys_of_run r)) BUDGET_TTL"
  have g1: "rd_get R ?s1 j = (if j = bk_total (keys_of_run r) then Some (str_int (fst (rd_incr R s (bk_total (keys_of_run r)))))
      else rd_get R s j)" for j
    by (simp add: ge gi)
  show "budget_counts R q us (snd (budget_check R r t s))" if "q \<noteq> r" "budget_counts R q us s"
    using that by (simp add: budget_check_def budget_script_def Let_def budget_counts_def gi gs ge)
  assume c: "budget_counts R r ts s"
  have tot: "fst (rd_incr R s (bk_total (keys_of_run r))) = int (length ts) + 1"
    using c i0 iS by (cases "ts = []") (auto simp: budget_counts_def)
  have str: "fst (if rd_get R ?s1 (bk_last (keys_of_run r)) = Some t then rd_incr R ?s1 (bk_streak (keys_of_run r))
      else (1, x)) = int (streak_of (ts @ [t]))" for x
    using c iS [of ?s1 "bk_streak (keys_of_run r)"] by (cases "ts = []") (auto simp: budget_counts_def g1 streak_of_snoc)
  show "\<exists>burst. fst (budget_check R r t s) = budget_vote t (int (length ts) + 1) (int (streak_of (ts @ [t]))) burst"
    using tot str by (auto simp: budget_check_def budget_script_def Let_def)
  show "budget_counts R r (ts @ [t]) (snd (budget_check R r t s))"
    using tot str c one
    by (auto simp: budget_check_def budget_script_def Let_def budget_counts_def gi gs ge g1 streak_of_snoc add.commute)
qed

lemma counts_gap: "within_ttl R gap \<Longrightarrow> budget_counts R r ts (gap s) = budget_counts R r ts s"
  by (simp add: within_ttl_def budget_counts_def)

lemma budget_calls_counts:
  assumes "redis_laws R" "list_all (\<lambda>(gap, _). within_ttl R gap) cs" "\<And>r. budget_counts R r (before r) s"
  shows "budget_counts R r (before r @ calls_of_run r cs) (budget_calls R cs s)"
  using assms(2,3)
proof (induction cs arbitrary: before s)
  case (Cons c cs)
  obtain gap q t where c: "c = (gap, q, t)" by (cases c) auto
  let ?s = "gap (snd (budget_check R q t s))"
  let ?before = "\<lambda>p. if p = q then before p @ [t] else before p"
  have gap: "within_ttl R gap" using Cons.prems(1) by (simp add: c)
  have "budget_counts R p (?before p) ?s" for p
    using budget_check_counts(2,3) [OF assms(1)] Cons.prems(2) by (simp add: counts_gap [OF gap])
  then have "budget_counts R r (?before r @ calls_of_run r cs) (budget_calls R cs ?s)"
    using Cons.IH [where before = ?before and s = ?s] Cons.prems(1) by simp
  then show ?case by (auto simp: c calls_of_run_def)
qed (simp add: calls_of_run_def)

lemma budget_vote_deny:
  "gv_decision (budget_vote t n m b) = JStr ''DENY'' \<longleftrightarrow> MAX_CALLS_PER_RUN < n \<or> MAX_SAME_TOOL_STREAK < m"
  by (simp add: budget_vote_def mk_vote_def Let_def)

section \<open>Sequences of evaluations\<close>

fun evaluate_all ::
  "(json \<Rightarrow> py_error + json) \<Rightarrow> rat \<Rightarrow> (rat \<times> json) list \<Rightarrow> opa_cache \<Rightarrow> (py_error + gate_vote) list \<times> opa_cache" where
  "evaluate_all post ttl [] cache = ([], cache)"
| "evaluate_all post ttl ((now, inp) # qs) cache =
     (let (r, cache1) = opa_evaluate post ttl now cache inp;
          (rs, cache2) = evaluate_all post ttl qs cache1
      in (r # rs, cache2))"

lemma length_dict_set: "length (dict_set k v d) \<le> Suc (length d)"
  by (induction d) auto

lemma opa_evaluate_bounded:
  assumes "length cache \<le> CACHE_MAX"
  shows "length (snd (opa_evaluate post ttl now cache inp)) \<le> CACHE_MAX"
proof -
  have "CACHE_MAX \<noteq> length cache \<Longrightarrow> length (dict_set k v cache) \<le> CACHE_MAX" for k v
    using assms length_dict_set [of k v cache] by linarith
  moreover have "Suc 0 \<le> CACHE_MAX" by (simp add: CACHE_MAX_def)
  ultimately have "length (snd (opa_miss post ttl now cache inp)) \<le> CACHE_MAX"
    using assms unfolding opa_miss_def by (simp split: sum.split)
  then show ?thesis using assms by (simp add: opa_evaluate_def split: option.split prod.split)
qed

lemma evaluate_all_step:
  assumes "\<And>x y. json_dumps_default x = json_dumps_default y \<Longrightarrow> post x = post y"
  shows "cache_ok post cache \<Longrightarrow> length cache \<le> CACHE_MAX \<Longrightarrow>
    fst (evaluate_all post ttl qs cache) = map (\<lambda>(_, inp). opa_fresh post inp) qs \<and>
    length (snd (evaluate_all post ttl qs cache)) \<le> CACHE_MAX"
proof (induction qs arbitrary: cache)
  case (Cons q qs)
  obtain now inp where q: "q = (now, inp)" by (cases q) auto
  show ?case
    using opa_evaluate_step [OF assms Cons.prems(1), of ttl now inp] opa_evaluate_bounded [OF Cons.prems(2)]
      Cons.IH [of "snd (opa_evaluate post ttl now cache inp)"]
    by (auto simp: q Let_def split: prod.split)
qed simp

text \<open>A store that satisfies the documented behaviour, for examples: keys to values, with the
  ten-second keys gone between two calls.\<close>

definition example_int :: "string \<Rightarrow> int" where
  "example_int v = (if v \<noteq> [] \<and> hd v = CHR ''-'' then - int (digits_val (tl v)) else int (digits_val v))"

definition example_redis :: "(string \<Rightarrow> string option) redis_ops" where
  "example_redis =
     \<lparr> rd_get = (\<lambda>s k. s k),
       rd_incr = (\<lambda>s k. let n = (case s k of None \<Rightarrow> 1 | Some v \<Rightarrow> example_int v + 1) in (n, s(k := Some (str_int n)))),
       rd_set = (\<lambda>s k v. s(k := Some v)), rd_expire = (\<lambda>s k t. s) \<rparr>"

definition example_gap :: "(string \<Rightarrow> string option) \<Rightarrow> string \<Rightarrow> string option" where
  "example_gap s = (\<lambda>k. if drop (length k - 6) k = '':burst'' then None else s k)"

lemma example_int_str: "example_int (str_int n) = n"
proof -
  have "hd (str_nat m) \<noteq> CHR ''-''" "str_nat m \<noteq> []" for m
    using str_nat_facts [of m] by (cases "str_nat m"; auto simp: is_digit_def)+
  then show ?thesis using str_nat_facts by (auto simp: example_int_def str_int_def)
qed

lemma example_redis_laws: "redis_laws example_redis"
  by (auto simp: redis_laws_def example_redis_def Let_def example_int_str)

lemma example_gap_within: "within_ttl example_redis example_gap"
  by (auto simp: within_ttl_def example_redis_def example_gap_def keys_of_run_def)

definition example_gate :: "(unit, unit) gate_env" where
  "example_gate =
     \<lparr> ge_opa = (\<lambda>u _. (Inl RuntimeError, u)), ge_budget = (\<lambda>u _ _. (Inr (mk_vote ''ALLOW'' [] []), u)),
       ge_pii = (\<lambda>_. Inr (mk_vote ''ALLOW'' [] [])), ge_exc_text = (\<lambda>_. ''timeout''), ge_latency = 3 \<rparr>"

definition example_call :: event_dict where
  "example_call = [(''event_type'', JStr ''tool_call.start''), (''tool_name'', JStr ''http_post'')]"

section \<open>Properties\<close>

text \<open>C20. The gate takes the most restrictive vote and fails closed: it denies exactly when some
  check denies and allows only when all allow; without a denial the policy engine was asked and
  answered, so an engine that raises always leads to a denial; a tool call with a name is always put
  to the budget, and an outbound one to the scanner.\<close>

theorem gate_fail_closed:
  assumes "fst (decide E run_id event st) = Inr res"
  shows "go_decision res \<in> {JStr ''ALLOW'', JStr ''CONFIRM'', JStr ''DENY''} \<and>
    (go_decision res = JStr ''DENY'' \<longleftrightarrow> (\<exists>v \<in> snd ` set (go_votes res). gv_decision v = JStr ''DENY'')) \<and>
    (go_decision res = JStr ''ALLOW'' \<longleftrightarrow> (\<forall>v \<in> snd ` set (go_votes res). gv_decision v = JStr ''ALLOW'')) \<and>
    (go_decision res \<noteq> JStr ''DENY'' \<longrightarrow>
      (\<exists>inp v. opa_input event = Inr inp \<and> fst (ge_opa E (fst st) (JObj inp)) = Inr v \<and>
        dict_get (go_votes res) ''opa'' = Some v)) \<and>
    (is_tool_start event \<and> json_truthy (ev_get event ''tool_name'') \<longrightarrow> ''budget'' \<in> fst ` set (go_votes res)) \<and>
    (is_tool_start event \<and> ev_get event ''tool_name'' \<in> {JStr ''send_email'', JStr ''http_post''} \<longrightarrow>
      ''pii'' \<in> fst ` set (go_votes res))"
proof -
  let ?v = "fst (opa_vote E event (fst st))"
  obtain bv pv where b: "fst (budget_stage E run_id event (snd st)) = Inr bv" and p: "pii_stage E event = Inr pv"
    and c: "combine_votes (ge_latency E) ((''opa'', ?v) # bv @ pv) = Inr res"
    using assms by (auto simp: decide_def Let_def split: prod.splits sum.splits)
  note m = combine_votes_max [OF c, simplified]
  have votes: "go_votes res = (''opa'', ?v) # bv @ pv" by (rule m(1))
  have rank: "\<exists>n k. gate_severity (gv_decision v) = Inr n \<and> gate_severity (go_decision res) = Inr k \<and> n \<le> k"
    if "v \<in> snd ` set (go_votes res)" for v
    using combine_votes_max(3) [OF c] that unfolding votes by simp
  have some: "\<exists>v \<in> snd ` set (go_votes res). go_decision res = gv_decision v"
    using combine_votes_max(2) [OF c] unfolding votes by simp
  obtain v0 where v0: "v0 \<in> snd ` set (go_votes res)" "go_decision res = gv_decision v0" using some by blast
  obtain k where k: "gate_severity (go_decision res) = Inr k" using rank [OF v0(1)] by blast
  have below: "\<exists>n. gate_severity (gv_decision v) = Inr n \<and> n \<le> k" if "v \<in> snd ` set (go_votes res)" for v
    using rank [OF that] k by auto
  have deny: "go_decision res = JStr ''DENY'' \<longleftrightarrow> (\<exists>v \<in> snd ` set (go_votes res). gv_decision v = JStr ''DENY'')"
    using v0 below gate_severity_iff(1,3) k by (metis le_antisym)
  moreover have "go_decision res = JStr ''ALLOW'' \<longleftrightarrow> (\<forall>v \<in> snd ` set (go_votes res). gv_decision v = JStr ''ALLOW'')"
    using v0 below gate_severity_iff(2) k by (metis le_zero_eq)
  moreover have "\<exists>inp v. opa_input event = Inr inp \<and> fst (ge_opa E (fst st) (JObj inp)) = Inr v \<and>
      dict_get (go_votes res) ''opa'' = Some v" if "go_decision res \<noteq> JStr ''DENY''"
  proof -
    have "gv_decision ?v \<noteq> JStr ''DENY''" using deny that by (simp add: votes)
    then show ?thesis
      by (auto simp: votes opa_vote_def mk_vote_def Let_def split: sum.splits prod.splits)
  qed
  moreover have "''budget'' \<in> fst ` set (go_votes res)" if "is_tool_start event" "json_truthy (ev_get event ''tool_name'')"
    using b that by (auto simp: votes budget_stage_def Let_def map_sum_Inr_iff split: prod.splits)
  moreover have "''pii'' \<in> fst ` set (go_votes res)"
    if "is_tool_start event" "ev_get event ''tool_name'' \<in> {JStr ''send_email'', JStr ''http_post''}"
  proof -
    have "outbound_tool (ev_get event ''tool_name'') = Inr True"
      using that(2) by (auto simp: outbound_tool_def OUTBOUND_TOOLS_def)
    then show ?thesis
      using p that(1) by (auto simp: votes pii_stage_def map_sum_Inr_iff split: sum.splits)
  qed
  ultimately show ?thesis using gate_severity_iff(4) [OF k] by blast
qed

theorem gate_fail_closed_witness:
  "\<exists>res. fst (decide example_gate ''r'' example_call ((), ())) = Inr res \<and> go_decision res = JStr ''DENY'' \<and>
     ''budget'' \<in> fst ` set (go_votes res) \<and> ''pii'' \<in> fst ` set (go_votes res)"
proof -
  obtain res where r: "fst (decide example_gate ''r'' example_call ((), ())) = Inr res"
  proof (cases "fst (decide example_gate ''r'' example_call ((), ()))")
    case (Inl e)
    moreover have "\<not> isl (fst (decide example_gate ''r'' example_call ((), ())))" by code_simp
    ultimately show ?thesis by simp
  qed
  note g = gate_fail_closed [OF r]
  have "is_tool_start example_call" "json_truthy (ev_get example_call ''tool_name'')"
    "ev_get example_call ''tool_name'' \<in> {JStr ''send_email'', JStr ''http_post''}" by code_simp+
  then have "''budget'' \<in> fst ` set (go_votes res)" "''pii'' \<in> fst ` set (go_votes res)"
    using g by blast+
  moreover have "fst (ge_opa example_gate u x) \<noteq> Inr v" for u x v by (simp add: example_gate_def)
  then have "go_decision res = JStr ''DENY''" using g by blast
  ultimately show ?thesis using r by blast
qed

text \<open>The decision cache of the policy client is transparent: for a policy that is a function of
  its input, as the canonical key sees it, any sequence of evaluations at any times, from an empty
  cache, answers what the server would have answered each time, errors included, and the cache never
  holds more than its maximum.\<close>

theorem opa_cache_transparent:
  assumes "\<And>x y. json_dumps_default x = json_dumps_default y \<Longrightarrow> post x = post y"
  shows "fst (evaluate_all post ttl qs []) = map (\<lambda>(_, inp). opa_fresh post inp) qs \<and>
    length (snd (evaluate_all post ttl qs [])) \<le> CACHE_MAX"
proof -
  have "cache_ok post []" by (simp add: cache_ok_def)
  then show ?thesis using evaluate_all_step [OF assms] by simp
qed

theorem opa_cache_transparent_witness:
  "fst (evaluate_all (\<lambda>_. Inr (JObj [])) 5 [(0, JNull), (1, JNull), (9, JNull)] []) =
     replicate 3 (opa_fresh (\<lambda>_. Inr (JObj [])) JNull)"
  using opa_cache_transparent [of "\<lambda>_. Inr (JObj [])" 5 "[(0, JNull), (1, JNull), (9, JNull)]"]
  by (simp add: numeral_3_eq_3)

text \<open>C21. The tool budget enforces its caps per run: from a store without counters, however the calls
  of several runs interleave, and as long as no hourly counter runs out between two calls, the next
  call of a run is denied exactly when the run has already made two hundred calls or its last fifty
  calls were of the same tool.\<close>

theorem budget_enforced:
  assumes "redis_laws R" and "\<forall>k. rd_get R s k = None" and "list_all (\<lambda>(gap, _). within_ttl R gap) cs"
  shows "gv_decision (fst (budget_check R r t (budget_calls R cs s))) = JStr ''DENY'' \<longleftrightarrow>
    200 \<le> length (calls_of_run r cs) \<or> 50 \<le> length (takeWhile (\<lambda>u. u = t) (rev (calls_of_run r cs)))"
proof -
  have "budget_counts R q [] s" for q using assms(2) by (simp add: budget_counts_def)
  then have "budget_counts R r (calls_of_run r cs) (budget_calls R cs s)"
    using budget_calls_counts [OF assms(1,3), of "\<lambda>_. []"] by simp
  then obtain burst where v: "fst (budget_check R r t (budget_calls R cs s)) =
      budget_vote t (int (length (calls_of_run r cs)) + 1) (int (streak_of (calls_of_run r cs @ [t]))) burst"
    using budget_check_counts(1) [OF assms(1)] by blast
  have "streak_of (calls_of_run r cs @ [t]) = Suc (length (takeWhile (\<lambda>u. u = t) (rev (calls_of_run r cs))))"
    by (simp add: streak_of_def)
  then show ?thesis
    unfolding v budget_vote_deny MAX_CALLS_PER_RUN_def MAX_SAME_TOOL_STREAK_def by linarith
qed

theorem budget_enforced_witness:
  "gv_decision (fst (budget_check example_redis ''r'' ''grep''
     (budget_calls example_redis (replicate 50 (example_gap, ''r'', ''grep'')) (\<lambda>_. None)))) = JStr ''DENY''"
proof -
  have c: "calls_of_run ''r'' (replicate 50 (example_gap, ''r'', ''grep'')) = replicate 50 ''grep''"
    by (simp add: calls_of_run_def)
  have fresh: "\<forall>k. rd_get example_redis (\<lambda>_. None) k = None" by (simp add: example_redis_def)
  have gaps: "list_all (\<lambda>(gap, _). within_ttl example_redis gap) (replicate 50 (example_gap, ''r'', ''grep''))"
    using example_gap_within by (simp add: list_all_iff)
  show ?thesis
    unfolding budget_enforced [OF example_redis_laws fresh gaps] c rev_replicate by simp
qed

end
