(* ===== verification/Event_Store.thy ===== *)
theory Event_Store
  imports Events Incidents "HOL-Library.Monad_Syntax" "HOL-Library.Multiset"
begin

text \<open>
  From the wire to the detectors: the flattening of a protobuf event (\<^verbatim>\<open>auditor/events/proto_bridge.py\<close>),
  its storage, redacted, as a row, and the reconstruction of rows as typed events
  (\<^verbatim>\<open>auditor/events/store.py\<close>). The database is a record of tables whose constraints are those of
  \<^verbatim>\<open>auditor/db/models.py\<close>; the recognizers of the redactor, the JSON parser applied to the tool
  arguments, the coercions of pydantic and what a \<^verbatim>\<open>JSONB\<close> column makes of the payload of an event are
  arguments. The other \<^verbatim>\<open>JSONB\<close> columns are kept as they are handed over; no property reads them back.
\<close>

section \<open>Wire events\<close>

text \<open>The payloads of \<^verbatim>\<open>proto/events.proto\<close>; an unset string is empty.\<close>

datatype wire_payload =
    W_tool_call_start string string string string string string
      \<comment> \<open>agent, tool name, arguments as JSON text, purpose, call id, schema hash\<close>
  | W_tool_call_end string string string string string
      \<comment> \<open>agent, call id, status, result summary, error\<close>
  | W_llm_call string string bytes int int
      \<comment> \<open>agent, model, messages hash, tokens in, tokens out\<close>
  | W_memory_op string string string "string list" string
      \<comment> \<open>agent, op, store, keys or query, source\<close>
  | W_intent_declare string string "string list"
      \<comment> \<open>agent, intent, plan steps\<close>
  | W_agent_message string string bytes bytes
      \<comment> \<open>sender, receiver, message hash, signature\<close>
  | W_syscall_openat string int
  | W_syscall_connect string string int
  | W_syscall_execve string "string list"
  | W_syscall_sendto int int string
  | W_dns_query string "string list"
  | W_no_payload

record wire_event =
  we_event_id :: string
  we_run_id :: string
  we_tenant_id :: string
  we_span_id :: string
  we_parent_span_id :: string
  we_channel :: int
  we_event_type :: string
  we_ts_unix_ns :: int
  we_pid :: int
  we_schema_version :: int
  we_payload :: wire_payload

definition decision_to_proto :: "string \<Rightarrow> int" where
  "decision_to_proto d = (if d = ''ALLOW'' then 1 else if d = ''DENY'' then 2 else if d = ''CONFIRM'' then 3 else 1)"

definition decision_from_proto :: "int \<Rightarrow> string" where
  "decision_from_proto n = (if n = 1 then ''ALLOW'' else if n = 2 then ''DENY'' else if n = 3 then ''CONFIRM'' else ''ALLOW'')"

text \<open>\<^verbatim>\<open>datetime.fromtimestamp(ns / 1e9)\<close>: the quotient is a float, its fraction is scaled to
  microseconds as a float and rounded half to even.\<close>

definition event_ts :: "timestamp \<Rightarrow> wire_event \<Rightarrow> timestamp" where
  "event_ts now w =
     (if we_ts_unix_ns w = 0 then now
      else (let t = fdiv (f64 (of_int (we_ts_unix_ns w))) (of_int (10 ^ 9)); whole = py_int t
            in whole * 10 ^ 6 + rne (fmul (t - of_int whole) (of_int (10 ^ 6)))))"

definition or_none :: "string \<Rightarrow> json" where
  "or_none s = (if s = [] then JNull else JStr s)"

definition hex_or_none :: "bytes \<Rightarrow> json" where
  "hex_or_none bs = (if bs = [] then JNull else JStr (hex bs))"

definition jstrs :: "string list \<Rightarrow> json" where
  "jstrs xs = JList (map JStr xs)"

fun wire_fields :: "(string \<Rightarrow> py_error + json) \<Rightarrow> wire_payload \<Rightarrow> py_error + (string, json) pydict" where
  "wire_fields loads (W_tool_call_start agent tool args purpose call schema) =
     map_sum id (\<lambda>a. [(''agent_id'', or_none agent), (''tool_name'', JStr tool), (''tool_args'', a),
        (''declared_purpose'', or_none purpose), (''tool_call_id'', or_none call), (''schema_hash'', or_none schema)])
       (if args = [] then Inr (JObj []) else loads args)"
| "wire_fields loads (W_tool_call_end agent call status summary err) =
     Inr [(''agent_id'', or_none agent), (''tool_call_id'', or_none call), (''status'', JStr status),
       (''result_summary'', or_none summary), (''error'', or_none err)]"
| "wire_fields loads (W_llm_call agent model h tin tout) =
     Inr [(''agent_id'', or_none agent), (''model'', JStr model), (''tokens_in'', JInt tin), (''tokens_out'', JInt tout),
       (''messages_hash'', hex_or_none h)]"
| "wire_fields loads (W_memory_op agent op store keys source) =
     Inr [(''agent_id'', or_none agent), (''op'', JStr op), (''store'', JStr store), (''keys_or_query'', jstrs keys),
       (''source'', or_none source)]"
| "wire_fields loads (W_intent_declare agent intent steps) =
     Inr [(''agent_id'', or_none agent), (''intent'', JStr intent), (''plan_steps'', jstrs steps)]"
| "wire_fields loads (W_agent_message sender receiver h sig) =
     Inr [(''sender_id'', or_none sender), (''receiver_id'', or_none receiver), (''message_hash'', hex_or_none h),
       (''signature'', hex_or_none sig)]"
| "wire_fields loads (W_syscall_openat path flags) = Inr [(''path'', JStr path), (''flags'', JInt flags)]"
| "wire_fields loads (W_syscall_connect family addr port) =
     Inr [(''family'', JStr family), (''addr'', JStr addr), (''port'', JInt port)]"
| "wire_fields loads (W_syscall_execve binary argv) = Inr [(''binary'', JStr binary), (''argv'', jstrs argv)]"
| "wire_fields loads (W_syscall_sendto fd n dest) =
     Inr [(''fd'', JInt fd), (''bytes_sent'', JInt n), (''dest_addr'', or_none dest)]"
| "wire_fields loads (W_dns_query name results) = Inr [(''query_name'', JStr name), (''results'', jstrs results)]"
| "wire_fields loads W_no_payload = Inr []"

definition dict_update :: "('k, 'v) pydict \<Rightarrow> ('k, 'v) pydict \<Rightarrow> ('k, 'v) pydict" where
  "dict_update d e = foldl (\<lambda>d (k, v). dict_set k v d) d e"

definition wire_base :: "wire_event \<Rightarrow> (string, json) pydict" where
  "wire_base w =
     [(''event_id'', JStr (we_event_id w)), (''run_id'', JStr (we_run_id w)), (''tenant_id'', JStr (we_tenant_id w)),
      (''span_id'', JStr (we_span_id w)), (''parent_span_id'', or_none (we_parent_span_id w)),
      (''channel'', JStr (if we_channel w = 2 then ''INVOLUNTARY'' else ''VOLUNTARY'')),
      (''event_type'', JStr (we_event_type w)), (''ts_unix_ns'', JInt (we_ts_unix_ns w)),
      (''pid'', if we_pid w = 0 then JNull else JInt (we_pid w))]"

definition event_to_dict :: "(string \<Rightarrow> py_error + json) \<Rightarrow> wire_event \<Rightarrow> py_error + (string, json) pydict" where
  "event_to_dict loads w = map_sum id (dict_update (wire_base w)) (wire_fields loads (we_payload w))"

section \<open>Redaction at rest\<close>

definition BASE_KEYS :: "string list" where
  "BASE_KEYS = [''event_id'', ''run_id'', ''tenant_id'', ''span_id'', ''parent_span_id'', ''channel'', ''event_type'',
     ''ts_unix_ns'', ''pid'']"

definition STRUCTURAL_KEYS :: "string list" where
  "STRUCTURAL_KEYS = [''agent_id'', ''tool_call_id'', ''event_id'', ''run_id'', ''tenant_id'', ''span_id'', ''parent_span_id'',
     ''messages_hash'', ''schema_hash'', ''payload_hash'', ''content_hash'', ''schema_version'', ''tokens_in'', ''tokens_out'',
     ''pid'', ''ts_unix_ns'', ''channel'', ''event_type'', ''status'', ''store'', ''source'', ''model'']"

definition structural :: "string option \<Rightarrow> bool" where
  "structural key = (case key of None \<Rightarrow> False | Some k \<Rightarrow> k \<in> set STRUCTURAL_KEYS \<or> startswith k ''_'')"

fun walk_and_redact :: "(string \<Rightarrow> string) \<Rightarrow> string option \<Rightarrow> json \<Rightarrow> json" where
  "walk_and_redact redact key (JStr s) = JStr (if structural key then s else redact s)"
| "walk_and_redact redact key (JObj kvs) =
     (if structural key then JObj kvs else JObj (map (\<lambda>(k, v). (k, walk_and_redact redact (Some k) v)) kvs))"
| "walk_and_redact redact key (JList xs) =
     (if structural key then JList xs else JList (map (walk_and_redact redact None) xs))"
| "walk_and_redact redact key v = v"

fun detect_skipping :: "(string \<Rightarrow> string list) \<Rightarrow> string option \<Rightarrow> json \<Rightarrow> string list" where
  "detect_skipping detect key (JStr s) = (if structural key then [] else detect s)"
| "detect_skipping detect key (JObj kvs) =
     (if structural key then [] else sort (remdups (concat (map (\<lambda>(k, v). detect_skipping detect (Some k) v) kvs))))"
| "detect_skipping detect key (JList xs) =
     (if structural key then [] else sort (remdups (concat (map (detect_skipping detect None) xs))))"
| "detect_skipping detect key v = []"

text \<open>What happens to a payload on its way to the table: redaction, and the \<^verbatim>\<open>JSONB\<close> column, which gives the
  object a later read returns or refuses it.\<close>

record redaction =
  rx_at_rest :: bool
  rx_detect :: "string \<Rightarrow> string list"
  rx_redact :: "string \<Rightarrow> string"
  rx_jsonb :: "(string, json) pydict \<Rightarrow> (string, json) pydict option"

definition redact_payload :: "redaction \<Rightarrow> (string, json) pydict \<Rightarrow> (string, json) pydict \<times> string list" where
  "redact_payload rx payload =
     (if \<not> rx_at_rest rx \<or> payload = [] then (payload, [])
      else (let entities = detect_skipping (rx_detect rx) None (JObj payload) in
            if entities = [] then (payload, [])
            else (case walk_and_redact (rx_redact rx) None (JObj payload) of
                    JObj d \<Rightarrow> (dict_set ''_pii_redacted'' (jstrs entities) d, entities)
                  | _ \<Rightarrow> (payload, entities))))"

section \<open>Tables\<close>

record run_row =
  rr_tenant_id :: uuid
  rr_status :: string
  rr_ended_at :: "timestamp option"
  rr_declared_goal :: "string option"
  rr_metadata :: "(string, json) pydict"

record event_row =
  er_event_id :: uuid
  er_run_id :: uuid
  er_tenant_id :: uuid
  er_span_id :: uuid
  er_parent_span_id :: "uuid option"
  er_channel :: string
  er_event_type :: string
  er_ts :: timestamp
  er_pid :: json
  er_payload :: "(string, json) pydict"
  er_payload_hash :: bytes

record gate_decision_row =
  gr_decision_id :: uuid
  gr_event_id :: uuid
  gr_decision :: string
  gr_detectors :: json
  gr_latency_ms :: int

record verdict_row =
  vr_verdict_id :: uuid
  vr_run_id :: uuid
  vr_tenant_id :: uuid
  vr_detector :: string
  vr_asi_category :: string
  vr_result :: string
  vr_confidence :: rat
  vr_evidence :: json
  vr_judge_model :: "string option"
  vr_judge_prompt_v :: "int option"
  vr_rubric_scores :: "(string, json) pydict option"
  vr_ts :: timestamp

record flag_row =
  fr_flag_id :: uuid
  fr_run_id :: uuid
  fr_tenant_id :: uuid
  fr_severity :: string
  fr_asi_categories :: "string list"
  fr_verdict_ids :: "uuid list"
  fr_status :: string
  fr_created_at :: timestamp
  fr_resolved_at :: "timestamp option"
  fr_resolution :: "string option"

record db =
  db_runs :: "(uuid, run_row) pydict"
  db_events :: "event_row list"
  db_gate_decisions :: "gate_decision_row list"
  db_verdicts :: "verdict_row list"
  db_flags :: "flag_row list"
  db_incidents :: "incident list"

text \<open>The confidence is the value handed to its \<^verbatim>\<open>NUMERIC(4,3)\<close> column.\<close>

datatype store_error = Raised py_error | IntegrityError | DataError

text \<open>The foreign key to the tenants is not enforced by the model; the ones to runs and events are.\<close>

definition upsert_run :: "uuid \<Rightarrow> uuid \<Rightarrow> string option \<Rightarrow> db \<Rightarrow> db" where
  "upsert_run run_id tenant_id goal d =
     (case dict_get (db_runs d) run_id of
        Some _ \<Rightarrow> d
      | None \<Rightarrow> d\<lparr> db_runs := dict_set run_id
          \<lparr> rr_tenant_id = tenant_id, rr_status = ''running'', rr_ended_at = None, rr_declared_goal = goal, rr_metadata = [] \<rparr>
          (db_runs d) \<rparr>)"

definition mark_run_completed :: "timestamp \<Rightarrow> uuid \<Rightarrow> db \<Rightarrow> db" where
  "mark_run_completed now run_id d =
     (case dict_get (db_runs d) run_id of
        Some r \<Rightarrow>
          if rr_status r = ''running''
          then d\<lparr> db_runs := dict_set run_id (r\<lparr> rr_status := ''completed'', rr_ended_at := Some now \<rparr>) (db_runs d) \<rparr>
          else d
      | None \<Rightarrow> d)"

definition reap_row :: "timestamp \<Rightarrow> run_row \<Rightarrow> run_row" where
  "reap_row now r =
     (if rr_status r = ''running''
      then r\<lparr> rr_status := ''aborted'', rr_ended_at := Some (case rr_ended_at r of None \<Rightarrow> now | Some t \<Rightarrow> t) \<rparr>
      else r)"

definition reap_orphaned_runs :: "timestamp \<Rightarrow> db \<Rightarrow> nat \<times> db" where
  "reap_orphaned_runs now d =
     (length (filter (\<lambda>(_, r). rr_status r = ''running'') (db_runs d)),
      d\<lparr> db_runs := map (\<lambda>(u, r). (u, reap_row now r)) (db_runs d) \<rparr>)"

definition update_run_declared_goal :: "uuid \<Rightarrow> string \<Rightarrow> db \<Rightarrow> db" where
  "update_run_declared_goal run_id goal d =
     (case dict_get (db_runs d) run_id of
        Some r \<Rightarrow>
          if rr_declared_goal r = None \<or> rr_declared_goal r = Some []
          then d\<lparr> db_runs := dict_set run_id (r\<lparr> rr_declared_goal := Some (take 1000 goal) \<rparr>) (db_runs d) \<rparr>
          else d
      | None \<Rightarrow> d)"

definition payload_hash :: "(string, json) pydict \<Rightarrow> bytes" where
  "payload_hash payload = sha256 (utf8 (json_dumps_default (JObj payload)))"

text \<open>\<^verbatim>\<open>UUID(event[k])\<close>.\<close>

definition uuid_arg :: "json \<Rightarrow> py_error + uuid" where
  "uuid_arg j =
     (case j of
        JStr s \<Rightarrow> (case parse_uuid s of None \<Rightarrow> Inl ValueError | Some u \<Rightarrow> Inr u)
      | JNull \<Rightarrow> Inl TypeError
      | _ \<Rightarrow> Inl AttributeError)"

definition uuid_field :: "(string, json) pydict \<Rightarrow> string \<Rightarrow> py_error + uuid" where
  "uuid_field event k = (case dict_get event k of None \<Rightarrow> Inl KeyError | Some j \<Rightarrow> uuid_arg j)"

definition opt_uuid_field :: "(string, json) pydict \<Rightarrow> string \<Rightarrow> py_error + uuid option" where
  "opt_uuid_field event k =
     (if json_truthy (dict_get_or JNull event k) then map_sum id Some (uuid_field event k) else Inr None)"

definition str_field :: "(string, json) pydict \<Rightarrow> string \<Rightarrow> py_error + string" where
  "str_field event k =
     (case dict_get event k of None \<Rightarrow> Inl KeyError | Some (JStr s) \<Rightarrow> Inr s | Some _ \<Rightarrow> Inl TypeError)"

text \<open>The row that \<^verbatim>\<open>store_event\<close> builds; the fields are converted in the order of the code.\<close>

definition event_row_of :: "redaction \<Rightarrow> uuid \<Rightarrow> (string, json) pydict \<Rightarrow> timestamp \<Rightarrow> py_error + event_row" where
  "event_row_of rx fresh event ts =
     (let raw_payload = filter (\<lambda>(k, _). k \<notin> set BASE_KEYS) event in
      sum_bind (opt_uuid_field event ''event_id'') (\<lambda>eid.
      sum_bind (uuid_field event ''run_id'') (\<lambda>run.
      sum_bind (uuid_field event ''tenant_id'') (\<lambda>tenant.
      sum_bind (uuid_field event ''span_id'') (\<lambda>span.
      sum_bind (opt_uuid_field event ''parent_span_id'') (\<lambda>parent.
      sum_bind (str_field event ''channel'') (\<lambda>channel.
      sum_bind (str_field event ''event_type'') (\<lambda>etype.
      Inr \<lparr> er_event_id = (case eid of None \<Rightarrow> fresh | Some u \<Rightarrow> u), er_run_id = run, er_tenant_id = tenant,
        er_span_id = span, er_parent_span_id = parent, er_channel = channel, er_event_type = etype, er_ts = ts,
        er_pid = dict_get_or JNull event ''pid'', er_payload = fst (redact_payload rx raw_payload),
        er_payload_hash = payload_hash raw_payload \<rparr>))))))))"

definition event_insertable :: "db \<Rightarrow> event_row \<Rightarrow> bool" where
  "event_insertable d r \<longleftrightarrow>
     er_run_id r \<in> fst ` set (db_runs d) \<and> er_event_id r \<notin> er_event_id ` set (db_events d) \<and>
     er_channel r \<in> {''VOLUNTARY'', ''INVOLUNTARY''}"

definition store_event ::
  "redaction \<Rightarrow> uuid \<Rightarrow> (string, json) pydict \<Rightarrow> timestamp \<Rightarrow> db \<Rightarrow> store_error + uuid \<times> db" where
  "store_event rx fresh event ts d =
     (case event_row_of rx fresh event ts of
        Inl e \<Rightarrow> Inl (Raised e)
      | Inr r \<Rightarrow>
          (case rx_jsonb rx (er_payload r) of
             None \<Rightarrow> Inl DataError
           | Some p \<Rightarrow>
               if CHR 0x00 \<in> set (er_event_type r) then Inl DataError
               else if event_insertable d r then Inr (er_event_id r, d\<lparr> db_events := db_events d @ [r\<lparr> er_payload := p \<rparr>] \<rparr>)
               else Inl IntegrityError))"

definition store_gate_decision ::
  "uuid \<Rightarrow> uuid \<Rightarrow> string \<Rightarrow> json \<Rightarrow> int \<Rightarrow> db \<Rightarrow> store_error + uuid \<times> db" where
  "store_gate_decision fresh event_id decision votes latency_ms d =
     (if event_id \<in> er_event_id ` set (db_events d) \<and> fresh \<notin> gr_decision_id ` set (db_gate_decisions d) \<and>
         decision \<in> {''ALLOW'', ''DENY'', ''CONFIRM''}
      then Inr (fresh, d\<lparr> db_gate_decisions := db_gate_decisions d @
        [\<lparr> gr_decision_id = fresh, gr_event_id = event_id, gr_decision = decision, gr_detectors = votes,
           gr_latency_ms = latency_ms \<rparr>] \<rparr>)
      else Inl IntegrityError)"

section \<open>Typed events from rows\<close>

text \<open>The coercions of pydantic for the field types of the schemas; \<open>None\<close> is a validation error.\<close>

record coercions =
  co_uuid :: "json \<Rightarrow> uuid option"
  co_str :: "json \<Rightarrow> string option"
  co_int :: "json \<Rightarrow> int option"
  co_bytes :: "json \<Rightarrow> bytes option"
  co_dict :: "json \<Rightarrow> (string, json) pydict option"
  co_strs :: "json \<Rightarrow> string list option"
  co_datetime :: "json \<Rightarrow> timestamp option"

definition nullable :: "(json \<Rightarrow> 'a option) \<Rightarrow> json \<Rightarrow> 'a option option" where
  "nullable co j = (if j = JNull then Some None else map_option Some (co j))"

definition required :: "(json \<Rightarrow> 'a option) \<Rightarrow> (string, json) pydict \<Rightarrow> string \<Rightarrow> 'a option" where
  "required co data k = Option.bind (dict_get data k) co"

definition with_default :: "'a \<Rightarrow> (json \<Rightarrow> 'a option) \<Rightarrow> (string, json) pydict \<Rightarrow> string \<Rightarrow> 'a option" where
  "with_default dflt co data k = (case dict_get data k of None \<Rightarrow> Some dflt | Some j \<Rightarrow> co j)"

definition literal :: "string list \<Rightarrow> json \<Rightarrow> string option" where
  "literal allowed j = (case j of JStr s \<Rightarrow> if s \<in> set allowed then Some s else None | _ \<Rightarrow> None)"

text \<open>\<^verbatim>\<open>bytes.fromhex\<close>: pairs of hexadecimal digits, with ASCII white space allowed between pairs.\<close>

definition hex_space :: "char \<Rightarrow> bool" where
  "hex_space c = (let n = of_char c :: nat in n = 32 \<or> (9 \<le> n \<and> n \<le> 13))"

fun fromhex :: "string \<Rightarrow> bytes option" where
  "fromhex [] = Some []"
| "fromhex (c # s) =
     (if hex_space c then fromhex s
      else case s of
        [] \<Rightarrow> None
      | e # t \<Rightarrow>
          (case (hex_value c, hex_value e) of
             (Some a, Some b) \<Rightarrow> map_option (\<lambda>bs. word_of_nat (16 * a + b) # bs) (fromhex t)
           | _ \<Rightarrow> None))"

definition bytes_value :: "coercions \<Rightarrow> json \<Rightarrow> bytes option" where
  "bytes_value co j =
     (case j of
        JStr s \<Rightarrow> Some (case fromhex s of Some bs \<Rightarrow> bs | None \<Rightarrow> utf8 s)
      | _ \<Rightarrow> co_bytes co j)"

text \<open>\<^verbatim>\<open>_MODEL_BY_TYPE\<close> and the fields of each model beyond the common ones.\<close>

definition MODEL_FIELDS :: "(string, string list) pydict" where
  "MODEL_FIELDS =
     [(''tool_call.start'', [''agent_id'', ''tool_name'', ''tool_args'', ''declared_purpose'', ''tool_call_id'', ''schema_hash'']),
      (''tool_call.end'', [''agent_id'', ''tool_call_id'', ''status'', ''result_summary'', ''error'']),
      (''llm.call'', [''agent_id'', ''model'', ''messages_hash'', ''tokens_in'', ''tokens_out'']),
      (''memory.read'', [''agent_id'', ''store'', ''keys_or_query'', ''source'']),
      (''memory.write'', [''agent_id'', ''store'', ''keys_or_query'', ''source'']),
      (''agent.message'', [''sender_id'', ''receiver_id'', ''message_hash'', ''signature'']),
      (''intent.declare'', [''agent_id'', ''intent'', ''plan_steps'']),
      (''syscall.openat'', [''path'', ''flags'']),
      (''syscall.connect'', [''family'', ''addr'', ''port'']),
      (''syscall.execve'', [''binary'', ''argv'']),
      (''syscall.sendto'', [''fd'', ''bytes_sent'', ''dest_addr'']),
      (''syscall.dns'', [''query_name'', ''results''])]"

definition COMMON_FIELDS :: "string list" where
  "COMMON_FIELDS = [''event_id'', ''run_id'', ''tenant_id'', ''span_id'', ''parent_span_id'', ''channel'', ''event_type'', ''ts'',
     ''pid'', ''schema_version'']"

definition tool_call_start_of :: "coercions \<Rightarrow> (string, json) pydict \<Rightarrow> event_body option" where
  "tool_call_start_of co data = do {
     agent \<leftarrow> required (co_uuid co) data ''agent_id'';
     tool \<leftarrow> required (co_str co) data ''tool_name'';
     args \<leftarrow> with_default [] (co_dict co) data ''tool_args'';
     purpose \<leftarrow> with_default None (nullable (co_str co)) data ''declared_purpose'';
     call \<leftarrow> with_default None (nullable (co_uuid co)) data ''tool_call_id'';
     schema \<leftarrow> with_default None (nullable (co_str co)) data ''schema_hash'';
     Some (ToolCallStart agent tool args purpose call schema) }"

definition tool_call_end_of :: "coercions \<Rightarrow> (string, json) pydict \<Rightarrow> event_body option" where
  "tool_call_end_of co data = do {
     agent \<leftarrow> required (co_uuid co) data ''agent_id'';
     call \<leftarrow> required (co_uuid co) data ''tool_call_id'';
     status \<leftarrow> required (literal [''success'', ''error'']) data ''status'';
     summary \<leftarrow> with_default None (nullable (co_str co)) data ''result_summary'';
     err \<leftarrow> with_default None (nullable (co_str co)) data ''error'';
     Some (ToolCallEnd agent call status summary err) }"

definition llm_call_of :: "coercions \<Rightarrow> (string, json) pydict \<Rightarrow> event_body option" where
  "llm_call_of co data = do {
     agent \<leftarrow> required (co_uuid co) data ''agent_id'';
     model \<leftarrow> required (co_str co) data ''model'';
     h \<leftarrow> required (bytes_value co) data ''messages_hash'';
     tin \<leftarrow> with_default 0 (co_int co) data ''tokens_in'';
     tout \<leftarrow> with_default 0 (co_int co) data ''tokens_out'';
     Some (LLMCall agent model h tin tout) }"

definition memory_op_of :: "coercions \<Rightarrow> (string, json) pydict \<Rightarrow> event_body option" where
  "memory_op_of co data = do {
     agent \<leftarrow> required (co_uuid co) data ''agent_id'';
     store \<leftarrow> required (literal [''session'', ''long_term'']) data ''store'';
     keys \<leftarrow> with_default [] (co_strs co) data ''keys_or_query'';
     source \<leftarrow> with_default None (nullable (co_str co)) data ''source'';
     kind \<leftarrow> required (literal [''memory.read'', ''memory.write'']) data ''event_type'';
     Some (MemoryOp (if kind = ''memory.read'' then MemRead else MemWrite) agent store keys source) }"

definition agent_message_of :: "coercions \<Rightarrow> (string, json) pydict \<Rightarrow> event_body option" where
  "agent_message_of co data = do {
     sender \<leftarrow> required (co_uuid co) data ''sender_id'';
     receiver \<leftarrow> required (co_uuid co) data ''receiver_id'';
     h \<leftarrow> required (bytes_value co) data ''message_hash'';
     sig \<leftarrow> required (bytes_value co) data ''signature'';
     Some (InterAgentMessage sender receiver h sig) }"

definition intent_of :: "coercions \<Rightarrow> (string, json) pydict \<Rightarrow> event_body option" where
  "intent_of co data = do {
     agent \<leftarrow> required (co_uuid co) data ''agent_id'';
     intent \<leftarrow> required (co_str co) data ''intent'';
     steps \<leftarrow> with_default [] (co_strs co) data ''plan_steps'';
     Some (IntentDeclaration agent intent steps) }"

definition openat_of :: "coercions \<Rightarrow> (string, json) pydict \<Rightarrow> event_body option" where
  "openat_of co data = do {
     path \<leftarrow> required (co_str co) data ''path'';
     flags \<leftarrow> with_default 0 (co_int co) data ''flags'';
     Some (SyscallOpenat path flags) }"

definition connect_of :: "coercions \<Rightarrow> (string, json) pydict \<Rightarrow> event_body option" where
  "connect_of co data = do {
     family \<leftarrow> required (literal [''AF_INET'', ''AF_INET6'', ''AF_UNIX'']) data ''family'';
     addr \<leftarrow> required (co_str co) data ''addr'';
     port \<leftarrow> with_default None (nullable (co_int co)) data ''port'';
     Some (SyscallConnect family addr port) }"

definition execve_of :: "coercions \<Rightarrow> (string, json) pydict \<Rightarrow> event_body option" where
  "execve_of co data = do {
     binary \<leftarrow> required (co_str co) data ''binary'';
     argv \<leftarrow> with_default [] (co_strs co) data ''argv'';
     Some (SyscallExecve binary argv) }"

definition sendto_of :: "coercions \<Rightarrow> (string, json) pydict \<Rightarrow> event_body option" where
  "sendto_of co data = do {
     fd \<leftarrow> required (co_int co) data ''fd'';
     n \<leftarrow> required (co_int co) data ''bytes_sent'';
     dest \<leftarrow> with_default None (nullable (co_str co)) data ''dest_addr'';
     Some (SyscallSendto fd n dest) }"

definition dns_of :: "coercions \<Rightarrow> (string, json) pydict \<Rightarrow> event_body option" where
  "dns_of co data = do {
     name \<leftarrow> required (co_str co) data ''query_name'';
     results \<leftarrow> with_default [] (co_strs co) data ''results'';
     Some (DnsQueryEvent name results) }"

definition body_of :: "coercions \<Rightarrow> string \<Rightarrow> (string, json) pydict \<Rightarrow> event_body option" where
  "body_of co etype data =
     (if etype = ''tool_call.start'' then tool_call_start_of co data
      else if etype = ''tool_call.end'' then tool_call_end_of co data
      else if etype = ''llm.call'' then llm_call_of co data
      else if etype = ''memory.read'' \<or> etype = ''memory.write'' then memory_op_of co data
      else if etype = ''agent.message'' then agent_message_of co data
      else if etype = ''intent.declare'' then intent_of co data
      else if etype = ''syscall.openat'' then openat_of co data
      else if etype = ''syscall.connect'' then connect_of co data
      else if etype = ''syscall.execve'' then execve_of co data
      else if etype = ''syscall.sendto'' then sendto_of co data
      else if etype = ''syscall.dns'' then dns_of co data
      else None)"

definition channel_literal :: "string \<Rightarrow> string" where
  "channel_literal etype = (if startswith etype ''syscall.'' then ''INVOLUNTARY'' else ''VOLUNTARY'')"

definition type_literals :: "string \<Rightarrow> string list" where
  "type_literals etype =
     (if etype = ''memory.read'' \<or> etype = ''memory.write'' then [''memory.read'', ''memory.write''] else [etype])"

definition row_base :: "event_row \<Rightarrow> (string, json) pydict" where
  "row_base r =
     [(''event_id'', JStr (er_event_id r)), (''run_id'', JStr (er_run_id r)), (''tenant_id'', JStr (er_tenant_id r)),
      (''span_id'', JStr (er_span_id r)),
      (''parent_span_id'', case er_parent_span_id r of None \<Rightarrow> JNull | Some u \<Rightarrow> JStr u),
      (''channel'', JStr (er_channel r)), (''event_type'', JStr (er_event_type r)), (''pid'', er_pid r)]"

definition row_data :: "event_row \<Rightarrow> (string, json) pydict" where
  "row_data r =
     dict_update (row_base r)
       (filter (\<lambda>(k, _). k \<in> set (COMMON_FIELDS @ dict_get_or [] MODEL_FIELDS (er_event_type r))) (er_payload r))"

definition row_to_event :: "coercions \<Rightarrow> event_row \<Rightarrow> event option" where
  "row_to_event co r =
     (if er_event_type r \<notin> fst ` set MODEL_FIELDS then None
      else do {
        let data = row_data r;
        eid \<leftarrow> required (co_uuid co) data ''event_id'';
        run \<leftarrow> required (co_uuid co) data ''run_id'';
        tenant \<leftarrow> required (co_uuid co) data ''tenant_id'';
        span \<leftarrow> required (co_uuid co) data ''span_id'';
        parent \<leftarrow> with_default None (nullable (co_uuid co)) data ''parent_span_id'';
        channel \<leftarrow> required (literal [channel_literal (er_event_type r)]) data ''channel'';
        etype \<leftarrow> required (literal (type_literals (er_event_type r))) data ''event_type'';
        ts \<leftarrow> with_default (er_ts r) (co_datetime co) data ''ts'';
        pid \<leftarrow> with_default None (nullable (co_int co)) data ''pid'';
        version \<leftarrow> with_default 1 (co_int co) data ''schema_version'';
        body \<leftarrow> body_of co (er_event_type r) data;
        Some \<lparr> e_event_id = eid, e_run_id = run, e_tenant_id = tenant, e_span_id = span, e_parent_span_id = parent,
          e_ts = ts, e_pid = pid, e_schema_version = version, e_body = body \<rparr> })"

definition load_trace :: "coercions \<Rightarrow> uuid \<Rightarrow> uuid \<Rightarrow> db \<Rightarrow> trace" where
  "load_trace co run_id tenant_id d =
     (let rows = sort_key er_ts (filter (\<lambda>r. er_run_id r = run_id) (db_events d)); run = dict_get (db_runs d) run_id in
      \<lparr> tr_run_id = run_id, tr_tenant_id = tenant_id,
        tr_declared_goal = (case run of None \<Rightarrow> None | Some r \<Rightarrow> rr_declared_goal r),
        tr_events = List.map_filter (row_to_event co) rows,
        tr_metadata = (case run of None \<Rightarrow> [] | Some r \<Rightarrow> rr_metadata r) \<rparr>)"

section \<open>Results of a run\<close>

definition verdict_evidence_json :: "verdict \<Rightarrow> json" where
  "verdict_evidence_json v =
     JList (map (\<lambda>e. JObj [(''event_id'', case ev_event_id e of None \<Rightarrow> JNull | Some u \<Rightarrow> JStr u),
        (''reason'', JStr (ev_reason e))]) (vd_evidence v))"

definition result_value :: "verdict_result \<Rightarrow> string" where
  "result_value r = (case r of VIOLATION \<Rightarrow> ''VIOLATION'' | OK \<Rightarrow> ''OK'' | NEEDS_REVIEW \<Rightarrow> ''NEEDS_REVIEW'')"

definition verdict_row_of :: "verdict \<Rightarrow> verdict_row" where
  "verdict_row_of v =
     \<lparr> vr_verdict_id = vd_verdict_id v, vr_run_id = vd_run_id v, vr_tenant_id = vd_tenant_id v,
       vr_detector = vd_detector v, vr_asi_category = vd_asi_category v, vr_result = result_value (vd_result v),
       vr_confidence = vd_confidence v, vr_evidence = verdict_evidence_json v, vr_judge_model = vd_judge_model v,
       vr_judge_prompt_v = vd_judge_prompt_v v, vr_rubric_scores = vd_rubric_scores v, vr_ts = vd_ts v \<rparr>"

definition flag_row_of :: "flag \<Rightarrow> flag_row" where
  "flag_row_of f =
     \<lparr> fr_flag_id = fl_flag_id f, fr_run_id = fl_run_id f, fr_tenant_id = fl_tenant_id f,
       fr_severity = severity_value (fl_severity f), fr_asi_categories = fl_asi_categories f,
       fr_verdict_ids = fl_verdict_ids f, fr_status = fl_status f, fr_created_at = fl_created_at f,
       fr_resolved_at = None, fr_resolution = None \<rparr>"

definition store_run_result ::
  "uuid \<Rightarrow> timestamp \<Rightarrow> verdict list \<Rightarrow> flag option \<Rightarrow> db \<Rightarrow> store_error + db" where
  "store_run_result fresh now verdicts flag d =
     (let vrows = map verdict_row_of verdicts;
          frows = (case flag of None \<Rightarrow> [] | Some f \<Rightarrow> [flag_row_of f]);
          incs = (case flag of None \<Rightarrow> []
                  | Some f \<Rightarrow> (case open_incident_for_flag fresh now (fl_flag_id f) (fl_tenant_id f)
                       (Some (severity_value (fl_severity f))) of None \<Rightarrow> [] | Some i \<Rightarrow> [i]))
      in if set (map vr_run_id vrows @ map fr_run_id frows) \<subseteq> fst ` set (db_runs d) \<and>
            distinct (map vr_verdict_id (db_verdicts d @ vrows)) \<and> distinct (map fr_flag_id (db_flags d @ frows)) \<and>
            distinct (map ic_incident_id (db_incidents d @ incs))
         then Inr (d\<lparr> db_verdicts := db_verdicts d @ vrows, db_flags := db_flags d @ frows,
           db_incidents := db_incidents d @ incs \<rparr>)
         else Inl IntegrityError)"

section \<open>Dictionaries in sequence\<close>

lemma dict_get_update: "dict_get (dict_update d e) k = (case dict_get (rev e) k of None \<Rightarrow> dict_get d k | Some v \<Rightarrow> Some v)"
proof (induction e arbitrary: d)
  case (Cons p e)
  then show ?case
    by (cases p) (auto simp: dict_update_def dict_get_set map_add_def split: option.split)
qed (simp add: dict_update_def)

lemma dict_set_new: "k \<notin> fst ` set d \<Longrightarrow> dict_set k v d = d @ [(k, v)]"
  by (induction d) auto

lemma dict_update_append:
  "distinct (map fst e) \<Longrightarrow> fst ` set e \<inter> fst ` set d = {} \<Longrightarrow> dict_update d e = d @ e"
proof (induction e arbitrary: d)
  case (Cons p e)
  obtain k v where p: "p = (k, v)" by (cases p) auto
  have "dict_update d (p # e) = dict_update (d @ [(k, v)]) e"
    using Cons.prems by (simp add: dict_update_def p dict_set_new)
  also have "\<dots> = (d @ [(k, v)]) @ e" using Cons.prems by (intro Cons.IH) (auto simp: p)
  finally show ?case by (simp add: p)
qed (simp add: dict_update_def)

lemma wire_base_keys: "map fst (wire_base w) = BASE_KEYS"
  by (simp add: wire_base_def BASE_KEYS_def)

lemma wire_fields_keys:
  assumes "wire_fields loads p = Inr fs"
  shows "distinct (map fst fs)" "fst ` set fs \<inter> set BASE_KEYS = {}" "''ts'' \<notin> fst ` set fs" "''schema_version'' \<notin> fst ` set fs"
  using assms by (cases p; fastforce simp: BASE_KEYS_def map_sum_Inr_iff)+

lemma not_in_disjoint: "A \<inter> B = {} \<Longrightarrow> k \<in> B \<Longrightarrow> k \<notin> A"
  by blast

lemma wire_fields_reserved:
  assumes "wire_fields loads p = Inr fs"
  shows "fst ` set fs \<inter> set (''ts'' # ''schema_version'' # BASE_KEYS) = {}"
  using wire_fields_keys(2-4) [OF assms] by (simp only: list.set Int_insert_right if_False)

lemma event_to_dict_Inr:
  assumes "event_to_dict loads w = Inr ev"
  obtains fs where "wire_fields loads (we_payload w) = Inr fs" "ev = wire_base w @ fs"
proof -
  obtain fs where f: "wire_fields loads (we_payload w) = Inr fs" "ev = dict_update (wire_base w) fs"
    using assms by (auto simp: event_to_dict_def map_sum_Inr_iff)
  have "fst ` set fs \<inter> fst ` set (wire_base w) = {}"
    using wire_fields_keys(2) [OF f(1)] wire_base_keys [of w] by (metis list.set_map)
  then show ?thesis using that f dict_update_append wire_fields_keys(1) by metis
qed

lemma payload_of_dict:
  assumes "wire_fields loads (we_payload w) = Inr fs"
  shows "filter (\<lambda>(k, _). k \<notin> set BASE_KEYS) (wire_base w @ fs) = fs"
proof -
  have "filter (\<lambda>(k, _). k \<notin> set BASE_KEYS) fs = fs"
    using wire_fields_keys(2) [OF assms] by (intro filter_True) auto
  moreover have "filter (\<lambda>(k, _). k \<notin> set BASE_KEYS) (wire_base w) = []"
    using wire_base_keys [of w] by (auto simp: filter_empty_conv) (metis fst_conv imageI list.set_map)
  ultimately show ?thesis by simp
qed

lemma dict_get_filter: "dict_get (filter (\<lambda>(k, _). P k) d) k = (if P k then dict_get d k else None)"
  by (induction d) auto

lemma dict_get_rev: "distinct (map fst d) \<Longrightarrow> dict_get (rev d) k = dict_get d k"
proof -
  assume d: "distinct (map fst d)"
  then have "dict_get (rev d) k = Some v \<longleftrightarrow> dict_get d k = Some v" for v
    by (simp add: rev_map [symmetric])
  then show ?thesis by (cases "dict_get d k") (metis not_Some_eq)+
qed

lemma row_data_get:
  assumes "distinct (map fst (er_payload r))"
  shows "dict_get (row_data r) k =
    (if k \<in> set (COMMON_FIELDS @ dict_get_or [] MODEL_FIELDS (er_event_type r)) \<and> k \<in> fst ` set (er_payload r)
     then dict_get (er_payload r) k else dict_get (row_base r) k)"
proof -
  let ?f = "filter (\<lambda>(k, _). k \<in> set (COMMON_FIELDS @ dict_get_or [] MODEL_FIELDS (er_event_type r))) (er_payload r)"
  have "distinct (map fst ?f)" using assms by (simp add: distinct_map_filter)
  then have e: "dict_get (rev ?f) k = dict_get ?f k" by (rule dict_get_rev)
  have dom: "k \<in> fst ` set (er_payload r) \<longleftrightarrow> dict_get (er_payload r) k \<noteq> None" by (simp add: map_of_eq_None_iff)
  show ?thesis
    unfolding row_data_def dict_get_update e dict_get_filter dom by (auto split: option.split)
qed

section \<open>What a wire event means\<close>

definition canonical :: "uuid \<Rightarrow> bool" where
  "canonical u \<longleftrightarrow> parse_uuid u = Some u"

definition non_empty :: "string \<Rightarrow> string option" where
  "non_empty s = (if s = [] then None else Some s)"

text \<open>The typed body of a well-formed payload; \<open>None\<close> for one that the schemas do not admit.\<close>

fun typed_body :: "(string \<Rightarrow> py_error + json) \<Rightarrow> string \<Rightarrow> wire_payload \<Rightarrow> event_body option" where
  "typed_body loads etype (W_tool_call_start agent tool args purpose call schema) =
     (if etype = ''tool_call.start'' \<and> canonical agent \<and> (call = [] \<or> canonical call)
      then (case (if args = [] then Inr (JObj []) else loads args) of
              Inr (JObj d) \<Rightarrow> Some (ToolCallStart agent tool d (non_empty purpose) (non_empty call) (non_empty schema))
            | _ \<Rightarrow> None)
      else None)"
| "typed_body loads etype (W_tool_call_end agent call status summary err) =
     (if etype = ''tool_call.end'' \<and> canonical agent \<and> canonical call \<and> status \<in> {''success'', ''error''}
      then Some (ToolCallEnd agent call status (non_empty summary) (non_empty err)) else None)"
| "typed_body loads etype (W_llm_call agent model h tin tout) =
     (if etype = ''llm.call'' \<and> canonical agent \<and> h \<noteq> [] then Some (LLMCall agent model h tin tout) else None)"
| "typed_body loads etype (W_memory_op agent op store keys source) =
     (if etype \<in> {''memory.read'', ''memory.write''} \<and> canonical agent \<and> store \<in> {''session'', ''long_term''}
      then Some (MemoryOp (if etype = ''memory.read'' then MemRead else MemWrite) agent store keys (non_empty source))
      else None)"
| "typed_body loads etype (W_intent_declare agent intent steps) =
     (if etype = ''intent.declare'' \<and> canonical agent then Some (IntentDeclaration agent intent steps) else None)"
| "typed_body loads etype (W_agent_message sender receiver h sig) =
     (if etype = ''agent.message'' \<and> canonical sender \<and> canonical receiver \<and> h \<noteq> [] \<and> sig \<noteq> []
      then Some (InterAgentMessage sender receiver h sig) else None)"
| "typed_body loads etype (W_syscall_openat path flags) =
     (if etype = ''syscall.openat'' then Some (SyscallOpenat path flags) else None)"
| "typed_body loads etype (W_syscall_connect family addr port) =
     (if etype = ''syscall.connect'' \<and> family \<in> {''AF_INET'', ''AF_INET6'', ''AF_UNIX''}
      then Some (SyscallConnect family addr (Some port)) else None)"
| "typed_body loads etype (W_syscall_execve binary argv) =
     (if etype = ''syscall.execve'' then Some (SyscallExecve binary argv) else None)"
| "typed_body loads etype (W_syscall_sendto fd n dest) =
     (if etype = ''syscall.sendto'' then Some (SyscallSendto fd n (non_empty dest)) else None)"
| "typed_body loads etype (W_dns_query name results) =
     (if etype = ''syscall.dns'' then Some (DnsQueryEvent name results) else None)"
| "typed_body loads etype W_no_payload = None"

definition wire_wf :: "wire_event \<Rightarrow> bool" where
  "wire_wf w \<longleftrightarrow>
     canonical (we_event_id w) \<and> canonical (we_run_id w) \<and> canonical (we_tenant_id w) \<and> canonical (we_span_id w) \<and>
     (we_parent_span_id w = [] \<or> canonical (we_parent_span_id w)) \<and>
     (we_channel w = 2 \<longleftrightarrow> startswith (we_event_type w) ''syscall.'')"

definition typed_event :: "timestamp \<Rightarrow> wire_event \<Rightarrow> event_body \<Rightarrow> event" where
  "typed_event now w b =
     \<lparr> e_event_id = we_event_id w, e_run_id = we_run_id w, e_tenant_id = we_tenant_id w, e_span_id = we_span_id w,
       e_parent_span_id = non_empty (we_parent_span_id w), e_ts = event_ts now w,
       e_pid = (if we_pid w = 0 then None else Some (we_pid w)), e_schema_version = 1, e_body = b \<rparr>"

text \<open>What pydantic documents of values that already have the type of the field.\<close>

definition coercion_laws :: "coercions \<Rightarrow> bool" where
  "coercion_laws co \<longleftrightarrow>
     (\<forall>u. canonical u \<longrightarrow> co_uuid co (JStr u) = Some u) \<and> (\<forall>s. co_str co (JStr s) = Some s) \<and>
     (\<forall>n. co_int co (JInt n) = Some n) \<and> (\<forall>d. co_dict co (JObj d) = Some d) \<and>
     (\<forall>xs. co_strs co (JList (map JStr xs)) = Some xs) \<and> co_bytes co JNull = None"

text \<open>What PostgreSQL documents of a \<^verbatim>\<open>JSONB\<close> object: it is refused only for a NUL character in a text; otherwise it
  keeps its keys, without duplicates, and every value without floats up to the order of keys at any level. (A
  float may come back as another number, so nothing is said about values that hold one.)\<close>

fun json_nul :: "json \<Rightarrow> bool" where
  "json_nul (JStr t) = (CHR 0x00 \<in> set t)"
| "json_nul (JList xs) = list_ex json_nul xs"
| "json_nul (JObj kvs) = list_ex (\<lambda>(k, v). CHR 0x00 \<in> set k \<or> json_nul v) kvs"
| "json_nul _ = False"

definition jsonb_laws :: "((string, json) pydict \<Rightarrow> (string, json) pydict option) \<Rightarrow> bool" where
  "jsonb_laws jb \<longleftrightarrow> (\<forall>d. wf_dict d \<longrightarrow>
     (case jb d of
        None \<Rightarrow> json_nul (JObj d)
      | Some d' \<Rightarrow> wf_dict d' \<and> fst ` set d' = fst ` set d \<and>
          (\<forall>k v. dict_get d k = Some v \<longrightarrow> no_float v \<longrightarrow> (\<exists>v'. dict_get d' k = Some v' \<and> json_sorted v' = json_sorted v))))"

text \<open>A scalar or a list of texts has no keys to order.\<close>

definition json_flat :: "json \<Rightarrow> bool" where
  "json_flat v \<longleftrightarrow> no_float v \<and> (case v of JObj _ \<Rightarrow> False | JList xs \<Rightarrow> list_all (\<lambda>x. \<exists>t. x = JStr t) xs | _ \<Rightarrow> True)"

lemma json_flat_simps [simp]:
  "json_flat JNull" "json_flat (JStr t)" "json_flat (JInt i)" "json_flat (jstrs ts)" "json_flat (or_none t)" "json_flat (hex_or_none bs)"
  by (simp_all add: json_flat_def jstrs_def or_none_def hex_or_none_def list_all_iff)

lemma json_flat_sorted:
  assumes "json_flat v" "json_sorted v' = json_sorted v"
  shows "v' = v"
proof -
  have list: "ys = xs" if "map json_sorted ys = map json_sorted xs" "list_all (\<lambda>x. \<exists>t. x = JStr t) xs" for xs ys
    using that
  proof (induction xs arbitrary: ys)
    case (Cons x xs)
    then obtain y zs t where ys: "ys = y # zs" "x = JStr t" "json_sorted y = JStr t" "map json_sorted zs = map json_sorted xs"
      by (cases ys) auto
    have "y = JStr t" using ys(3) by (cases y) auto
    with Cons ys show ?case by simp
  qed simp
  show ?thesis using assms list by (cases v; cases v') (auto simp: json_flat_def)
qed

lemma jsonb_get:
  assumes "jsonb_laws jb" "jb d = Some d'" "wf_dict d"
  shows "wf_dict d'" "fst ` set d' = fst ` set d"
    "dict_get d k = Some v \<Longrightarrow> no_float v \<Longrightarrow> \<exists>v'. dict_get d' k = Some v' \<and> json_sorted v' = json_sorted v"
    "dict_get d k = Some v \<Longrightarrow> json_flat v \<Longrightarrow> dict_get d' k = Some v"
proof -
  note law = assms(1) [unfolded jsonb_laws_def, rule_format, OF assms(3)]
  show "wf_dict d'" "fst ` set d' = fst ` set d"
    "dict_get d k = Some v \<Longrightarrow> no_float v \<Longrightarrow> \<exists>v'. dict_get d' k = Some v' \<and> json_sorted v' = json_sorted v"
    using law assms(2) by simp_all
  then show "dict_get d k = Some v \<Longrightarrow> json_flat v \<Longrightarrow> dict_get d' k = Some v"
    by (metis json_flat_def json_flat_sorted)
qed

section \<open>Hexadecimal text\<close>

lemma hex_digit_value: "n < 16 \<Longrightarrow> hex_value (hex_digit n) = Some n \<and> \<not> hex_space (hex_digit n)"
proof -
  have "\<forall>n \<in> {0..<16}. hex_value (hex_digit n) = Some n \<and> \<not> hex_space (hex_digit n)"
    by code_simp
  then show "n < 16 \<Longrightarrow> ?thesis" by simp
qed

lemma fromhex_hex: "fromhex (hex bs) = Some bs"
proof (induction bs)
  case (Cons b bs)
  have "unat b < 256" using unsigned_less [of b, where ?'a = nat] by simp
  then have d: "unat b div 16 < 16" "unat b mod 16 < 16" by simp_all
  have "hex (b # bs) = hex_digit (unat b div 16) # hex_digit (unat b mod 16) # hex bs"
    by (simp add: hex_def hex_byte_def)
  moreover have "word_of_nat (16 * (unat b div 16) + unat b mod 16) = b"
    unfolding mult_div_mod_eq by simp
  ultimately show ?case
    using Cons hex_digit_value [OF d(1)] hex_digit_value [OF d(2)] by simp
qed (simp add: hex_def)

lemma bytes_value_hex: "bytes_value co (hex_or_none bs) = (if bs = [] then co_bytes co JNull else Some bs)"
  by (simp add: bytes_value_def hex_or_none_def fromhex_hex)

section \<open>Storing a well-formed event\<close>

lemma canonical_arg: "canonical u \<Longrightarrow> uuid_arg (JStr u) = Inr u"
  by (simp add: canonical_def uuid_arg_def)

lemma canonical_ne: "canonical u \<Longrightarrow> u \<noteq> []"
  by (auto simp: canonical_def parse_uuid_def strip_braces_def)

definition stored_row :: "redaction \<Rightarrow> timestamp \<Rightarrow> wire_event \<Rightarrow> (string, json) pydict \<Rightarrow> event_row" where
  "stored_row rx now w fs =
     \<lparr> er_event_id = we_event_id w, er_run_id = we_run_id w, er_tenant_id = we_tenant_id w, er_span_id = we_span_id w,
       er_parent_span_id = non_empty (we_parent_span_id w),
       er_channel = (if we_channel w = 2 then ''INVOLUNTARY'' else ''VOLUNTARY''), er_event_type = we_event_type w,
       er_ts = event_ts now w, er_pid = (if we_pid w = 0 then JNull else JInt (we_pid w)),
       er_payload = fst (redact_payload rx fs), er_payload_hash = payload_hash fs \<rparr>"

lemma stored_row_fields:
  "er_event_id (stored_row rx now w fs) = we_event_id w" "er_run_id (stored_row rx now w fs) = we_run_id w"
  "er_tenant_id (stored_row rx now w fs) = we_tenant_id w" "er_span_id (stored_row rx now w fs) = we_span_id w"
  "er_parent_span_id (stored_row rx now w fs) = non_empty (we_parent_span_id w)"
  "er_channel (stored_row rx now w fs) = (if we_channel w = 2 then ''INVOLUNTARY'' else ''VOLUNTARY'')"
  "er_event_type (stored_row rx now w fs) = we_event_type w" "er_ts (stored_row rx now w fs) = event_ts now w"
  "er_pid (stored_row rx now w fs) = (if we_pid w = 0 then JNull else JInt (we_pid w))"
  "er_payload (stored_row rx now w fs) = fst (redact_payload rx fs)"
  by (simp_all add: stored_row_def)

lemma wire_base_get:
  "dict_get (wire_base w @ fs) ''event_id'' = Some (JStr (we_event_id w))"
  "dict_get (wire_base w @ fs) ''run_id'' = Some (JStr (we_run_id w))"
  "dict_get (wire_base w @ fs) ''tenant_id'' = Some (JStr (we_tenant_id w))"
  "dict_get (wire_base w @ fs) ''span_id'' = Some (JStr (we_span_id w))"
  "dict_get (wire_base w @ fs) ''parent_span_id'' = Some (or_none (we_parent_span_id w))"
  "dict_get (wire_base w @ fs) ''channel'' = Some (JStr (if we_channel w = 2 then ''INVOLUNTARY'' else ''VOLUNTARY''))"
  "dict_get (wire_base w @ fs) ''event_type'' = Some (JStr (we_event_type w))"
  "dict_get (wire_base w @ fs) ''pid'' = Some (if we_pid w = 0 then JNull else JInt (we_pid w))"
  by (simp_all add: wire_base_def)

lemma event_row_of_wire:
  assumes f: "wire_fields loads (we_payload w) = Inr fs" and wf: "wire_wf w" and ev: "ev = wire_base w @ fs"
  shows "event_row_of rx fresh ev (event_ts now w) = Inr (stored_row rx now w fs)"
proof -
  note g = wire_base_get [of w fs, folded ev]
  have "opt_uuid_field ev ''event_id'' = Inr (Some (we_event_id w))"
    "opt_uuid_field ev ''parent_span_id'' = Inr (non_empty (we_parent_span_id w))"
    "uuid_field ev ''run_id'' = Inr (we_run_id w)"
    "uuid_field ev ''tenant_id'' = Inr (we_tenant_id w)"
    "uuid_field ev ''span_id'' = Inr (we_span_id w)"
    using wf
    by (auto simp: wire_wf_def opt_uuid_field_def uuid_field_def dict_get_or_def g canonical_arg canonical_ne
        json_truthy_def or_none_def non_empty_def)
  then show ?thesis
    unfolding event_row_of_def Let_def payload_of_dict [OF f, folded ev]
    by (simp add: str_field_def g dict_get_or_def stored_row_def)
qed

lemma typed_fields:
  assumes "typed_body loads etype p = Some b"
  shows "\<exists>fs. wire_fields loads p = Inr fs"
  using assms by (cases p) (auto split: sum.splits if_splits)

text \<open>A payload that redaction leaves alone is read back as the typed body.\<close>

lemma model_fields:
  "dict_get_or [] MODEL_FIELDS ''tool_call.start'' = [''agent_id'', ''tool_name'', ''tool_args'', ''declared_purpose'', ''tool_call_id'', ''schema_hash'']"
  "dict_get_or [] MODEL_FIELDS ''tool_call.end'' = [''agent_id'', ''tool_call_id'', ''status'', ''result_summary'', ''error'']"
  "dict_get_or [] MODEL_FIELDS ''llm.call'' = [''agent_id'', ''model'', ''messages_hash'', ''tokens_in'', ''tokens_out'']"
  "dict_get_or [] MODEL_FIELDS ''memory.read'' = [''agent_id'', ''store'', ''keys_or_query'', ''source'']"
  "dict_get_or [] MODEL_FIELDS ''memory.write'' = [''agent_id'', ''store'', ''keys_or_query'', ''source'']"
  "dict_get_or [] MODEL_FIELDS ''agent.message'' = [''sender_id'', ''receiver_id'', ''message_hash'', ''signature'']"
  "dict_get_or [] MODEL_FIELDS ''intent.declare'' = [''agent_id'', ''intent'', ''plan_steps'']"
  "dict_get_or [] MODEL_FIELDS ''syscall.openat'' = [''path'', ''flags'']"
  "dict_get_or [] MODEL_FIELDS ''syscall.connect'' = [''family'', ''addr'', ''port'']"
  "dict_get_or [] MODEL_FIELDS ''syscall.execve'' = [''binary'', ''argv'']"
  "dict_get_or [] MODEL_FIELDS ''syscall.sendto'' = [''fd'', ''bytes_sent'', ''dest_addr'']"
  "dict_get_or [] MODEL_FIELDS ''syscall.dns'' = [''query_name'', ''results'']"
  by (simp_all add: MODEL_FIELDS_def dict_get_or_def)

lemmas readers = body_of_def tool_call_start_of_def tool_call_end_of_def llm_call_of_def memory_op_of_def agent_message_of_def
  intent_of_def openat_of_def connect_of_def execve_of_def sendto_of_def dns_of_def required_def with_default_def literal_def

text \<open>The same body, but for the order of keys in tool arguments.\<close>

fun same_body :: "event_body \<Rightarrow> event_body \<Rightarrow> bool" where
  "same_body (ToolCallStart agent tool args purpose call schema) b =
     (\<exists>args'. b = ToolCallStart agent tool args' purpose call schema \<and> json_sorted (JObj args') = json_sorted (JObj args))"
| "same_body a b = (b = a)"

lemma same_body_refl: "same_body b b"
  by (cases b) simp_all

lemma flat_fields:
  assumes "wire_fields loads p = Inr fs" "\<nexists>agent tool args purpose call schema. p = W_tool_call_start agent tool args purpose call schema"
  shows "\<forall>(k, v) \<in> set fs. json_flat v"
  using assms by (cases p) auto

text \<open>The payload as it is read back is the one of a wire event with reordered arguments.\<close>

lemma read_back_fields:
  assumes laws: "jsonb_laws jb" and jb: "jb fs = Some fs'" and f: "wire_fields loads p = Inr fs"
    and nf: "no_float (JObj fs)" and b: "typed_body loads etype p = Some b"
  shows "\<exists>loads' fs2 b'. wire_fields loads' p = Inr fs2 \<and> typed_body loads' etype p = Some b' \<and> same_body b b' \<and>
    (\<forall>(k, v) \<in> set fs2. dict_get fs' k = Some v)"
proof -
  have wf: "wf_dict fs" using wire_fields_keys(1) [OF f] by (simp add: wf_dict_def)
  note get = jsonb_get [OF laws jb wf]
  have mem: "dict_get fs k = Some v" if "(k, v) \<in> set fs" for k v
    using that wf by (simp add: wf_dict_def)
  have flat: "dict_get fs' k = Some v" if "(k, v) \<in> set fs" "json_flat v" for k v
    using get(4) mem that by blast
  show ?thesis
  proof (cases "\<exists>agent tool args purpose call schema. p = W_tool_call_start agent tool args purpose call schema")
    case False
    then have "\<forall>(k, v) \<in> set fs. json_flat v" using flat_fields [OF f] by blast
    then have "\<forall>(k, v) \<in> set fs. dict_get fs' k = Some v" using flat by auto
    with f b same_body_refl show ?thesis by blast
  next
    case True
    then obtain agent tool args purpose call schema where p: "p = W_tool_call_start agent tool args purpose call schema" by blast
    obtain d where d: "(if args = [] then Inr (JObj []) else loads args) = Inr (JObj d)"
      and bb: "b = ToolCallStart agent tool d (non_empty purpose) (non_empty call) (non_empty schema)"
      using b p by (auto split: if_splits sum.splits json.splits)
    have "fs = [(''agent_id'', or_none agent), (''tool_name'', JStr tool), (''tool_args'', JObj d),
        (''declared_purpose'', or_none purpose), (''tool_call_id'', or_none call), (''schema_hash'', or_none schema)]"
      using f p d by simp
    note fs = this
    have "no_float (JObj d)" using nf by (simp add: fs)
    then obtain v' where v': "dict_get fs' ''tool_args'' = Some v'" "json_sorted v' = json_sorted (JObj d)"
      using get(3) [of "''tool_args''" "JObj d"] by (auto simp: fs)
    obtain d' where d': "v' = JObj d'" using v'(2) by (cases v') auto
    have same: "json_sorted (JObj d') = json_sorted (JObj d)" using v'(2) by (simp only: d')
    let ?l = "\<lambda>_. Inr (JObj d') :: py_error + json"
    have e: "(if args = [] then Inr (JObj []) else ?l args) = (Inr (JObj d') :: py_error + json)"
    proof (cases "args = []")
      case True
      then have "d = []" using d by simp
      then have "sort_key fst (map (\<lambda>(k, v). (k, json_sorted v)) d') = []" using same by simp
      then have "length d' = 0" using length_sort [of fst "map (\<lambda>(k, v). (k, json_sorted v)) d'"] by simp
      with True show ?thesis by simp
    qed simp
    have "wire_fields ?l p = Inr [(''agent_id'', or_none agent), (''tool_name'', JStr tool), (''tool_args'', JObj d'),
        (''declared_purpose'', or_none purpose), (''tool_call_id'', or_none call), (''schema_hash'', or_none schema)]"
      using e p by simp
    moreover have "typed_body ?l etype p = Some (ToolCallStart agent tool d' (non_empty purpose) (non_empty call) (non_empty schema))"
      using b e p by (auto split: if_splits)
    moreover have "same_body b (ToolCallStart agent tool d' (non_empty purpose) (non_empty call) (non_empty schema))"
      using same by (simp add: bb del: json_sorted.simps)
    moreover have "\<forall>(k, v) \<in> set [(''agent_id'', or_none agent), (''tool_name'', JStr tool), (''tool_args'', JObj d'),
        (''declared_purpose'', or_none purpose), (''tool_call_id'', or_none call), (''schema_hash'', or_none schema)].
        dict_get fs' k = Some v"
      using flat v'(1) d' by (simp add: fs)
    ultimately show ?thesis by blast
  qed
qed

lemma body_of_typed:
  assumes laws: "coercion_laws co" and b: "typed_body loads etype p = Some b" and f: "wire_fields loads p = Inr fs"
    and ty: "dict_get data ''event_type'' = Some (JStr etype)"
    and g: "list_all (\<lambda>(k, v). k \<in> set (dict_get_or [] MODEL_FIELDS etype) \<longrightarrow> dict_get data k = Some v) fs"
  shows "body_of co etype data = Some b"
proof -
  have co: "canonical u \<Longrightarrow> co_uuid co (JStr u) = Some u" "co_str co (JStr s) = Some s"
    "co_int co (JInt n) = Some n" "co_dict co (JObj d) = Some d" "co_strs co (jstrs xs) = Some xs" for u s n d xs
    using laws by (auto simp: coercion_laws_def jstrs_def)
  have nn: "nullable (co_str co) (or_none s) = Some (non_empty s)" "nullable (co_int co) (JInt n) = Some (Some n)"
    "u = [] \<or> canonical u \<Longrightarrow> nullable (co_uuid co) (or_none u) = Some (non_empty u)" for s u n
    by (auto simp: nullable_def or_none_def non_empty_def co)
  have ag: "canonical u \<Longrightarrow> co_uuid co (or_none u) = Some u" for u
    by (simp add: or_none_def canonical_ne co)
  note rules = readers model_fields co nn ag bytes_value_hex ty
  show ?thesis
  proof (cases p)
    case W_tool_call_start
    then show ?thesis using b f g by (clarsimp simp: rules split: if_splits sum.splits json.splits)
  next
    case W_tool_call_end
    then show ?thesis using b f g by (clarsimp simp: rules split: if_splits)
  next
    case W_llm_call
    then show ?thesis using b f g by (clarsimp simp: rules split: if_splits)
  next
    case W_memory_op
    then show ?thesis using b f g by (clarsimp simp: rules split: if_splits)
  next
    case W_intent_declare
    then show ?thesis using b f g by (clarsimp simp: rules split: if_splits)
  next
    case W_agent_message
    then show ?thesis using b f g by (clarsimp simp: rules split: if_splits)
  next
    case W_syscall_openat
    then show ?thesis using b f g by (clarsimp simp: rules split: if_splits)
  next
    case W_syscall_connect
    then show ?thesis using b f g by (clarsimp simp: rules split: if_splits)
  next
    case W_syscall_execve
    then show ?thesis using b f g by (clarsimp simp: rules split: if_splits)
  next
    case W_syscall_sendto
    then show ?thesis using b f g by (clarsimp simp: rules split: if_splits)
  next
    case W_dns_query
    then show ?thesis using b f g by (clarsimp simp: rules split: if_splits)
  next
    case W_no_payload
    then show ?thesis using b by simp
  qed
qed

lemma redact_clean: "snd (redact_payload rx fs) = [] \<Longrightarrow> fst (redact_payload rx fs) = fs"
  by (auto simp: redact_payload_def Let_def split: if_splits json.splits)

lemma typed_type: "typed_body loads etype p = Some b \<Longrightarrow> etype \<in> fst ` set MODEL_FIELDS"
  by (cases p) (auto simp: MODEL_FIELDS_def split: if_splits)

lemma row_to_event_stored:
  assumes laws: "coercion_laws co" and jlaws: "jsonb_laws (rx_jsonb rx)" and wf: "wire_wf w"
    and b: "typed_body loads (we_event_type w) (we_payload w) = Some b"
    and f: "wire_fields loads (we_payload w) = Inr fs" and nf: "no_float (JObj fs)"
    and jb: "rx_jsonb rx fs = Some fs'"
  shows "\<exists>b'. same_body b b' \<and> row_to_event co ((stored_row rx now w fs)\<lparr> er_payload := fs' \<rparr>) = Some (typed_event now w b')"
proof -
  let ?r = "(stored_row rx now w fs)\<lparr> er_payload := fs' \<rparr>"
  obtain loads' fs2 b' where fs2: "wire_fields loads' (we_payload w) = Inr fs2" "same_body b b'"
      "\<forall>(k, v) \<in> set fs2. dict_get fs' k = Some v"
    and b': "typed_body loads' (we_event_type w) (we_payload w) = Some b'"
    using read_back_fields [OF jlaws jb f nf b] by blast
  have pl: "er_payload ?r = fs'" "er_event_type ?r = we_event_type w" by (simp_all add: stored_row_fields)
  have "wf_dict fs" using wire_fields_keys(1) [OF f] by (simp add: wf_dict_def)
  note col = jsonb_get(1,2) [OF jlaws jb this]
  have dist: "distinct (map fst (er_payload ?r))" using col(1) by (simp add: wf_dict_def)
  have base: "dict_get (row_data ?r) k = dict_get (row_base ?r) k"
    if "k \<in> set (''ts'' # ''schema_version'' # BASE_KEYS)" for k
  proof -
    have "k \<notin> fst ` set fs'" using wire_fields_reserved [OF f] that unfolding col(2) by (rule not_in_disjoint)
    then show ?thesis using row_data_get [OF dist, of k] pl(1) by simp
  qed
  have fields: "list_all (\<lambda>(k, v). k \<in> set (dict_get_or [] MODEL_FIELDS (we_event_type w)) \<longrightarrow> dict_get (row_data ?r) k = Some v) fs2"
  proof -
    have "dict_get (row_data ?r) k = Some v"
      if "(k, v) \<in> set fs2" "k \<in> set (dict_get_or [] MODEL_FIELDS (we_event_type w))" for k v
    proof -
      have g: "dict_get fs' k = Some v" using fs2(3) that(1) by auto
      then have "k \<in> fst ` set fs'" by (metis domI dom_map_of_conv_image_fst)
      with g row_data_get [OF dist, of k] that(2) show ?thesis by (simp add: pl)
    qed
    then show ?thesis by (auto simp: list_all_iff)
  qed
  have chan: "(if we_channel w = 2 then ''INVOLUNTARY'' else ''VOLUNTARY'') = channel_literal (we_event_type w)"
    using wf by (simp add: channel_literal_def wire_wf_def)
  have par: "(case non_empty (we_parent_span_id w) of None \<Rightarrow> JNull | Some u \<Rightarrow> JStr u) = or_none (we_parent_span_id w)"
    by (simp add: non_empty_def or_none_def)
  have d: "dict_get (row_data ?r) ''event_id'' = Some (JStr (we_event_id w))"
    "dict_get (row_data ?r) ''run_id'' = Some (JStr (we_run_id w))"
    "dict_get (row_data ?r) ''tenant_id'' = Some (JStr (we_tenant_id w))"
    "dict_get (row_data ?r) ''span_id'' = Some (JStr (we_span_id w))"
    "dict_get (row_data ?r) ''parent_span_id'' = Some (or_none (we_parent_span_id w))"
    "dict_get (row_data ?r) ''channel'' = Some (JStr (channel_literal (we_event_type w)))"
    "dict_get (row_data ?r) ''event_type'' = Some (JStr (we_event_type w))"
    "dict_get (row_data ?r) ''pid'' = Some (if we_pid w = 0 then JNull else JInt (we_pid w))"
    "dict_get (row_data ?r) ''ts'' = None" "dict_get (row_data ?r) ''schema_version'' = None"
    by (simp_all add: base BASE_KEYS_def row_base_def stored_row_fields chan par)
  have co: "canonical u \<Longrightarrow> co_uuid co (JStr u) = Some u" "co_int co (JInt n) = Some n" for u n
    using laws by (auto simp: coercion_laws_def)
  have parent: "nullable (co_uuid co) (or_none (we_parent_span_id w)) = Some (non_empty (we_parent_span_id w))"
    using wf canonical_ne by (auto simp: wire_wf_def nullable_def or_none_def non_empty_def co)
  have pid: "nullable (co_int co) (if we_pid w = 0 then JNull else JInt (we_pid w)) = Some (if we_pid w = 0 then None else Some (we_pid w))"
    by (simp add: nullable_def co)
  have body: "body_of co (we_event_type w) (row_data ?r) = Some b'"
    by (rule body_of_typed [OF laws b' fs2(1) d(7) fields])
  have "we_event_type w \<in> set (type_literals (we_event_type w))" by (simp add: type_literals_def)
  then have "row_to_event co ?r = Some (typed_event now w b')"
    using wf typed_type [OF b] unfolding row_to_event_def pl(2)
    by (simp add: required_def with_default_def d co parent pid body literal_def wire_wf_def typed_event_def
        stored_row_fields)
  with fs2(2) show ?thesis by blast
qed

lemma in_loaded_trace:
  assumes "r \<in> set (db_events d)" "row_to_event co r = Some e"
  shows "e \<in> set (tr_events (load_trace co (er_run_id r) tenant d))"
  using assms by (auto simp: load_trace_def Let_def List.map_filter_def intro!: rev_image_eqI)

section \<open>Signatures at rest\<close>

lemma dict_set_mem: "(k, v) \<in> set (dict_set q x d) \<Longrightarrow> (k, v) = (q, x) \<or> (k, v) \<in> set d"
  by (induction d) (auto split: if_splits)

lemma redacted_entry:
  assumes "(k, v) \<in> set (fst (redact_payload rx fs))" "k \<noteq> ''_pii_redacted''"
  shows "(k, v) \<in> set fs \<or> (\<exists>u. (k, u) \<in> set fs \<and> v = walk_and_redact (rx_redact rx) (Some k) u)"
  using assms unfolding redact_payload_def Let_def
  by (auto simp: structural_def dest!: dict_set_mem split: if_splits)

lemma signature_entry:
  assumes "wire_fields loads p = Inr fs" "(''signature'', v) \<in> set fs"
  shows "\<exists>sig. v = hex_or_none sig"
  using assms by (cases p) (auto simp: map_sum_Inr_iff)

lemma row_data_entry:
  assumes "dict_get (row_data r) k = Some v" "dict_get (row_base r) k = None"
  shows "(k, v) \<in> set (er_payload r)"
  using assms unfolding row_data_def dict_get_update by (auto dest: map_of_SomeD split: option.splits)

lemma body_of_message:
  assumes "body_of co etype data = Some (InterAgentMessage sender receiver h sig)"
  shows "agent_message_of co data = Some (InterAgentMessage sender receiver h sig)"
  using assms unfolding body_of_def
  by (simp add: tool_call_start_of_def tool_call_end_of_def llm_call_of_def memory_op_of_def intent_of_def openat_of_def
      connect_of_def execve_of_def sendto_of_def dns_of_def bind_eq_Some_conv split: if_splits)

lemma event_row_payload:
  assumes "event_row_of rx fresh (wire_base w @ fs) ts = Inr r" "wire_fields loads (we_payload w) = Inr fs"
  shows "er_payload r = fst (redact_payload rx fs)"
  using assms(1) unfolding event_row_of_def Let_def payload_of_dict [OF assms(2)]
  by (auto simp: sum_bind_Inr_iff)

lemma hex_ne: "bs \<noteq> [] \<Longrightarrow> hex bs \<noteq> []"
  by (cases bs) (simp_all add: hex_def hex_byte_def)

text \<open>The rows of a database that were written by \<^verbatim>\<open>store_event\<close> for events from the wire.\<close>

definition from_wire :: "redaction \<Rightarrow> (string \<Rightarrow> py_error + json) \<Rightarrow> db \<Rightarrow> bool" where
  "from_wire rx loads d \<longleftrightarrow> (\<forall>r \<in> set (db_events d). \<exists>w ev fresh ts r0 p.
     event_to_dict loads w = Inr ev \<and> event_row_of rx fresh ev ts = Inr r0 \<and>
     rx_jsonb rx (er_payload r0) = Some p \<and> r = r0\<lparr> er_payload := p \<rparr>)"

lemma store_event_from_wire:
  "from_wire rx loads d \<Longrightarrow> event_to_dict loads w = Inr ev \<Longrightarrow> store_event rx fresh ev ts d = Inr (u, d') \<Longrightarrow>
   from_wire rx loads d'"
  by (auto simp: from_wire_def store_event_def split: sum.splits if_splits option.splits) blast

text \<open>No hexadecimal text is redacted to nothing but white space.\<close>

definition redaction_visible :: "redaction \<Rightarrow> bool" where
  "redaction_visible rx \<longleftrightarrow> (\<forall>bs. bs \<noteq> [] \<longrightarrow> \<not> list_all hex_space (rx_redact rx (hex bs)))"

lemma fromhex_Nil: "fromhex t = Some [] \<Longrightarrow> list_all hex_space t"
  by (induction t rule: fromhex.induct) (auto split: if_splits list.splits option.splits)

lemma bytes_value_ne:
  assumes "bytes_value co (JStr t) = Some []"
  shows "list_all hex_space t"
  using assms fromhex_Nil utf8_inj [of t "[]"] by (auto simp: bytes_value_def utf8_def split: option.splits)

lemma wf_redacted:
  assumes "wf_dict fs"
  shows "wf_dict (fst (redact_payload rx fs))"
proof -
  have "map fst (map (\<lambda>(k, v). (k, walk_and_redact (rx_redact rx) (Some k) v)) fs) = map fst fs" by auto
  then have "wf_dict (map (\<lambda>(k, v). (k, walk_and_redact (rx_redact rx) (Some k) v)) fs)"
    using assms unfolding wf_dict_def by (simp only:)
  then show ?thesis using assms by (auto simp: redact_payload_def Let_def structural_def)
qed

lemma loaded_message_signed:
  assumes null: "co_bytes co JNull = None" and vis: "redaction_visible rx" and jlaws: "jsonb_laws (rx_jsonb rx)" and wire: "from_wire rx loads d"
    and e: "e \<in> set (tr_events (load_trace co run tenant d))" and body: "e_body e = InterAgentMessage sender receiver h sig"
  shows "sig \<noteq> []"
proof
  assume sig: "sig = []"
  obtain r where r: "r \<in> set (db_events d)" "row_to_event co r = Some e"
    using e by (auto simp: load_trace_def Let_def List.map_filter_def)
  obtain w ev fresh ts r0 p where ev: "event_to_dict loads w = Inr ev" "event_row_of rx fresh ev ts = Inr r0"
    and p: "rx_jsonb rx (er_payload r0) = Some p" "r = r0\<lparr> er_payload := p \<rparr>"
    using wire r(1) unfolding from_wire_def by blast
  obtain fs where fs: "wire_fields loads (we_payload w) = Inr fs" "ev = wire_base w @ fs" by (rule event_to_dict_Inr [OF ev(1)])
  have "body_of co (er_event_type r) (row_data r) = Some (InterAgentMessage sender receiver h sig)"
    using r(2) body by (auto simp: row_to_event_def Let_def bind_eq_Some_conv split: if_splits)
  from body_of_message [OF this] obtain v where v: "dict_get (row_data r) ''signature'' = Some v" "bytes_value co v = Some []"
    using sig by (auto simp: agent_message_of_def required_def bind_eq_Some_conv)
  have in_p: "(''signature'', v) \<in> set p" using row_data_entry [OF v(1)] p(2) by (simp add: row_base_def)
  have r0: "er_payload r0 = fst (redact_payload rx fs)" using event_row_payload ev(2) fs by metis
  have wf0: "wf_dict (er_payload r0)"
    using wire_fields_keys(1) [OF fs(1)] wf_redacted unfolding r0 by (simp add: wf_dict_def)
  note col = jsonb_get [OF jlaws p(1) wf0]
  have "''signature'' \<in> fst ` set (er_payload r0)" using in_p unfolding col(2) [symmetric] by force
  then obtain v0 where v0: "dict_get (er_payload r0) ''signature'' = Some v0" using map_of_eq_None_iff [of "er_payload r0" "''signature''"] by (cases "dict_get (er_payload r0) ''signature''") auto
  then have "(''signature'', v0) \<in> set (fst (redact_payload rx fs))" unfolding r0 by (rule map_of_SomeD)
  then obtain u where u0: "(''signature'', u) \<in> set fs" "v0 = u \<or> v0 = walk_and_redact (rx_redact rx) (Some ''signature'') u"
    using redacted_entry [of "''signature''" v0 rx fs] by auto
  obtain sg where sg: "u = hex_or_none sg" using signature_entry [OF fs(1) u0(1)] by blast
  have "json_flat v0" using u0(2) by (auto simp: sg hex_or_none_def)
  then have "dict_get p ''signature'' = Some v0" by (rule col(4) [OF v0])
  moreover have "dict_get p ''signature'' = Some v" using in_p col(1) by (simp add: wf_dict_def)
  ultimately have u: "v = u \<or> v = walk_and_redact (rx_redact rx) (Some ''signature'') u" using u0(2) by simp
  show False
  proof (cases "sg = []")
    case True
    then show False using u v(2) null by (auto simp: sg hex_or_none_def bytes_value_def)
  next
    case False
    have "bytes_value co (JStr (hex sg)) \<noteq> Some []" using False by (simp add: bytes_value_def fromhex_hex)
    moreover have "bytes_value co (JStr (rx_redact rx (hex sg))) \<noteq> Some []"
      using vis False bytes_value_ne unfolding redaction_visible_def by blast
    ultimately show False
      using u v(2) False by (auto simp: sg hex_or_none_def structural_def STRUCTURAL_KEYS_def)
  qed
qed

section \<open>Examples\<close>

definition example_uuid :: uuid where
  "example_uuid = ''00000000-0000-7000-8000-000000000001''"

definition example_coercions :: coercions where
  "example_coercions =
     \<lparr> co_uuid = (\<lambda>j. case j of JStr s \<Rightarrow> parse_uuid s | _ \<Rightarrow> None), co_str = (\<lambda>j. case j of JStr s \<Rightarrow> Some s | _ \<Rightarrow> None),
       co_int = (\<lambda>j. case j of JInt n \<Rightarrow> Some n | _ \<Rightarrow> None), co_bytes = (\<lambda>_. None),
       co_dict = (\<lambda>j. case j of JObj d \<Rightarrow> Some d | _ \<Rightarrow> None),
       co_strs = (\<lambda>j. case j of JList xs \<Rightarrow> those (map (\<lambda>x. case x of JStr s \<Rightarrow> Some s | _ \<Rightarrow> None) xs) | _ \<Rightarrow> None),
       co_datetime = (\<lambda>_. None) \<rparr>"

text \<open>A column that orders the keys of every object by length and then as texts, as the server does.\<close>

fun length_sorted :: "json \<Rightarrow> json" where
  "length_sorted (JList xs) = JList (map length_sorted xs)"
| "length_sorted (JObj kvs) = JObj (sort_key (length \<circ> fst) (sort_key fst (map (\<lambda>(k, v). (k, length_sorted v)) kvs)))"
| "length_sorted j = j"

definition example_jsonb :: "(string, json) pydict \<Rightarrow> (string, json) pydict option" where
  "example_jsonb d =
     (if json_nul (JObj d) then None
      else case length_sorted (JObj d) of JObj d' \<Rightarrow> Some d' | _ \<Rightarrow> None)"

definition example_redaction :: redaction where
  "example_redaction = \<lparr> rx_at_rest = True, rx_detect = (\<lambda>_. []), rx_redact = (\<lambda>s. ''<'' @ s), rx_jsonb = example_jsonb \<rparr>"

definition example_wire :: "string \<Rightarrow> int \<Rightarrow> wire_payload \<Rightarrow> wire_event" where
  "example_wire etype chan p =
     \<lparr> we_event_id = example_uuid, we_run_id = example_uuid, we_tenant_id = example_uuid, we_span_id = example_uuid,
       we_parent_span_id = [], we_channel = chan, we_event_type = etype, we_ts_unix_ns = 0, we_pid = 7, we_schema_version = 1, we_payload = p \<rparr>"

definition example_db :: db where
  "example_db = upsert_run example_uuid example_uuid None
     \<lparr> db_runs = [], db_events = [], db_gate_decisions = [], db_verdicts = [], db_flags = [], db_incidents = [] \<rparr>"

lemma those_strs: "those (map (\<lambda>x. case x of JStr s \<Rightarrow> Some s | _ \<Rightarrow> None) (map JStr xs)) = Some xs"
  by (induction xs) simp_all

lemma example_coercion_laws: "coercion_laws example_coercions"
  using those_strs by (simp add: coercion_laws_def example_coercions_def canonical_def comp_def)

lemma map_sort_key: "(\<And>x. g (f x) = g x) \<Longrightarrow> map f (sort_key g xs) = sort_key g (map f xs)"
proof (induction xs)
  case (Cons x xs)
  have "map f (insort_key g y ys) = insort_key g (f y) (map f ys)" for y ys
    by (induction ys) (simp_all add: Cons.prems)
  with Cons show ?case by simp
qed simp

lemma sort_by_length_then_text: "sort_key fst (sort_key (length \<circ> fst) (xs :: (string \<times> 'a) list)) = sort_key fst xs"
proof (rule properties_for_sort_key)
  have text_const: "sort_key fst zs = zs" if "\<forall>z \<in> set zs. fst z = k" for k and zs :: "(string \<times> 'a) list"
  proof (rule sort_key_id_if_sorted)
    have "map fst zs = replicate (length zs) k" using that by (induction zs) auto
    then show "sorted (map fst zs)" by simp
  qed
  have const: "sort_key (length \<circ> fst) zs = zs" if "\<forall>z \<in> set zs. fst z = k" for k and zs :: "(string \<times> 'a) list"
  proof (rule sort_key_id_if_sorted)
    have "map (length \<circ> fst) zs = replicate (length zs) (length k)" using that by (induction zs) auto
    then show "sorted (map (length \<circ> fst) zs)" by simp
  qed
  show "filter (\<lambda>y. fst k = fst y) (sort_key fst xs) = filter (\<lambda>y. fst k = fst y) (sort_key (length \<circ> fst) xs)" for k
    unfolding filter_sort by (simp add: const [of _ "fst k"] text_const [of _ "fst k"])
qed simp_all

lemma length_sorted_same: "json_sorted (length_sorted j) = json_sorted j"
proof (induction j rule: length_sorted.induct)
  case (2 kvs)
  let ?m = "\<lambda>(k, v). (k, json_sorted v)"
  let ?l = "\<lambda>(k, v). (k, length_sorted v)"
  have key: "fst (?m e) = fst e" "(length \<circ> fst) (?m e) = (length \<circ> fst) e" for e by (simp_all add: case_prod_beta)
  have "map ?m (map ?l kvs) = map ?m kvs" using 2 by auto
  then have "map ?m (sort_key (length \<circ> fst) (sort_key fst (map ?l kvs))) = sort_key (length \<circ> fst) (sort_key fst (map ?m kvs))"
    by (simp only: map_sort_key [of "length \<circ> fst" ?m, OF key(2)] map_sort_key [of fst ?m, OF key(1)])
  moreover have "sort_key fst (sort_key fst (map ?m kvs)) = sort_key fst (map ?m kvs)"
    by (intro sort_key_id_if_sorted sorted_sort_key)
  ultimately show ?case by (simp add: sort_by_length_then_text)
qed simp_all

lemma example_jsonb_laws: "jsonb_laws example_jsonb"
proof -
  have get: "\<exists>v'. dict_get d' k = Some v' \<and> json_sorted v' = json_sorted v"
    if "length_sorted (JObj d) = JObj d'" "dict_get d k = Some v" for d d' k v
  proof -
    have "map_option json_sorted (dict_get d' k) = map_option json_sorted (dict_get d k)"
      using json_sorted_get [OF length_sorted_same [of "JObj d", unfolded that(1)]] .
    then show ?thesis using that(2) by auto
  qed
  have keys: "mset (map fst d') = mset (map fst d)" if "length_sorted (JObj d) = JObj d'" for d d'
  proof -
    have "map fst (map (\<lambda>(k, v). (k, length_sorted v)) d) = map fst d" by (induction d) auto
    moreover have "mset d' = mset (map (\<lambda>(k, v). (k, length_sorted v)) d)" using that by (auto simp del: mset_map)
    ultimately show ?thesis by (metis mset_map)
  qed
  have "wf_dict d' \<and> fst ` set d' = fst ` set d" if "length_sorted (JObj d) = JObj d'" "wf_dict d" for d d'
    using keys [OF that(1)] that(2) unfolding wf_dict_def by (metis mset_eq_imp_distinct_iff set_map set_mset_mset)
  with get show ?thesis
    unfolding jsonb_laws_def example_jsonb_def by (auto split: json.split simp del: json_sorted.simps)
qed

lemma example_uuid_canonical: "canonical example_uuid"
  unfolding canonical_def by code_simp

section \<open>Properties\<close>


text \<open>A tool call whose arguments come back with their keys in another order.\<close>

definition example_call :: wire_event where
  "example_call = example_wire ''tool_call.start'' 1 (W_tool_call_start example_uuid ''search'' ''args'' [] [] [])"

definition example_args :: "(string, json) pydict" where
  "example_args = [(''limit'', JInt 5), (''q'', JStr ''x'')]"


end
