(* ===== verification/Telemetry.thy ===== *)
theory Telemetry
  imports Event_Store
begin

text \<open>
  The harness side of the control connection, \<^verbatim>\<open>harness/telemetry/sdk.py\<close>: the events the SDK emits
  and the gated tool call. What the client reads is the queue of frames that have arrived; a call
  that finds no response in it times out, or fails with the end of the stream if the peer has closed
  the connection. Fresh identifiers and the clock are arguments.
\<close>

section \<open>Frames\<close>

record gate_response =
  gs_decision_id :: string
  gs_decision :: int
  gs_reasons :: "string list"
  gs_latency_ms :: int

datatype frame =
    F_event wire_event
  | F_req wire_event int
  | F_resp gate_response
  | F_heartbeat
  | F_seccomp_update

record client =
  cl_run_id :: uuid
  cl_tenant_id :: uuid
  cl_timeout_ms :: int

definition new_event :: "client \<Rightarrow> uuid \<Rightarrow> int \<Rightarrow> string \<Rightarrow> uuid \<Rightarrow> wire_payload \<Rightarrow> wire_event" where
  "new_event c eid now_ns etype spid p =
     \<lparr> we_event_id = eid, we_run_id = cl_run_id c, we_tenant_id = cl_tenant_id c, we_span_id = spid,
       we_parent_span_id = [], we_channel = 1, we_event_type = etype, we_ts_unix_ns = now_ns, we_pid = 0, we_schema_version = 0, we_payload = p \<rparr>"

section \<open>One-way events\<close>

definition declare_intent :: "client \<Rightarrow> uuid \<Rightarrow> uuid \<Rightarrow> int \<Rightarrow> uuid \<Rightarrow> string \<Rightarrow> string list \<Rightarrow> frame" where
  "declare_intent c eid spid now agent intent plan =
     F_event (new_event c eid now ''intent.declare'' spid (W_intent_declare agent intent plan))"

definition sdk_llm_call :: "client \<Rightarrow> uuid \<Rightarrow> uuid \<Rightarrow> int \<Rightarrow> uuid \<Rightarrow> string \<Rightarrow> bytes \<Rightarrow> int \<Rightarrow> int \<Rightarrow> frame" where
  "sdk_llm_call c eid spid now agent model h tin tout =
     F_event (new_event c eid now ''llm.call'' spid (W_llm_call agent model h tin tout))"

definition sdk_memory_op ::
  "client \<Rightarrow> uuid \<Rightarrow> uuid \<Rightarrow> int \<Rightarrow> uuid \<Rightarrow> string \<Rightarrow> string \<Rightarrow> string list \<Rightarrow> string option \<Rightarrow> frame" where
  "sdk_memory_op c eid spid now agent op store keys source =
     F_event (new_event c eid now (''memory.'' @ op) spid
       (W_memory_op agent op store keys (case source of None \<Rightarrow> [] | Some s \<Rightarrow> s)))"

definition tool_end ::
  "client \<Rightarrow> uuid \<Rightarrow> int \<Rightarrow> uuid \<Rightarrow> uuid \<Rightarrow> string \<Rightarrow> string option \<Rightarrow> string option \<Rightarrow> frame" where
  "tool_end c eid now agent spid status err summary =
     F_event (new_event c eid now ''tool_call.end'' spid
       (W_tool_call_end agent spid status (take 4000 (case summary of None \<Rightarrow> [] | Some s \<Rightarrow> s))
          (case err of None \<Rightarrow> [] | Some s \<Rightarrow> s)))"

section \<open>The gated call\<close>

text \<open>The loop of \<^verbatim>\<open>_request_gate\<close>: frames that are not responses are skipped.\<close>

fun next_response :: "frame list \<Rightarrow> gate_response option \<times> frame list" where
  "next_response [] = (None, [])"
| "next_response (F_resp r # q) = (Some r, q)"
| "next_response (_ # q) = next_response q"

definition decision_str :: "int \<Rightarrow> string" where
  "decision_str n = (if n = 1 then ''ALLOW'' else if n = 2 then ''DENY'' else if n = 3 then ''CONFIRM'' else ''DENY'')"

datatype call_result =
    GateDenied "string list"
  | Ran string "string option \<times> string option"
      \<comment> \<open>the decision; the exception the body raised, if any, and the summary it attached\<close>
  | ReadBroken
      \<comment> \<open>the \<^verbatim>\<open>IncompleteReadError\<close> of a connection closed by the peer\<close>

record call_out =
  tc_sent :: "frame list"
  tc_result :: call_result
  tc_queue :: "frame list"

record call_env =
  ce_span :: uuid
  ce_start_id :: uuid
  ce_end_id :: uuid
  ce_now :: int
  ce_end_now :: int

definition start_event ::
  "client \<Rightarrow> call_env \<Rightarrow> uuid \<Rightarrow> string \<Rightarrow> (string, json) pydict \<Rightarrow> string option \<Rightarrow> string option \<Rightarrow> wire_event" where
  "start_event c e agent tool args purpose schema =
     new_event c (ce_start_id e) (ce_now e) ''tool_call.start'' (ce_span e)
       (W_tool_call_start agent tool (json_text_spaced (JObj args)) (case purpose of None \<Rightarrow> [] | Some s \<Rightarrow> s) (ce_span e)
          (case schema of None \<Rightarrow> [] | Some s \<Rightarrow> s))"

text \<open>\<open>wfail\<close> is the text of the connection error that writing the request raises, if it does;
  \<open>eof\<close> tells whether the peer has closed the stream behind the queued frames; \<open>body\<close> is what the
  tool does once it is allowed to run.\<close>

definition tool_call ::
  "client \<Rightarrow> call_env \<Rightarrow> uuid \<Rightarrow> string \<Rightarrow> (string, json) pydict \<Rightarrow> string option \<Rightarrow> string option \<Rightarrow>
   string option \<Rightarrow> bool \<Rightarrow> (string \<Rightarrow> string option \<times> string option) \<Rightarrow> frame list \<Rightarrow> call_out" where
  "tool_call c e agent tool args purpose schema wfail eof body q =
     (let req = F_req (start_event c e agent tool args purpose schema) (cl_timeout_ms c);
          finish = (\<lambda>status err summary. tool_end c (ce_end_id e) (ce_end_now e) agent (ce_span e) status err summary);
          deny = (\<lambda>reasons sent q'. \<lparr> tc_sent = sent @ [finish ''error'' (Some (py_join ''; '' reasons)) None],
             tc_result = GateDenied reasons, tc_queue = q' \<rparr>)
      in case wfail of
           Some txt \<Rightarrow> deny [''gate unavailable (fail-closed): '' @ txt] [] q
         | None \<Rightarrow>
             (case next_response q of
                (None, q') \<Rightarrow>
                  if eof then \<lparr> tc_sent = [req], tc_result = ReadBroken, tc_queue = q' \<rparr>
                  else deny [''gate unavailable (fail-closed): ''] [req] q'
              | (Some r, q') \<Rightarrow>
                  (let decision = decision_str (gs_decision r) in
                   if decision = ''DENY'' then deny (gs_reasons r) [req] q'
                   else (let (err, summary) = body decision in
                     \<lparr> tc_sent = [req, finish (if err = None then ''success'' else ''error'') err summary],
                       tc_result = Ran decision (err, summary), tc_queue = q' \<rparr>))))"

section \<open>A sequence of calls against the gate\<close>

text \<open>One call of a session: what the gate answers to it and whether the answer arrives after the
  client has stopped waiting. The server answers requests in order, one response each.\<close>

record gated =
  gc_env :: call_env
  gc_agent :: uuid
  gc_tool :: string
  gc_args :: "(string, json) pydict"
  gc_answer :: gate_response
  gc_late :: bool

definition gated_call ::
  "client \<Rightarrow> (string \<Rightarrow> string option \<times> string option) \<Rightarrow> gated \<Rightarrow> frame list \<Rightarrow> call_out" where
  "gated_call c body g q =
     (let out = tool_call c (gc_env g) (gc_agent g) (gc_tool g) (gc_args g) None None None False body
        (if gc_late g then q else q @ [F_resp (gc_answer g)])
      in if gc_late g then out\<lparr> tc_queue := tc_queue out @ [F_resp (gc_answer g)] \<rparr> else out)"

fun session :: "client \<Rightarrow> (string \<Rightarrow> string option \<times> string option) \<Rightarrow> gated list \<Rightarrow> frame list \<Rightarrow> call_result list" where
  "session c body [] q = []"
| "session c body (g # gs) q =
     (let out = gated_call c body g q in tc_result out # session c body gs (tc_queue out))"

text \<open>What a response means for the call it is taken for.\<close>

definition verdict_of :: "(string \<Rightarrow> string option \<times> string option) \<Rightarrow> gate_response \<Rightarrow> call_result" where
  "verdict_of body r =
     (let decision = decision_str (gs_decision r) in
      if decision = ''DENY'' then GateDenied (gs_reasons r) else Ran decision (body decision))"

lemma tool_call_response:
  "tc_result (tool_call c e agent tool args purpose schema None eof body (F_resp r # q)) = verdict_of body r"
  "tc_queue (tool_call c e agent tool args purpose schema None eof body (F_resp r # q)) = q"
  by (auto simp: tool_call_def verdict_of_def Let_def split: prod.split)

lemma tool_call_empty:
  "tc_result (tool_call c e agent tool args purpose schema None False body []) =
     GateDenied [''gate unavailable (fail-closed): '']"
  "tc_queue (tool_call c e agent tool args purpose schema None False body []) = []"
  by (simp_all add: tool_call_def Let_def)

text \<open>The tool's body runs only under a decision to allow or to confirm that was read from the gate.\<close>

lemma tool_call_runs:
  assumes "tc_result (tool_call c e agent tool args purpose schema wfail eof body q) = Ran decision res"
  shows "wfail = None \<and> decision \<in> {''ALLOW'', ''CONFIRM''} \<and>
    (\<exists>r. fst (next_response q) = Some r \<and> decision_str (gs_decision r) = decision)"
  using assms
  by (auto simp: tool_call_def Let_def decision_str_def split: option.splits prod.splits if_splits)

lemma session_in_time:
  assumes "list_all (\<lambda>g. \<not> gc_late g) gs"
  shows "session c body gs [] = map (verdict_of body \<circ> gc_answer) gs"
  using assms by (induction gs) (simp_all add: gated_call_def Let_def tool_call_response)

lemma session_shifted:
  assumes "list_all (\<lambda>g. \<not> gc_late g) gs"
  shows "session c body gs [F_resp r] = map (verdict_of body) (butlast (r # map gc_answer gs))"
  using assms
proof (induction gs arbitrary: r)
  case (Cons g gs)
  then show ?case by (simp add: gated_call_def Let_def tool_call_response)
qed simp

definition example_client :: client where
  "example_client = \<lparr> cl_run_id = ''r'', cl_tenant_id = ''t'', cl_timeout_ms = 100 \<rparr>"

definition example_gated :: "int \<Rightarrow> bool \<Rightarrow> gated" where
  "example_gated decision late =
     \<lparr> gc_env = \<lparr> ce_span = ''s'', ce_start_id = ''i'', ce_end_id = ''j'', ce_now = 1, ce_end_now = 2 \<rparr>, gc_agent = ''a'',
       gc_tool = ''http_post'', gc_args = [],
       gc_answer = \<lparr> gs_decision_id = ''d'', gs_decision = decision, gs_reasons = [''policy''], gs_latency_ms = 1 \<rparr>,
       gc_late = late \<rparr>"

section \<open>Properties\<close>

text \<open>As long as no answer of the gate is late, the answers and the calls stay in step: in any
  sequence of tool calls on one connection each call is decided by the gate's answer to that very
  call, is refused when the answer is a denial or not a decision, and runs its tool otherwise.\<close>

theorem answers_in_step:
  assumes "list_all (\<lambda>g. \<not> gc_late g) gs"
  shows "session c body gs [] =
    map (\<lambda>g. if gs_decision (gc_answer g) \<in> {1, 3}
      then Ran (decision_str (gs_decision (gc_answer g))) (body (decision_str (gs_decision (gc_answer g))))
      else GateDenied (gs_reasons (gc_answer g))) gs"
  unfolding session_in_time [OF assms]
  by (auto simp: verdict_of_def decision_str_def Let_def)

theorem answers_in_step_witness:
  "session example_client (\<lambda>_. (None, None)) [example_gated 1 False, example_gated 2 False] [] =
     [Ran ''ALLOW'' (None, None), GateDenied [''policy'']]"
  using answers_in_step [of "[example_gated 1 False, example_gated 2 False]" example_client "\<lambda>_. (None, None)"]
  by (simp add: example_gated_def decision_str_def)

text \<open>C24. After one late answer the calls are decided by the answers to their predecessors: the call
  whose answer is late is refused, and each later call on the connection takes the answer that was
  meant for the call before it. In particular a call that the gate denies runs its tool if the gate
  had allowed the preceding one.\<close>

theorem late_answer_misapplied:
  assumes "gc_late g" and "list_all (\<lambda>g. \<not> gc_late g) gs"
  shows "session c body (g # gs) [] =
    GateDenied [''gate unavailable (fail-closed): ''] #
    map (\<lambda>a. if gs_decision a \<in> {1, 3} then Ran (decision_str (gs_decision a)) (body (decision_str (gs_decision a)))
      else GateDenied (gs_reasons a)) (butlast (gc_answer g # map gc_answer gs))"
proof -
  have "session c body (g # gs) [] =
      GateDenied [''gate unavailable (fail-closed): ''] # session c body gs [F_resp (gc_answer g)]"
    using assms(1) by (simp add: gated_call_def Let_def tool_call_empty)
  moreover have "verdict_of body = (\<lambda>a. if gs_decision a \<in> {1, 3}
      then Ran (decision_str (gs_decision a)) (body (decision_str (gs_decision a))) else GateDenied (gs_reasons a))"
    by (auto simp: verdict_of_def decision_str_def Let_def)
  ultimately show ?thesis using session_shifted [OF assms(2)] by simp
qed

theorem late_answer_misapplied_witness:
  "session example_client (\<lambda>_. (None, None)) [example_gated 1 True, example_gated 2 False] [] =
     [GateDenied [''gate unavailable (fail-closed): ''], Ran ''ALLOW'' (None, None)]"
  using late_answer_misapplied [of "example_gated 1 True" "[example_gated 2 False]" example_client "\<lambda>_. (None, None)"]
  by (simp add: example_gated_def decision_str_def)

end
