(* ===== verification/Dispatch.thy ===== *)
theory Dispatch
  imports Ipc Gate Telemetry
begin

text \<open>
  The auditor side of the control connection: the dispatcher of \<^verbatim>\<open>auditor/ipc/dispatch.py\<close>, which
  stores events and answers gate requests, and the connection handler of \<^verbatim>\<open>auditor/ipc/server.py\<close>. One
  dispatcher serves all connections; its state is the set of runs it has seen, the database, the state
  of the gate and the audits it has scheduled. The protobuf codec, fresh identifiers and the clock are
  arguments. A failure of the database server itself is not modelled.
\<close>

section \<open>State\<close>

record ('o, 'b) dispatcher =
  dp_known :: "string list"
  dp_db :: db
  dp_gate :: "'o \<times> 'b"
  dp_audits :: "(uuid \<times> uuid option) list"

record ('o, 'b) dispatch_env =
  dv_loads :: "string \<Rightarrow> py_error + json"
  dv_redaction :: redaction
  dv_gate :: "('o, 'b) gate_env"
  dv_now :: timestamp
  dv_event_id :: uuid
  dv_row_id :: uuid
  dv_response_id :: uuid

section \<open>Connections\<close>

definition on_connect :: "peer_identity option \<Rightarrow> ('o, 'b) dispatcher \<Rightarrow> (py_error + unit) \<times> ('o, 'b) dispatcher" where
  "on_connect identity st =
     (case identity of
        None \<Rightarrow> (Inr (), st)
      | Some i \<Rightarrow>
          (case (parse_uuid (pi_run_id i), parse_uuid (pi_tenant_id i)) of
             (Some run, Some tenant) \<Rightarrow>
               (Inr (), st\<lparr> dp_db := upsert_run run tenant None (dp_db st), dp_known := List.insert (pi_run_id i) (dp_known st) \<rparr>)
           | _ \<Rightarrow> (Inl ValueError, st)))"

text \<open>\<^verbatim>\<open>event_dict.get(k)\<close> for a text field, \<open>None\<close> when it is absent or falsy.\<close>

definition dict_str :: "event_dict \<Rightarrow> string \<Rightarrow> string option" where
  "dict_str d k = (case dict_get d k of Some (JStr s) \<Rightarrow> if s = [] then None else Some s | _ \<Rightarrow> None)"

definition ensure_run_row :: "string option \<Rightarrow> string option \<Rightarrow> ('o, 'b) dispatcher \<Rightarrow> ('o, 'b) dispatcher" where
  "ensure_run_row run_id tenant_id st =
     (case (run_id, tenant_id) of
        (Some r, Some t) \<Rightarrow>
          if r \<in> set (dp_known st) then st
          else (case (parse_uuid r, parse_uuid t) of
             (Some run, Some tenant) \<Rightarrow>
               st\<lparr> dp_db := upsert_run run tenant None (dp_db st), dp_known := List.insert r (dp_known st) \<rparr>
           | _ \<Rightarrow> st)
      | _ \<Rightarrow> st)"

text \<open>A run that ends: with an identity it is marked completed and its audit is scheduled with its
  tenant; without one, every known run is scheduled and forgotten.\<close>

definition on_disconnect ::
  "timestamp \<Rightarrow> peer_identity option \<Rightarrow> ('o, 'b) dispatcher \<Rightarrow> (py_error + unit) \<times> ('o, 'b) dispatcher" where
  "on_disconnect now identity st =
     (case identity of
        None \<Rightarrow>
          (Inr (), st\<lparr> dp_audits := dp_audits st @ map (\<lambda>u. (u, None)) (List.map_filter parse_uuid (dp_known st)),
             dp_known := [] \<rparr>)
      | Some i \<Rightarrow>
          (case (parse_uuid (pi_run_id i), parse_uuid (pi_tenant_id i)) of
             (Some run, Some tenant) \<Rightarrow>
               (Inr (), st\<lparr> dp_db := mark_run_completed now run (dp_db st),
                  dp_audits := dp_audits st @ [(run, Some tenant)] \<rparr>)
           | _ \<Rightarrow> (Inl ValueError, st)))"

text \<open>The scheduled task without an identity: the tenant comes from the row of the run.\<close>

definition spawn_run_audit :: "timestamp \<Rightarrow> uuid \<Rightarrow> db \<Rightarrow> (uuid \<times> uuid) option \<times> db" where
  "spawn_run_audit now run_id d =
     (case dict_get (db_runs d) run_id of
        None \<Rightarrow> (None, d)
      | Some r \<Rightarrow> (Some (run_id, rr_tenant_id r), mark_run_completed now run_id d))"

section \<open>Frames\<close>

definition store_frame ::
  "('o, 'b) dispatch_env \<Rightarrow> wire_event \<Rightarrow> ('o, 'b) dispatcher \<Rightarrow> (py_error + frame option) \<times> ('o, 'b) dispatcher" where
  "store_frame env w st =
     (case event_to_dict (dv_loads env) w of
        Inl e \<Rightarrow> (Inl e, st)
      | Inr d \<Rightarrow>
          (let st = ensure_run_row (dict_str d ''run_id'') (dict_str d ''tenant_id'') st in
           case store_event (dv_redaction env) (dv_event_id env) d (event_ts (dv_now env) w) (dp_db st) of
             Inl _ \<Rightarrow> (Inr None, st)
           | Inr (_, db') \<Rightarrow>
               (let st = st\<lparr> dp_db := db' \<rparr> in
                if dict_get d ''event_type'' = Some (JStr ''intent.declare'') then
                  (case (dict_str d ''run_id'', dict_str d ''intent'') of
                     (Some r, Some goal) \<Rightarrow>
                       (case parse_uuid r of
                          Some run \<Rightarrow> (Inr None, st\<lparr> dp_db := update_run_declared_goal run goal (dp_db st) \<rparr>)
                        | None \<Rightarrow> (Inr None, st))
                   | _ \<Rightarrow> (Inr None, st))
                else (Inr None, st))))"

definition vote_json :: "gate_vote \<Rightarrow> json" where
  "vote_json v = JObj ([(''decision'', gv_decision v), (''reasons'', JList (gv_reasons v))] @ gv_extra v)"

definition votes_json :: "(string, gate_vote) pydict \<Rightarrow> json" where
  "votes_json vs = JObj (map (\<lambda>(k, v). (k, vote_json v)) vs)"

text \<open>The fields of the response message take texts only.\<close>

definition proto_strs :: "json list \<Rightarrow> py_error + string list" where
  "proto_strs xs = traverse (\<lambda>j. case j of JStr s \<Rightarrow> Inr s | _ \<Rightarrow> Inl TypeError) xs"

definition gate_frame ::
  "('o, 'b) dispatch_env \<Rightarrow> wire_event \<Rightarrow> ('o, 'b) dispatcher \<Rightarrow> (py_error + frame option) \<times> ('o, 'b) dispatcher" where
  "gate_frame env w st =
     (case event_to_dict (dv_loads env) w of
        Inl e \<Rightarrow> (Inl e, st)
      | Inr d \<Rightarrow>
          (let st = ensure_run_row (dict_str d ''run_id'') (dict_str d ''tenant_id'') st;
               stored = store_event (dv_redaction env) (dv_event_id env) d (event_ts (dv_now env) w) (dp_db st);
               st = (case stored of Inl _ \<Rightarrow> st | Inr (_, db') \<Rightarrow> st\<lparr> dp_db := db' \<rparr>);
               (outcome, gate') = decide (dv_gate env) (json_str (ev_get d ''run_id'')) d (dp_gate st);
               st = st\<lparr> dp_gate := gate' \<rparr>
           in case outcome of
                Inl e \<Rightarrow> (Inl e, st)
              | Inr res \<Rightarrow>
                  (let st = (case stored of
                         Inl _ \<Rightarrow> st
                       | Inr (eid, _) \<Rightarrow>
                           (case store_gate_decision (dv_row_id env) eid (json_str (go_decision res)) (votes_json (go_votes res))
                              (go_latency_ms res) (dp_db st) of
                              Inl _ \<Rightarrow> st | Inr (_, db') \<Rightarrow> st\<lparr> dp_db := db' \<rparr>))
                   in (map_sum id (\<lambda>rs. Some (F_resp
                         \<lparr> gs_decision_id = dv_response_id env, gs_decision = decision_to_proto (json_str (go_decision res)),
                           gs_reasons = rs, gs_latency_ms = go_latency_ms res \<rparr>)) (proto_strs (go_reasons res)), st))))"

text \<open>The identity of the connection is an argument that the dispatcher does not read.\<close>

definition on_frame ::
  "('o, 'b) dispatch_env \<Rightarrow> frame \<Rightarrow> peer_identity option \<Rightarrow> ('o, 'b) dispatcher \<Rightarrow>
   (py_error + frame option) \<times> ('o, 'b) dispatcher" where
  "on_frame env f identity st =
     (case f of
        F_event w \<Rightarrow> store_frame env w st
      | F_req w _ \<Rightarrow> gate_frame env w st
      | _ \<Rightarrow> (Inr None, st))"

section \<open>The connection handler\<close>

text \<open>The loop over received payloads: it stops at the first exception. \<open>envs\<close> supplies the
  environment of each frame.\<close>

fun serve_frames ::
  "(nat \<Rightarrow> ('o, 'b) dispatch_env) \<Rightarrow> (bytes \<Rightarrow> py_error + frame) \<Rightarrow> peer_identity option \<Rightarrow> nat \<Rightarrow> bytes list \<Rightarrow>
   frame list \<Rightarrow> ('o, 'b) dispatcher \<Rightarrow> frame list \<times> ('o, 'b) dispatcher" where
  "serve_frames envs parse identity n [] written st = (written, st)"
| "serve_frames envs parse identity n (raw # raws) written st =
     (case parse raw of
        Inl e \<Rightarrow> (written, st)
      | Inr f \<Rightarrow>
          (case on_frame (envs n) f identity st of
             (Inl e, st') \<Rightarrow> (written, st')
           | (Inr None, st') \<Rightarrow> serve_frames envs parse identity (Suc n) raws written st'
           | (Inr (Some r), st') \<Rightarrow> serve_frames envs parse identity (Suc n) raws (written @ [r]) st'))"

definition handle ::
  "(nat \<Rightarrow> ('o, 'b) dispatch_env) \<Rightarrow> (bytes \<Rightarrow> py_error + frame) \<Rightarrow> timestamp \<Rightarrow> (string \<times> string) list option \<Rightarrow> bytes \<Rightarrow>
   ('o, 'b) dispatcher \<Rightarrow> frame list \<times> ('o, 'b) dispatcher" where
  "handle envs parse now ssl stream st =
     (let identity = parse_peer_identity ssl; (connected, st1) = on_connect identity st;
          (written, st2) = (case connected of
             Inl _ \<Rightarrow> ([], st1)
           | Inr _ \<Rightarrow> serve_frames envs parse identity 0 (fst (read_frames stream)) [] st1)
      in (written, snd (on_disconnect now identity st2)))"

section \<open>What the frames leave alone\<close>

text \<open>The part of a run's row that only the end of the run changes.\<close>

definition row_core :: "uuid \<Rightarrow> db \<Rightarrow> (uuid \<times> string \<times> timestamp option) option" where
  "row_core run d = map_option (\<lambda>r. (rr_tenant_id r, rr_status r, rr_ended_at r)) (dict_get (db_runs d) run)"

lemma upsert_core:
  "row_core u (upsert_run r t g d) =
     (if u = r \<and> row_core u d = None then Some (t, ''running'', None) else row_core u d)"
  by (auto simp: row_core_def upsert_run_def dict_get_set split: option.split)

lemma goal_core: "row_core u (update_run_declared_goal r g d) = row_core u d"
  by (auto simp: row_core_def update_run_declared_goal_def dict_get_set split: option.split)

lemma store_event_core: "store_event rx fresh ev ts d = Inr (eid, d') \<Longrightarrow> row_core u d = Some c \<Longrightarrow> row_core u d' = Some c"
  by (auto simp: row_core_def store_event_def split: sum.splits if_splits option.splits)

lemma store_gate_decision_core:
  "store_gate_decision fresh eid dec vs l d = Inr (x, d') \<Longrightarrow> row_core u d = Some c \<Longrightarrow> row_core u d' = Some c"
  by (auto simp: row_core_def store_gate_decision_def split: if_splits)

lemma ensure_row_keeps:
  "dp_audits (ensure_run_row r t st) = dp_audits st"
  "row_core u (dp_db st) = Some c \<Longrightarrow> row_core u (dp_db (ensure_run_row r t st)) = Some c"
  by (auto simp: ensure_run_row_def upsert_core split: option.split)

lemma store_frame_keeps:
  assumes "row_core u (dp_db st) = Some c"
  shows "dp_audits (snd (store_frame env w st)) = dp_audits st \<and> row_core u (dp_db (snd (store_frame env w st))) = Some c"
  using assms ensure_row_keeps(2) [OF assms]
  by (auto simp: store_frame_def Let_def ensure_row_keeps(1) goal_core intro: store_event_core
      split: sum.split option.split)

lemma gate_frame_keeps:
  assumes "row_core u (dp_db st) = Some c"
  shows "dp_audits (snd (gate_frame env w st)) = dp_audits st \<and> row_core u (dp_db (snd (gate_frame env w st))) = Some c"
  using assms ensure_row_keeps(2) [OF assms]
  by (auto simp: gate_frame_def Let_def ensure_row_keeps(1) intro: store_event_core split: sum.split prod.split)
     (metis store_event_core store_gate_decision_core)

lemma on_frame_keeps:
  assumes "row_core u (dp_db st) = Some c"
  shows "dp_audits (snd (on_frame env f i st)) = dp_audits st \<and> row_core u (dp_db (snd (on_frame env f i st))) = Some c"
  using assms store_frame_keeps gate_frame_keeps by (cases f) (simp_all add: on_frame_def)

lemma serve_frames_keeps:
  assumes "row_core u (dp_db st) = Some c"
  shows "dp_audits (snd (serve_frames envs parse i n raws ws st)) = dp_audits st \<and>
    row_core u (dp_db (snd (serve_frames envs parse i n raws ws st))) = Some c"
  using assms
proof (induction raws arbitrary: n ws st)
  case (Cons raw raws)
  show ?case
  proof (cases "parse raw")
    case (Inr f)
    obtain res st' where out: "on_frame (envs n) f i st = (res, st')" by fastforce
    have k: "dp_audits st' = dp_audits st" "row_core u (dp_db st') = Some c"
      using on_frame_keeps [OF Cons.prems, of "envs n" f i] by (simp_all add: out)
    show ?thesis using Cons.IH [OF k(2)] k by (simp add: Inr out split: sum.split option.split)
  qed (simp add: Cons.prems)
qed simp

lemma completed_core:
  "row_core run d = Some (t, ''running'', e) \<Longrightarrow> row_core run (mark_run_completed now run d) = Some (t, ''completed'', Some now)"
  by (auto simp: row_core_def mark_run_completed_def dict_get_set)

definition example_dispatch :: "(unit, unit) dispatch_env" where
  "example_dispatch =
     \<lparr> dv_loads = (\<lambda>_. Inl ValueError), dv_redaction = example_redaction, dv_gate = example_gate, dv_now = 5,
       dv_event_id = ''e'', dv_row_id = ''g'', dv_response_id = ''d'' \<rparr>"

definition example_dispatcher :: "(unit, unit) dispatcher" where
  "example_dispatcher =
     \<lparr> dp_known = [], dp_db = \<lparr> db_runs = [], db_events = [], db_gate_decisions = [], db_verdicts = [], db_flags = [],
         db_incidents = [] \<rparr>, dp_gate = ((), ()), dp_audits = [] \<rparr>"

section \<open>Properties\<close>

text \<open>C25. A run whose connection ends is always completed and audited: for a client that connects with
  the certificate minted for a new run, whatever bytes it sends, and however the connection ends (end
  of stream, a broken or oversized frame, a payload that does not parse, an exception of the handler),
  the run's row ends up completed, with its tenant, and exactly one audit, of that run and tenant, is
  scheduled.\<close>

theorem connection_run_audited:
  assumes "canonical run" "canonical tenant"
    and "CHR '';'' \<notin> set role" "CHR '';'' \<notin> set run" "CHR '';'' \<notin> set tenant"
    and "run \<notin> fst ` set (db_runs (dp_db st))"
  shows "dp_audits (snd (handle envs parse now (Some (leaf_names role run tenant host)) stream st)) =
      dp_audits st @ [(run, Some tenant)] \<and>
    row_core run (dp_db (snd (handle envs parse now (Some (leaf_names role run tenant host)) stream st))) =
      Some (tenant, ''completed'', Some now)"
proof -
  let ?i = "\<lparr> pi_role = role, pi_run_id = run, pi_tenant_id = tenant \<rparr>"
  have id: "parse_peer_identity (Some (leaf_names role run tenant host)) = Some ?i"
    using assms(3-5) by (rule leaf_identity)
  have u: "parse_uuid run = Some run" "parse_uuid tenant = Some tenant" using assms(1,2) by (simp_all add: canonical_def)
  let ?st1 = "st\<lparr> dp_db := upsert_run run tenant None (dp_db st), dp_known := List.insert run (dp_known st) \<rparr>"
  have "row_core run (dp_db st) = None" using assms(6) by (simp add: row_core_def map_of_eq_None_iff)
  then have c: "row_core run (dp_db ?st1) = Some (tenant, ''running'', None)" by (simp add: upsert_core)
  obtain ws st2 where s: "serve_frames envs parse (Some ?i) 0 (fst (read_frames stream)) [] ?st1 = (ws, st2)" by fastforce
  have k: "dp_audits st2 = dp_audits st" "row_core run (dp_db st2) = Some (tenant, ''running'', None)"
    using serve_frames_keeps [OF c, of envs parse "Some ?i" 0 "fst (read_frames stream)" "[]"] by (simp_all add: s)
  have "snd (handle envs parse now (Some (leaf_names role run tenant host)) stream st) =
      snd (on_disconnect now (Some ?i) st2)"
    using s by (simp add: handle_def id on_connect_def u Let_def)
  then show ?thesis using k completed_core [OF k(2), of now] by (simp add: on_disconnect_def u)
qed

theorem connection_run_audited_witness:
  "dp_audits (snd (handle (\<lambda>_. example_dispatch) (\<lambda>_. Inl ValueError) 9
      (Some (leaf_names ''harness'' example_uuid example_uuid ''localhost'')) [0, 0, 0, 0, 255] example_dispatcher)) =
     [(example_uuid, Some example_uuid)]"
proof -
  have "CHR '';'' \<notin> set ''harness''" "CHR '';'' \<notin> set example_uuid" by code_simp+
  then show ?thesis
    using connection_run_audited [OF example_uuid_canonical example_uuid_canonical, of "''harness''" example_dispatcher
        "\<lambda>_. example_dispatch" "\<lambda>_. Inl ValueError" 9 "''localhost''" "[0, 0, 0, 0, 255]"]
    by (simp add: example_dispatcher_def)
qed

end
