(* ===== verification/Calibration.thy ===== *)
theory Calibration
  imports Events Py_Regex
begin

text \<open>
  Calibration of the detectors against labelled traces: the confusion matrix and its metrics
  (\<^verbatim>\<open>auditor/calibration/metrics.py\<close>) and the nightly job that withdraws the blocking authority of an
  imprecise detector (\<^verbatim>\<open>nightly.py\<close>). The quotients are binary64 numbers.
\<close>

section \<open>Metrics\<close>

record confusion =
  cm_tp :: int
  cm_fp :: int
  cm_fn :: int
  cm_tn :: int

definition empty_confusion :: confusion where
  "empty_confusion = \<lparr> cm_tp = 0, cm_fp = 0, cm_fn = 0, cm_tn = 0 \<rparr>"

definition cm_add :: "bool \<Rightarrow> bool \<Rightarrow> confusion \<Rightarrow> confusion" where
  "cm_add labeled predicted cm =
     (if labeled \<and> predicted then cm\<lparr> cm_tp := cm_tp cm + 1 \<rparr>
      else if labeled \<and> \<not> predicted then cm\<lparr> cm_fn := cm_fn cm + 1 \<rparr>
      else if \<not> labeled \<and> predicted then cm\<lparr> cm_fp := cm_fp cm + 1 \<rparr>
      else cm\<lparr> cm_tn := cm_tn cm + 1 \<rparr>)"

definition cm_n :: "confusion \<Rightarrow> int" where
  "cm_n cm = cm_tp cm + cm_fp cm + cm_fn cm + cm_tn cm"

text \<open>\<^verbatim>\<open>a / b if b else 0.0\<close> on integers.\<close>

definition ratio :: "int \<Rightarrow> int \<Rightarrow> rat" where
  "ratio a b = (if b = 0 then 0 else fdiv (of_int a) (of_int b))"

definition precision :: "confusion \<Rightarrow> rat" where
  "precision cm = ratio (cm_tp cm) (cm_tp cm + cm_fp cm)"

definition recall :: "confusion \<Rightarrow> rat" where
  "recall cm = ratio (cm_tp cm) (cm_tp cm + cm_fn cm)"

definition f1 :: "confusion \<Rightarrow> rat" where
  "f1 cm =
     (let p = precision cm; r = recall cm in
      if fadd p r = 0 then 0 else fdiv (fmul (fmul 2 p) r) (fadd p r))"

definition fp_rate :: "confusion \<Rightarrow> rat" where
  "fp_rate cm = ratio (cm_fp cm) (cm_fp cm + cm_tn cm)"

definition has_positives :: "confusion \<Rightarrow> bool" where
  "has_positives cm = (0 < cm_tp cm + cm_fn cm)"

definition cm_as_dict :: "confusion \<Rightarrow> (string, json) pydict" where
  "cm_as_dict cm =
     [(''precision'', JFloat (py_round (precision cm) 4)), (''recall'', JFloat (py_round (recall cm) 4)),
      (''f1'', JFloat (py_round (f1 cm) 4)), (''fp_rate'', JFloat (py_round (fp_rate cm) 4)),
      (''tp'', JInt (cm_tp cm)), (''fp'', JInt (cm_fp cm)), (''fn'', JInt (cm_fn cm)), (''tn'', JInt (cm_tn cm)),
      (''n'', JInt (cm_n cm))]"

definition confusion_from_pairs :: "(bool \<times> bool) list \<Rightarrow> confusion" where
  "confusion_from_pairs pairs = foldl (\<lambda>cm (l, p). cm_add l p cm) empty_confusion pairs"

definition cm_plus :: "confusion \<Rightarrow> confusion \<Rightarrow> confusion" where
  "cm_plus a b = \<lparr> cm_tp = cm_tp a + cm_tp b, cm_fp = cm_fp a + cm_fp b, cm_fn = cm_fn a + cm_fn b, cm_tn = cm_tn a + cm_tn b \<rparr>"

definition overall_metrics :: "(string, confusion) pydict \<Rightarrow> (string, json) pydict" where
  "overall_metrics per_category = cm_as_dict (foldl cm_plus empty_confusion (map snd per_category))"

section \<open>The nightly job\<close>

definition LABEL_VIOLATION :: string where
  "LABEL_VIOLATION = ''VIOLATION''"

record ground_truth_entry =
  gt_category :: string
  gt_label :: string
  gt_trace :: trace
  gt_source :: string
  gt_id :: uuid

definition detector_index :: "registry \<Rightarrow> (string, detector_run) pydict" where
  "detector_index reg =
     foldl (\<lambda>idx (_, r). if dr_asi_category r \<in> fst ` set idx then idx else idx @ [(dr_asi_category r, dr_factory r)]) [] reg"

definition default_predictor :: "registry \<Rightarrow> ground_truth_entry \<Rightarrow> string + bool" where
  "default_predictor reg entry =
     (case dict_get (detector_index reg) (gt_category entry) of
        None \<Rightarrow> Inr False
      | Some run \<Rightarrow> map_sum id (list_ex (\<lambda>v. vd_result v = VIOLATION)) (run (gt_trace entry)))"

definition DEFAULT_PRECISION_THRESHOLD :: rat where
  "DEFAULT_PRECISION_THRESHOLD = f64 (85 / 100)"

text \<open>A call of the blocking authority: the category, the reason and the metrics.\<close>

record disable_call =
  dc_category :: string
  dc_reason :: string
  dc_metrics :: "(string, json) pydict"

record calibration_report =
  cr_per_category :: "(string, (string, json) pydict) pydict"
  cr_overall :: "(string, json) pydict"
  cr_disabled :: "string list"
  cr_judge_model :: string
  cr_judge_prompt_v :: int
  cr_ts :: string

definition score_entry :: "(string, confusion) pydict \<Rightarrow> ground_truth_entry \<times> bool \<Rightarrow> (string, confusion) pydict" where
  "score_entry ms ep =
     (let (e, predicted) = ep; cm = dict_get_or empty_confusion ms (gt_category e)
      in dict_set (gt_category e) (cm_add (gt_label e = LABEL_VIOLATION) predicted cm) ms)"

definition unsafe_detector :: "rat \<Rightarrow> confusion \<Rightarrow> bool" where
  "unsafe_detector threshold cm \<longleftrightarrow> has_positives cm \<and> precision cm < threshold"

definition disable_reason :: "rat \<Rightarrow> confusion \<Rightarrow> string" where
  "disable_reason threshold cm = ''precision '' @ fixed_text 2 (precision cm) @ '' < threshold '' @ fixed_text 2 threshold"

record calibration_job =
  cj_predict :: "ground_truth_entry \<Rightarrow> string + bool"
  cj_threshold :: rat
  cj_has_authority :: bool
  cj_judge_model :: string
  cj_judge_prompt_v :: int

text \<open>The report, and the calls of the authority when there is one; a predictor that raises ends the job.\<close>

definition calibration_run ::
  "calibration_job \<Rightarrow> string \<Rightarrow> ground_truth_entry list \<Rightarrow> string + calibration_report \<times> disable_call list" where
  "calibration_run job ts entries =
     map_sum id (\<lambda>predictions.
        (let matrices = foldl score_entry [] (zip entries predictions);
             bad = filter (\<lambda>(_, cm). unsafe_detector (cj_threshold job) cm) matrices
         in (\<lparr> cr_per_category = map (\<lambda>(c, cm). (c, cm_as_dict cm)) matrices,
               cr_overall = overall_metrics matrices, cr_disabled = sort (map fst bad),
               cr_judge_model = cj_judge_model job, cr_judge_prompt_v = cj_judge_prompt_v job, cr_ts = ts \<rparr>,
             if cj_has_authority job
             then map (\<lambda>(c, cm). \<lparr> dc_category = c, dc_reason = disable_reason (cj_threshold job) cm,
                                   dc_metrics = cm_as_dict cm \<rparr>) bad
             else [])))
     (traverse (cj_predict job) entries)"

text \<open>\<^verbatim>\<open>InMemoryBlockingAuthority.disable\<close>.\<close>

definition authority_disable :: "disable_call \<Rightarrow> (string, string \<times> (string, json) pydict) pydict \<Rightarrow>
    (string, string \<times> (string, json) pydict) pydict" where
  "authority_disable c m = dict_set (dc_category c) (dc_reason c, dc_metrics c) m"

section \<open>Counting\<close>

text \<open>The reference: the number of entries of a category with a given label and prediction.\<close>

definition tally_of :: "string \<Rightarrow> bool \<Rightarrow> bool \<Rightarrow> (ground_truth_entry \<times> bool) list \<Rightarrow> int" where
  "tally_of c labeled predicted eps =
     int (length (filter (\<lambda>(e, p). gt_category e = c \<and> (gt_label e = LABEL_VIOLATION) = labeled \<and> p = predicted) eps))"

definition reference_matrix :: "string \<Rightarrow> (ground_truth_entry \<times> bool) list \<Rightarrow> confusion" where
  "reference_matrix c eps =
     \<lparr> cm_tp = tally_of c True True eps, cm_fp = tally_of c False True eps,
       cm_fn = tally_of c True False eps, cm_tn = tally_of c False False eps \<rparr>"

text \<open>The reference criterion, over the exact counts: a labelled violation, and nothing flagged or less than
  seventeen of twenty flagged entries right.\<close>

definition imprecise :: "string \<Rightarrow> (ground_truth_entry \<times> bool) list \<Rightarrow> bool" where
  "imprecise c eps =
     (let tp = tally_of c True True eps; fp = tally_of c False True eps; missed = tally_of c True False eps
      in 0 < tp + missed \<and> (tp + fp = 0 \<or> 20 * tp < 17 * (tp + fp)))"

lemma absent_tally: "c \<notin> (gt_category \<circ> fst) ` set eps \<Longrightarrow> tally_of c l p eps = 0"
  by (force simp: tally_of_def filter_empty_conv image_iff)

lemma score_entries_get:
  "dict_get (foldl score_entry [] eps) c =
     (if c \<in> (gt_category \<circ> fst) ` set eps then Some (reference_matrix c eps) else None)"
proof (induction eps rule: rev_induct)
  case (snoc ep eps)
  obtain e p where ep: "ep = (e, p)" by (cases ep) auto
  have fresh: "c \<notin> (gt_category \<circ> fst) ` set eps \<Longrightarrow> reference_matrix c eps = empty_confusion"
    by (simp add: reference_matrix_def absent_tally empty_confusion_def)
  have step: "reference_matrix c (eps @ [ep]) =
      (if gt_category e = c then cm_add (gt_label e = LABEL_VIOLATION) p (reference_matrix c eps) else reference_matrix c eps)"
    by (auto simp: reference_matrix_def tally_of_def cm_add_def ep)
  show ?case
    using snoc fresh unfolding step
    by (auto simp: score_entry_def ep Let_def dict_get_set dict_get_or_def)
qed simp

lemma score_entries_wf: "wf_dict (foldl score_entry [] eps)"
  by (induction eps rule: rev_induct) (auto simp: score_entry_def Let_def split: prod.split)

lemma score_entries_mem:
  "(c, cm) \<in> set (foldl score_entry [] eps) \<longleftrightarrow>
     c \<in> (gt_category \<circ> fst) ` set eps \<and> cm = reference_matrix c eps"
  using map_of_eq_Some_iff [OF score_entries_wf [of eps, unfolded wf_dict_def], of c cm]
  unfolding score_entries_get by (simp split: if_splits) metis

lemma tally_nonneg: "0 \<le> tally_of c l p eps"
  by (simp add: tally_of_def)

lemma ratio_unit: "0 \<le> a \<Longrightarrow> a \<le> b \<Longrightarrow> 0 \<le> ratio a b \<and> ratio a b \<le> 1"
  using b64.rnd_unit [of "of_int a / of_int b"] by (auto simp: ratio_def fdiv_def)

text \<open>The default threshold as a float, and the largest float below it: no quotient of moderate counts
  falls between the two unless it reaches the threshold exactly.\<close>

definition below_threshold :: rat where
  "below_threshold = 7656119366529842 / 2 ^ 53"

lemma threshold_value: "DEFAULT_PRECISION_THRESHOLD = 7656119366529843 / 2 ^ 53"
  by code_simp

lemma below_threshold_float: "rnd64 below_threshold = below_threshold"
  by code_simp

lemma precision_below_exact:
  assumes n: "0 < n" "n \<le> 2 ^ 40"
  shows "ratio a n < DEFAULT_PRECISION_THRESHOLD \<longleftrightarrow> 20 * a < 17 * n"
proof
  assume "20 * a < 17 * n"
  then have "of_int (20 * a + 1) \<le> (of_int (17 * n) :: rat)" unfolding of_int_le_iff by simp
  moreover have "of_int n \<le> (of_int (2 ^ 40) :: rat)" using n(2) unfolding of_int_le_iff .
  moreover have "(0 :: rat) < of_int n" using n(1) by simp
  ultimately have "of_int a / of_int n \<le> below_threshold"
    by (simp add: pos_divide_le_eq below_threshold_def)
  then have "rnd64 (of_int a / of_int n) \<le> rnd64 below_threshold" by (rule rnd64_mono)
  then show "ratio a n < DEFAULT_PRECISION_THRESHOLD"
    using n unfolding below_threshold_float by (simp add: ratio_def fdiv_def threshold_value below_threshold_def)
next
  assume less: "ratio a n < DEFAULT_PRECISION_THRESHOLD"
  show "20 * a < 17 * n"
  proof (rule ccontr)
    assume "\<not> ?thesis"
    then have "(of_int (17 * n) :: rat) \<le> of_int (20 * a)" unfolding of_int_le_iff by simp
    moreover have "(0 :: rat) < of_int n" using n(1) by simp
    ultimately have "(85 / 100 :: rat) \<le> of_int a / of_int n" by (simp add: pos_le_divide_eq)
    then have "f64 (85 / 100) \<le> f64 (of_int a / of_int n)" by (rule rnd64_mono)
    then show False using less n by (simp add: ratio_def fdiv_def DEFAULT_PRECISION_THRESHOLD_def)
  qed
qed

lemma threshold_pos: "0 < DEFAULT_PRECISION_THRESHOLD"
  by (simp add: threshold_value)

lemma tally_le: "tally_of c l True eps + tally_of c k True eps \<le> int (length eps)" if "l \<noteq> k"
  using that by (induction eps) (auto simp: tally_of_def)

lemma unsafe_detector_default:
  assumes "length eps \<le> 2 ^ 40"
  shows "unsafe_detector DEFAULT_PRECISION_THRESHOLD (reference_matrix c eps) \<longleftrightarrow> imprecise c eps"
proof (cases "tally_of c True True eps + tally_of c False True eps = 0")
  case True
  then show ?thesis
    by (simp add: unsafe_detector_def imprecise_def has_positives_def precision_def ratio_def reference_matrix_def threshold_pos)
next
  case False
  moreover have "tally_of c True True eps + tally_of c False True eps \<le> 2 ^ 40"
    using tally_le [of True False c eps] assms by simp
  ultimately have "precision (reference_matrix c eps) < DEFAULT_PRECISION_THRESHOLD \<longleftrightarrow>
      20 * tally_of c True True eps < 17 * (tally_of c True True eps + tally_of c False True eps)"
    using precision_below_exact [of "tally_of c True True eps + tally_of c False True eps" "tally_of c True True eps"]
      tally_nonneg [of c True True eps] tally_nonneg [of c False True eps]
    by (simp add: precision_def reference_matrix_def)
  then show ?thesis using False by (simp add: unsafe_detector_def imprecise_def Let_def has_positives_def reference_matrix_def)
qed

lemma imprecise_present: "imprecise c eps \<Longrightarrow> c \<in> (gt_category \<circ> fst) ` set eps"
  by (rule ccontr) (auto simp: imprecise_def absent_tally)

lemma bad_categories:
  assumes "length eps \<le> 2 ^ 40"
  shows "fst ` set (filter (\<lambda>(_, cm). unsafe_detector DEFAULT_PRECISION_THRESHOLD cm) (foldl score_entry [] eps)) =
    {c. imprecise c eps}"
proof -
  have "(c, cm) \<in> set (filter (\<lambda>(_, cm). unsafe_detector DEFAULT_PRECISION_THRESHOLD cm) (foldl score_entry [] eps)) \<longleftrightarrow>
      imprecise c eps \<and> cm = reference_matrix c eps" for c cm
    using imprecise_present by (auto simp: score_entries_mem unsafe_detector_default [OF assms])
  then show ?thesis by force
qed

lemma metrics_unit:
  assumes "cm = reference_matrix c eps" and "k \<in> {''precision'', ''recall'', ''fp_rate''}"
  shows "\<exists>x. dict_get (cm_as_dict cm) k = Some (JFloat x) \<and> 0 \<le> x \<and> x \<le> 1"
proof -
  have "0 \<le> cm_tp cm" "0 \<le> cm_fp cm" "0 \<le> cm_fn cm" "0 \<le> cm_tn cm"
    by (simp_all add: assms(1) reference_matrix_def tally_nonneg)
  then have "0 \<le> precision cm \<and> precision cm \<le> 1" "0 \<le> recall cm \<and> recall cm \<le> 1" "0 \<le> fp_rate cm \<and> fp_rate cm \<le> 1"
    by (simp_all add: precision_def recall_def fp_rate_def ratio_unit)
  then show ?thesis
    using assms(2) py_round_unit [of "precision cm" 4] py_round_unit [of "recall cm" 4] py_round_unit [of "fp_rate cm" 4]
    by (elim insertE) (simp_all add: cm_as_dict_def)
qed

lemma calibration_run_ends:
  assumes "traverse (cj_predict job) entries = Inr ps"
  shows "\<exists>rc. calibration_run job ts entries = Inr rc"
  by (simp add: calibration_run_def assms)

lemma calibration_run_parts:
  assumes "calibration_run job ts entries = Inr (report, calls)" and "traverse (cj_predict job) entries = Inr ps"
  defines "bad \<equiv> filter (\<lambda>(_, cm). unsafe_detector (cj_threshold job) cm) (foldl score_entry [] (zip entries ps))"
  shows "cr_disabled report = sort (map fst bad)"
    and "cr_per_category report = map (\<lambda>(c, cm). (c, cm_as_dict cm)) (foldl score_entry [] (zip entries ps))"
    and "map dc_category calls = (if cj_has_authority job then map fst bad else [])"
  using assms by (auto simp: calibration_run_def Let_def comp_def case_prod_beta)

section \<open>Properties\<close>

text \<open>C26. A nightly run with the default threshold withdraws the blocking authority of exactly the
  categories that have a labelled violation and whose detector either flagged nothing or was wrong in
  more than fifteen percent of the entries it flagged, as an inequality between the exact counts: the
  division and the comparison in floating point never err. The list is sorted without repetition, the
  authority, when there is one, is called once for each category of it, and the reported rates lie
  between zero and one.\<close>

theorem calibration_disables:
  assumes "calibration_run job ts entries = Inr (report, calls)"
    and "cj_threshold job = DEFAULT_PRECISION_THRESHOLD" and "length entries \<le> 2 ^ 40"
  shows "\<exists>ps. list_all2 (\<lambda>e p. cj_predict job e = Inr p) entries ps \<and>
      set (cr_disabled report) = {c. imprecise c (zip entries ps)} \<and>
      sorted (cr_disabled report) \<and> distinct (cr_disabled report) \<and>
      sort (map dc_category calls) = (if cj_has_authority job then cr_disabled report else []) \<and>
      (\<forall>c m k. (c, m) \<in> set (cr_per_category report) \<longrightarrow> k \<in> {''precision'', ''recall'', ''fp_rate''} \<longrightarrow>
         (\<exists>x. dict_get m k = Some (JFloat x) \<and> 0 \<le> x \<and> x \<le> 1))"
proof -
  obtain ps where ps: "traverse (cj_predict job) entries = Inr ps"
    using assms(1) by (auto simp: calibration_run_def map_sum_Inr_iff)
  let ?eps = "zip entries ps" and ?thr = "DEFAULT_PRECISION_THRESHOLD"
  let ?ms = "foldl score_entry [] ?eps"
  let ?bad = "filter (\<lambda>(_, cm). unsafe_detector ?thr cm) ?ms"
  have l2: "list_all2 (\<lambda>e p. cj_predict job e = Inr p) entries ps" using ps by (simp add: traverse_Inr_iff)
  note dis = calibration_run_parts(1) [OF assms(1) ps, unfolded assms(2)]
    and per = calibration_run_parts(2) [OF assms(1) ps]
    and calls = calibration_run_parts(3) [OF assms(1) ps, unfolded assms(2)]
  have set: "set (cr_disabled report) = {c. imprecise c ?eps}"
    using bad_categories [of ?eps] assms(3) by (simp add: dis)
  have dist: "distinct (cr_disabled report)"
    using score_entries_wf [of ?eps] by (simp add: dis wf_dict_def distinct_map_filter)
  have unit: "\<exists>x. dict_get m k = Some (JFloat x) \<and> 0 \<le> x \<and> x \<le> 1"
    if "(c, m) \<in> set (cr_per_category report)" "k \<in> {''precision'', ''recall'', ''fp_rate''}" for c m k
    using that metrics_unit [of _ c ?eps k] by (auto simp: per score_entries_mem simp del: insert_iff)
  show ?thesis
    by (rule exI [of _ ps]) (use l2 set dist unit calls in \<open>simp add: dis\<close>)
qed

definition example_entry :: "string \<Rightarrow> string \<Rightarrow> ground_truth_entry" where
  "example_entry c l = \<lparr> gt_category = c, gt_label = l,
     gt_trace = \<lparr> tr_run_id = ''r'', tr_tenant_id = ''t'', tr_declared_goal = None, tr_events = [], tr_metadata = [] \<rparr>,
     gt_source = ''adversarial'', gt_id = ''g'' \<rparr>"

definition example_job :: calibration_job where
  "example_job = \<lparr> cj_predict = (\<lambda>e. Inr (gt_category e \<noteq> ''ASI03'')), cj_threshold = DEFAULT_PRECISION_THRESHOLD,
     cj_has_authority = True, cj_judge_model = ''offline-stub'', cj_judge_prompt_v = 1 \<rparr>"

definition example_corpus :: "ground_truth_entry list" where
  "example_corpus = [example_entry ''ASI08'' LABEL_VIOLATION, example_entry ''ASI08'' ''OK'',
     example_entry ''ASI03'' LABEL_VIOLATION, example_entry ''ASI02'' LABEL_VIOLATION]"

text \<open>Half of what the first category flags is wrong, the second flags nothing, the third is right.\<close>

theorem calibration_disables_witness:
  "\<exists>report calls. calibration_run example_job ''2026-01-01'' example_corpus = Inr (report, calls) \<and>
     cr_disabled report = [''ASI03'', ''ASI08''] \<and> set (cr_disabled report) =
       {c. imprecise c (zip example_corpus [True, True, False, True])} \<and> length calls = 2"
proof -
  have ps: "traverse (cj_predict example_job) example_corpus = Inr [True, True, False, True]" by code_simp
  from calibration_run_ends [OF this]
  obtain report calls where run: "calibration_run example_job ''2026-01-01'' example_corpus = Inr (report, calls)"
    unfolding split_paired_Ex by blast
  have bad: "map fst (filter (\<lambda>(_, cm). unsafe_detector (cj_threshold example_job) cm)
      (foldl score_entry [] (zip example_corpus [True, True, False, True]))) = [''ASI08'', ''ASI03'']"
    by code_simp
  note parts = calibration_run_parts [OF run ps, unfolded bad]
  have "cr_disabled report = [''ASI03'', ''ASI08'']" unfolding parts(1) by code_simp
  moreover have "length calls = 2" using arg_cong [OF parts(3), of length] by (simp add: example_job_def)
  moreover obtain qs where "list_all2 (\<lambda>e p. cj_predict example_job e = Inr p) example_corpus qs"
      "set (cr_disabled report) = {c. imprecise c (zip example_corpus qs)}"
    using calibration_disables [OF run] by (auto simp: example_job_def example_corpus_def)
  ultimately show ?thesis using run ps unfolding traverse_Inr_iff [symmetric] by auto
qed

end
