(* ===== verification/Json_Loads.thy ===== *)
theory Json_Loads
  imports Canonical_Json
begin

text \<open>
  \<^verbatim>\<open>json.loads\<close> of the standard library: the scanner for strings, numbers, arrays and objects, and the
  decoding of UTF-8 bytes. Text with a code point above 255 and the constants \<^verbatim>\<open>NaN\<close> and \<^verbatim>\<open>Infinity\<close> have no
  representation in the model, which then answers \<open>Unrepresentable\<close>. The recursion carries twice the length
  of the input as fuel; \<open>json_loads_ends\<close> shows that it is enough. The main result is that the parser inverts
  \<^verbatim>\<open>json.dumps\<close> on values without floats.
\<close>

section \<open>Scanner\<close>

datatype load_error = Malformed | Unrepresentable | Out_of_fuel

definition is_ws :: "char \<Rightarrow> bool" where
  "is_ws c = (c \<in> {CHR '' '', CHR 0x09, CHR 0x0A, CHR 0x0D})"

definition skip_ws :: "string \<Rightarrow> string" where
  "skip_ws s = dropWhile is_ws s"

definition expect :: "char \<Rightarrow> string \<Rightarrow> string option" where
  "expect c s = (case s of [] \<Rightarrow> None | x # t \<Rightarrow> if x = c then Some t else None)"

definition hex4 :: "char \<Rightarrow> char \<Rightarrow> char \<Rightarrow> char \<Rightarrow> nat option" where
  "hex4 a b c d =
     (case (hex_value a, hex_value b, hex_value c, hex_value d) of
        (Some w, Some x, Some y, Some z) \<Rightarrow> Some (4096 * w + 256 * x + 16 * y + z)
      | _ \<Rightarrow> None)"

definition plain_escape :: "char \<Rightarrow> char option" where
  "plain_escape e =
     (if e = CHR 0x22 \<or> e = CHR 0x5C \<or> e = CHR ''/'' then Some e
      else if e = CHR ''b'' then Some (char_of (8 :: nat))
      else if e = CHR ''f'' then Some (char_of (12 :: nat))
      else if e = CHR ''n'' then Some (char_of (10 :: nat))
      else if e = CHR ''r'' then Some (char_of (13 :: nat))
      else if e = CHR ''t'' then Some (char_of (9 :: nat))
      else None)"

text \<open>One character of a string literal, after its opening quote; \<open>None\<close> is the closing quote.\<close>

definition scan_char :: "string \<Rightarrow> load_error + char option \<times> string" where
  "scan_char s =
     (case s of
        [] \<Rightarrow> Inl Malformed
      | c # t \<Rightarrow>
          if c = CHR 0x22 then Inr (None, t)
          else if c = CHR 0x5C then
            (case t of
               [] \<Rightarrow> Inl Malformed
             | e # u \<Rightarrow>
                 if e = CHR ''u'' then
                   (case u of
                      x # y # z # w # v \<Rightarrow>
                        (case hex4 x y z w of
                           None \<Rightarrow> Inl Malformed
                         | Some n \<Rightarrow> if n < 256 then Inr (Some (char_of n), v) else Inl Unrepresentable)
                    | _ \<Rightarrow> Inl Malformed)
                 else (case plain_escape e of None \<Rightarrow> Inl Malformed | Some x \<Rightarrow> Inr (Some x, u)))
          else if (of_char c :: nat) < 32 then Inl Malformed
          else Inr (Some c, t))"

lemma scan_char_shorter: "scan_char s = Inr (x, r) \<Longrightarrow> length r < length s"
  by (auto simp: scan_char_def split: list.splits if_splits option.splits)

function scan_string :: "string \<Rightarrow> load_error + string \<times> string" where
  "scan_string s =
     (case scan_char s of
        Inl e \<Rightarrow> Inl e
      | Inr (None, r) \<Rightarrow> Inr ([], r)
      | Inr (Some c, r) \<Rightarrow> map_sum id (\<lambda>(cs, r'). (c # cs, r')) (scan_string r))"
  by auto
termination by (relation "measure length") (auto dest: scan_char_shorter)

declare scan_string.simps [simp del]

text \<open>\<^verbatim>\<open>(-?(?:0|[1-9]\d*))(\.\d+)?([eE][-+]?\d+)?\<close>; without fraction and exponent the number is an integer.\<close>

definition int_part :: "string \<Rightarrow> (string \<times> string) option" where
  "int_part s =
     (if s = [] \<or> \<not> is_digit (hd s) then None
      else if hd s = CHR ''0'' then Some (''0'', tl s)
      else Some (takeWhile is_digit s, dropWhile is_digit s))"

definition frac_part :: "string \<Rightarrow> string \<times> string" where
  "frac_part s =
     (case expect (CHR ''.'') s of
        None \<Rightarrow> ([], s)
      | Some t \<Rightarrow> (let ds = takeWhile is_digit t in if ds = [] then ([], s) else (ds, dropWhile is_digit t)))"

definition exp_part :: "string \<Rightarrow> int option \<times> string" where
  "exp_part s =
     (if s = [] \<or> hd s \<notin> {CHR ''e'', CHR ''E''} then (None, s)
      else (let t = tl s;
                u = (if t \<noteq> [] \<and> hd t \<in> {CHR ''+'', CHR ''-''} then tl t else t);
                ds = takeWhile is_digit u;
                e = int (digits_val ds)
            in if ds = [] then (None, s)
               else (Some (if startswith t ''-'' then - e else e), dropWhile is_digit u)))"

definition scan_number :: "string \<Rightarrow> load_error + json \<times> string" where
  "scan_number s =
     (let neg = startswith s ''-'' in
      case int_part (if neg then tl s else s) of
        None \<Rightarrow> Inl Malformed
      | Some (ds, r) \<Rightarrow>
          (let (fs, r') = frac_part r; (ex, r'') = exp_part r' in
           if fs = [] \<and> ex = None then Inr (JInt (if neg then - int (digits_val ds) else int (digits_val ds)), r'')
           else (let k = (case ex of None \<Rightarrow> 0 | Some k \<Rightarrow> k);
                     x = rnd64 (of_nat (digits_val (ds @ fs)) * 10 powi (k - int (length fs)))
                 in if 2 ^ 1024 \<le> x then Inl Unrepresentable else Inr (JFloat (if neg then - x else x), r''))))"

fun parse_value :: "nat \<Rightarrow> string \<Rightarrow> load_error + json \<times> string"
  and parse_items :: "nat \<Rightarrow> json list \<Rightarrow> string \<Rightarrow> load_error + json \<times> string"
  and parse_members :: "nat \<Rightarrow> (string, json) pydict \<Rightarrow> string \<Rightarrow> load_error + json \<times> string" where
  "parse_value 0 s = Inl Out_of_fuel"
| "parse_value (Suc n) s =
     (case s of
        [] \<Rightarrow> Inl Malformed
      | c # t \<Rightarrow>
          if c = CHR 0x22 then map_sum id (\<lambda>(x, r). (JStr x, r)) (scan_string t)
          else if c = CHR ''{'' then
            (case expect (CHR ''}'') (skip_ws t) of Some r \<Rightarrow> Inr (JObj [], r) | None \<Rightarrow> parse_members n [] (skip_ws t))
          else if c = CHR ''['' then
            (case expect (CHR '']'') (skip_ws t) of Some r \<Rightarrow> Inr (JList [], r) | None \<Rightarrow> parse_items n [] (skip_ws t))
          else if startswith s ''null'' then Inr (JNull, drop 4 s)
          else if startswith s ''true'' then Inr (JBool True, drop 4 s)
          else if startswith s ''false'' then Inr (JBool False, drop 5 s)
          else if startswith s ''NaN'' \<or> startswith s ''Infinity'' \<or> startswith s ''-Infinity'' then Inl Unrepresentable
          else scan_number s)"
| "parse_items 0 acc s = Inl Out_of_fuel"
| "parse_items (Suc n) acc s =
     sum_bind (parse_value n s) (\<lambda>(v, r).
       (case expect (CHR '']'') (skip_ws r) of
          Some q \<Rightarrow> Inr (JList (acc @ [v]), q)
        | None \<Rightarrow>
            (case expect (CHR '','') (skip_ws r) of
               Some q \<Rightarrow> parse_items n (acc @ [v]) (skip_ws q)
             | None \<Rightarrow> Inl Malformed)))"
| "parse_members 0 acc s = Inl Out_of_fuel"
| "parse_members (Suc n) acc s =
     (case expect (CHR 0x22) s of
        None \<Rightarrow> Inl Malformed
      | Some t \<Rightarrow> sum_bind (scan_string t) (\<lambda>(k, r).
          (case expect (CHR '':'') (skip_ws r) of
             None \<Rightarrow> Inl Malformed
           | Some q \<Rightarrow> sum_bind (parse_value n (skip_ws q)) (\<lambda>(v, r').
               (case expect (CHR ''}'') (skip_ws r') of
                  Some q' \<Rightarrow> Inr (JObj (dict_set k v acc), q')
                | None \<Rightarrow>
                    (case expect (CHR '','') (skip_ws r') of
                       Some q' \<Rightarrow> parse_members n (dict_set k v acc) (skip_ws q')
                     | None \<Rightarrow> Inl Malformed))))))"

text \<open>\<^verbatim>\<open>json.loads(s)\<close> on a string.\<close>

definition json_loads :: "string \<Rightarrow> load_error + json" where
  "json_loads s =
     (let t = skip_ws s in
      case parse_value (Suc (2 * length t)) t of
        Inl e \<Rightarrow> Inl e
      | Inr (j, r) \<Rightarrow> if skip_ws r = [] then Inr j else Inl Malformed)"

text \<open>Decoding of bytes. A byte order mark or a zero among the first two bytes selects another encoding, which
  the model leaves out like every code point above 255.\<close>

fun utf8_decode :: "bytes \<Rightarrow> load_error + string" where
  "utf8_decode [] = Inr []"
| "utf8_decode (b # bs) =
     (if unat b < 128 then map_sum id (\<lambda>s. char_of (unat b) # s) (utf8_decode bs)
      else if unat b = 194 \<or> unat b = 195 then
        (case bs of
           [] \<Rightarrow> Inl Malformed
         | b' # bs' \<Rightarrow>
             if 128 \<le> unat b' \<and> unat b' < 192
             then map_sum id (\<lambda>s. char_of (64 * (unat b - 192) + (unat b' - 128)) # s) (utf8_decode bs')
             else Inl Malformed)
      else Inl Unrepresentable)"

definition utf8_detected :: "bytes \<Rightarrow> bool" where
  "utf8_detected bs = (0 \<notin> set (take 2 bs) \<and> (bs = [] \<or> unat (hd bs) \<notin> {239, 254, 255}))"

definition json_loads_bytes :: "bytes \<Rightarrow> load_error + json" where
  "json_loads_bytes bs = (if utf8_detected bs then sum_bind (utf8_decode bs) json_loads else Inl Unrepresentable)"

section \<open>The fuel is enough\<close>

lemma skip_ws_length: "length (skip_ws s) \<le> length s"
  by (simp add: skip_ws_def length_dropWhile_le)

lemma expect_Some: "expect c s = Some t \<longleftrightarrow> s = c # t"
  by (auto simp: expect_def split: list.splits if_splits)

lemma scan_string_ends: "scan_string s \<noteq> Inl Out_of_fuel \<and> (scan_string s = Inr (x, r) \<longrightarrow> length r < length s)"
proof (induction s arbitrary: x r rule: scan_string.induct)
  case (1 s)
  show ?case
  proof (cases "scan_char s")
    case (Inl e)
    then show ?thesis
      by (simp add: scan_string.simps [of s])
        (auto simp: scan_char_def split: list.splits if_splits option.splits)
  next
    case (Inr cr)
    obtain c q where cr: "cr = (c, q)" by (cases cr)
    with Inr have q: "length q < length s" using scan_char_shorter by blast
    show ?thesis
    proof (cases c)
      case None
      with Inr cr q show ?thesis by (auto simp: scan_string.simps [of s])
    next
      case (Some c')
      note IH = 1 [OF Inr cr [symmetric] Some]
      show ?thesis
        using Inr cr Some q IH by (cases "scan_string q") (auto simp: scan_string.simps [of s] intro: less_trans)
    qed
  qed
qed

lemma dropWhile_length_less: "s \<noteq> [] \<Longrightarrow> P (hd s) \<Longrightarrow> length (dropWhile P s) < length s"
  by (cases s) (auto simp: le_imp_less_Suc length_dropWhile_le)

lemma frac_part_length: "frac_part s = (fs, r) \<Longrightarrow> length r \<le> length s"
  by (auto simp: frac_part_def Let_def expect_Some split: option.splits if_splits intro: le_SucI length_dropWhile_le)

lemma exp_part_length: "exp_part s = (ex, r) \<Longrightarrow> length r \<le> length s"
proof -
  assume e: "exp_part s = (ex, r)"
  show "length r \<le> length s"
  proof (cases "r = s")
    case False
    then obtain u where "r = dropWhile is_digit u" "u = tl s \<or> u = tl (tl s)"
      using e by (auto simp: exp_part_def Let_def split: if_splits)
    then show ?thesis using length_dropWhile_le [of is_digit u] by auto
  qed simp
qed

lemma scan_number_ends: "scan_number s \<noteq> Inl Out_of_fuel \<and> (scan_number s = Inr (j, r) \<longrightarrow> length r < length s)"
proof -
  let ?t = "if startswith s ''-'' then tl s else s"
  have int: "length q < length s" if "int_part ?t = Some (ds, q)" for ds q
  proof -
    have "?t \<noteq> [] \<and> length q < length ?t"
      using that dropWhile_length_less [of ?t is_digit] by (auto simp: int_part_def split: if_splits)
    then show ?thesis by (auto split: if_splits)
  qed
  show ?thesis
  proof (cases "int_part ?t")
    case None
    then show ?thesis by (simp add: scan_number_def)
  next
    case (Some p)
    obtain ds q where p: "p = (ds, q)" by (cases p)
    obtain fs q' where f: "frac_part q = (fs, q')" by (cases "frac_part q")
    obtain ex q'' where e: "exp_part q' = (ex, q'')" by (cases "exp_part q'")
    have "length q'' < length s"
      using int [of ds q] Some p frac_part_length [OF f] exp_part_length [OF e] by simp
    then show ?thesis by (auto simp: scan_number_def Some p f e Let_def)
  qed
qed

text \<open>A result that consumes input and did not run out of fuel.\<close>

definition ends_in :: "nat \<Rightarrow> load_error + 'a \<times> string \<Rightarrow> bool" where
  "ends_in k res = (case res of Inl e \<Rightarrow> e \<noteq> Out_of_fuel | Inr (j, r) \<Rightarrow> length r < k)"

lemma ends_in_mono: "ends_in k res \<Longrightarrow> k \<le> m \<Longrightarrow> ends_in m res"
  by (auto simp: ends_in_def split: sum.splits)

lemma ends_in_bind:
  assumes "ends_in k res" and "\<And>j r. length r < k \<Longrightarrow> ends_in m (f (j, r))"
  shows "ends_in m (sum_bind res f)"
proof (cases res)
  case (Inr jr)
  then show ?thesis using assms by (cases jr) (auto simp: ends_in_def)
qed (use assms in \<open>auto simp: ends_in_def\<close>)

lemma ends_in_Inr [simp]: "ends_in k (Inr (j, r)) \<longleftrightarrow> length r < k"
  by (simp add: ends_in_def)

lemma ends_in_Malformed [simp]: "ends_in k (Inl Malformed)" "ends_in k (Inl Unrepresentable)"
  by (simp_all add: ends_in_def)

lemma scan_string_ends_in: "ends_in (length s) (scan_string s)"
  using scan_string_ends [of s] by (auto simp: ends_in_def split: sum.splits)

lemma parse_ends:
  "(\<forall>s. 2 * length s < n \<longrightarrow> ends_in (length s) (parse_value n s)) \<and>
   (\<forall>acc s. 2 * length s + 1 < n \<longrightarrow> ends_in (length s) (parse_items n acc s)) \<and>
   (\<forall>acc s. 2 * length s + 1 < n \<longrightarrow> ends_in (length s) (parse_members n acc s))"
proof (induction n)
  case (Suc n)
  have val: "ends_in k (parse_value n s)" if "2 * length s < n" "length s \<le> k" for s k
    using Suc.IH that ends_in_mono by blast
  have items: "ends_in k (parse_items n acc s)" if "2 * length s + 1 < n" "length s \<le> k" for s acc k
    using Suc.IH that ends_in_mono by blast
  have members: "ends_in k (parse_members n acc s)" if "2 * length s + 1 < n" "length s \<le> k" for s acc k
    using Suc.IH that ends_in_mono by blast
  have "ends_in (length s) (parse_value (Suc n) s)" if s: "2 * length s < Suc n" for s
  proof (cases s)
    case (Cons c t)
    have t: "2 * length (skip_ws t) + 1 < n" "length (skip_ws t) \<le> length s"
      using skip_ws_length [of t] s Cons by simp_all
    have str: "ends_in (length s) (map_sum id (\<lambda>(x, r). (JStr x, r)) (scan_string t))"
      using scan_string_ends [of t] Cons
      by (cases "scan_string t") (auto simp: ends_in_def intro: less_SucI)
    have num: "ends_in (length s) (scan_number s)"
      using scan_number_ends [of s] by (auto simp: ends_in_def split: sum.splits)
    have r: "length q < length s" if "skip_ws t = x # q" for x q
      using t(2) that by simp
    have obj: "ends_in (length s)
        (case expect (CHR ''}'') (skip_ws t) of Some r \<Rightarrow> Inr (JObj [], r) | None \<Rightarrow> parse_members n [] (skip_ws t))"
      using members [OF t] r by (simp add: expect_Some split: option.split)
    have arr: "ends_in (length s)
        (case expect (CHR '']'') (skip_ws t) of Some r \<Rightarrow> Inr (JList [], r) | None \<Rightarrow> parse_items n [] (skip_ws t))"
      using items [OF t] r by (simp add: expect_Some split: option.split)
    have "ends_in (length s) (Inr (j, drop (Suc k) s))" for j :: json and k using Cons by simp
    from this [of _ 3] this [of _ 4] show ?thesis
      unfolding parse_value.simps Cons list.case
      using str num obj arr unfolding Cons
      by (simp add: eval_nat_numeral del: startswith.simps ends_in_Inr split: if_split)
  qed simp
  moreover have "ends_in (length s) (parse_items (Suc n) acc s)" if s: "2 * length s + 1 < Suc n" for acc s
  proof -
    have v: "ends_in (length s) (parse_value n s)" using s by (intro val) simp_all
    show ?thesis
      unfolding parse_items.simps
    proof (rule ends_in_bind [OF v])
      fix j :: json and r :: string assume r: "length r < length s"
      have "2 * length (skip_ws q) + 1 < n" "length (skip_ws q) \<le> length s" "length q < length s"
        if "skip_ws r = x # q" for x q
        using skip_ws_length [of q] skip_ws_length [of r] that r s by simp_all
      then show "ends_in (length s) ((\<lambda>(v, r). case expect (CHR '']'') (skip_ws r) of
          Some q \<Rightarrow> Inr (JList (acc @ [v]), q)
        | None \<Rightarrow> (case expect (CHR '','') (skip_ws r) of
              Some q \<Rightarrow> parse_items n (acc @ [v]) (skip_ws q) | None \<Rightarrow> Inl Malformed)) (j, r))"
        using items by (simp add: expect_Some split: option.split)
    qed
  qed
  moreover have "ends_in (length s) (parse_members (Suc n) acc s)" if s: "2 * length s + 1 < Suc n" for acc s
  proof (cases "expect (CHR 0x22) s")
    case (Some t)
    then have t: "s = CHR 0x22 # t" by (simp add: expect_Some)
    have after: "ends_in (length s) (case expect (CHR ''}'') (skip_ws r) of
          Some q \<Rightarrow> Inr (JObj (dict_set k v acc), q)
        | None \<Rightarrow> (case expect (CHR '','') (skip_ws r) of
              Some q \<Rightarrow> parse_members n (dict_set k v acc) (skip_ws q) | None \<Rightarrow> Inl Malformed))"
      if r: "length r < length t" for k v r
    proof -
      have "2 * length (skip_ws q) + 1 < n" "length (skip_ws q) \<le> length s" "length q < length s"
        if "skip_ws r = x # q" for x q
        using skip_ws_length [of q] skip_ws_length [of r] that r s t by simp_all
      then show ?thesis using members by (simp add: expect_Some split: option.split)
    qed
    have "ends_in (length s) (case expect (CHR '':'') (skip_ws r) of
          None \<Rightarrow> Inl Malformed
        | Some q \<Rightarrow> sum_bind (parse_value n (skip_ws q)) (\<lambda>(v, r').
            (case expect (CHR ''}'') (skip_ws r') of
               Some q' \<Rightarrow> Inr (JObj (dict_set k v acc), q')
             | None \<Rightarrow> (case expect (CHR '','') (skip_ws r') of
                  Some q' \<Rightarrow> parse_members n (dict_set k v acc) (skip_ws q') | None \<Rightarrow> Inl Malformed))))"
      if r: "length r < length t" for k r
    proof (cases "expect (CHR '':'') (skip_ws r)")
      case (Some q)
      then have q: "length (skip_ws q) < length t"
        using skip_ws_length [of q] skip_ws_length [of r] r by (simp add: expect_Some)
      have "ends_in (length t) (parse_value n (skip_ws q))" using q s t by (intro val) simp_all
      then show ?thesis unfolding Some by (auto intro!: ends_in_bind [where k = "length t"] after)
    qed simp
    then show ?thesis
      using scan_string_ends_in [of t] by (auto simp: Some intro!: ends_in_bind [where k = "length t"])
  qed simp
  ultimately show ?case by blast
qed simp

lemma json_loads_ends: "json_loads s \<noteq> Inl Out_of_fuel"
proof -
  have "ends_in (length (skip_ws s)) (parse_value (Suc (2 * length (skip_ws s))) (skip_ws s))"
    using parse_ends [of "Suc (2 * length (skip_ws s))"] by blast
  then show ?thesis
    unfolding json_loads_def Let_def
    by (cases "parse_value (Suc (2 * length (skip_ws s))) (skip_ws s)") (simp_all add: ends_in_def split: prod.split)
qed

section \<open>Parsing inverts printing\<close>

lemma scan_char_unicode:
  assumes "n < 256"
  shows "scan_char ([CHR 0x5C, CHR ''u'', CHR ''0'', CHR ''0'', hex_digit (n div 16), hex_digit (n mod 16)] @ r) =
    Inr (Some (char_of n), r)"
proof -
  have z: "hex_value (CHR ''0'') = Some 0" by code_simp
  have "n div 16 < 16" using assms by simp
  then have "hex4 (CHR ''0'') (CHR ''0'') (hex_digit (n div 16)) (hex_digit (n mod 16)) = Some n"
    by (simp add: hex4_def z hex_value_digit)
  then show ?thesis using assms by (simp add: scan_char_def)
qed

lemma scan_char_esc: "scan_char (esc_char c @ r) = Inr (Some c, r)"
proof -
  define n where "n = (of_char c :: nat)"
  have c: "c = char_of n" and n: "n < 256" by (simp_all add: n_def)
  have "n \<noteq> 34 \<Longrightarrow> n \<noteq> 92 \<Longrightarrow> 32 \<le> n \<Longrightarrow> scan_char ([c] @ r) = Inr (Some c, r)"
    by (auto simp: scan_char_def n_def)
  moreover have "scan_char ([CHR 0x5C, x] @ r) =
      (case plain_escape x of None \<Rightarrow> Inl Malformed | Some y \<Rightarrow> Inr (Some y, r))" if "x \<noteq> CHR ''u''" for x
    using that by (simp add: scan_char_def)
  ultimately show ?thesis
    unfolding esc_char_def n_def [symmetric] Let_def
    by (simp add: scan_char_unicode [OF n, simplified] plain_escape_def c char_of_quote)
qed

lemma scan_string_body: "scan_string (concat (map esc_char s) @ CHR 0x22 # r) = Inr (s, r)"
proof (induction s)
  case Nil
  show ?case by (simp add: scan_string.simps [of "_ # _"] scan_char_def)
next
  case (Cons c s)
  then show ?case
    by (subst scan_string.simps) (simp add: scan_char_esc)
qed

lemma str_nat_no_zero: "0 < n \<Longrightarrow> hd (str_nat n) \<noteq> CHR ''0''"
proof (induction n rule: str_nat.induct)
  case (1 n)
  show ?case
  proof (cases "n < 10")
    case True
    have "of_char (digit_char n) = 48 + n" using True by (rule of_digit_char)
    then have "digit_char n \<noteq> CHR ''0''" using 1(2) by auto
    then show ?thesis using True by (simp add: str_nat_step)
  next
    case False
    then show ?thesis using 1 str_nat_head(2) [of "n div 10"] by (simp add: str_nat_step(2))
  qed
qed

lemma stop_no_tail: "stop r \<Longrightarrow> frac_part r = ([], r) \<and> exp_part r = (None, r)"
  by (auto simp: stop_def frac_part_def exp_part_def expect_def split: list.splits)

lemma str_nat_0: "str_nat 0 = ''0''"
  by code_simp

lemma int_part_str_nat:
  assumes "stop r"
  shows "int_part (str_nat n @ r) = Some (str_nat n, r)"
proof (cases "n = 0")
  case True
  then show ?thesis by (simp add: str_nat_0 int_part_def is_digit_def)
next
  case False
  have "\<forall>c \<in> set (str_nat n). is_digit c" using str_nat_facts [of n] by (simp add: list_all_iff)
  moreover have "takeWhile is_digit r = []" "dropWhile is_digit r = r"
    using stop_not_digit [OF assms] by (cases r; simp)+
  ultimately show ?thesis
    using False str_nat_no_zero [of n] str_nat_head [of n]
    by (simp add: int_part_def takeWhile_append dropWhile_append)
qed

lemma scan_number_str_int:
  assumes "stop r"
  shows "scan_number (str_int i @ r) = Inr (JInt i, r)"
proof -
  have d: "digits_val (str_nat n) = n" for n using str_nat_facts by simp
  have m: "\<not> startswith (str_nat n @ q) ''-''" for n q
    using str_nat_head [of n] by (cases "str_nat n") (auto simp: is_digit_def)
  show ?thesis
    by (cases "i < 0") (simp_all add: scan_number_def str_int_def m int_part_str_nat [OF assms] stop_no_tail [OF assms] d)
qed

text \<open>A dictionary has no key twice.\<close>

fun wf_json :: "json \<Rightarrow> bool" where
  "wf_json (JList xs) = list_all wf_json xs"
| "wf_json (JObj kvs) = (distinct (map fst kvs) \<and> list_all (\<lambda>(k, v). wf_json v) kvs)"
| "wf_json j = True"

lemma wf_json_set: "wf_json (JObj kvs) \<Longrightarrow> wf_json v \<Longrightarrow> wf_json (JObj (dict_set k v kvs))"
proof -
  assume "wf_json (JObj kvs)" "wf_json v"
  moreover from this have "list_all (\<lambda>(k, v). wf_json v) (dict_set k v kvs)"
    by (induction kvs) auto
  ultimately show ?thesis by (simp add: distinct_update)
qed

lemma scan_number_wf: "scan_number s = Inr (j, r) \<Longrightarrow> wf_json j"
  by (auto simp: scan_number_def Let_def split: if_splits option.splits prod.splits)

text \<open>What the parser returns is well-formed.\<close>

lemma parse_wf:
  "parse_value n s = Inr (j, r) \<Longrightarrow> wf_json j"
  "parse_items n xs s = Inr (j, r) \<Longrightarrow> list_all wf_json xs \<Longrightarrow> wf_json j"
  "parse_members n kvs s = Inr (j, r) \<Longrightarrow> wf_json (JObj kvs) \<Longrightarrow> wf_json j"
proof (induction n s and n xs s and n kvs s arbitrary: j r and j r and j r
    rule: parse_value_parse_items_parse_members.induct)
  case (2 n s)
  show ?case
  proof (cases s)
    case (Cons c t)
    with 2 show ?thesis
      by (auto simp: map_sum_Inr_iff dest: scan_number_wf simp del: startswith.simps split: if_splits option.splits)
  qed (use "2.prems" in simp)
next
  case (4 n acc s)
  then show ?case
    by (fastforce simp: sum_bind_Inr_iff split: option.splits)
next
  case (6 n acc s)
  then show ?case
    by (fastforce simp: sum_bind_Inr_iff wf_json_set simp del: wf_json.simps split: option.splits)
qed simp_all

lemma json_loads_wf: "json_loads s = Inr j \<Longrightarrow> wf_json j"
  unfolding json_loads_def Let_def by (auto split: sum.splits prod.splits if_splits dest: parse_wf(1) simp del: parse_value.simps)

lemma skip_ws_Cons [simp]: "\<not> is_ws c \<Longrightarrow> skip_ws (c # s) = c # s"
  by (simp add: skip_ws_def)

lemma not_ws [simp]: "\<not> is_ws CHR 0x22" "\<not> is_ws CHR '',''" "\<not> is_ws CHR '':''" "\<not> is_ws CHR ''}''" "\<not> is_ws CHR '']''"
    "\<not> is_ws CHR ''{''" "\<not> is_ws CHR ''[''"
  by (simp_all add: is_ws_def)

lemma expect_simps [simp]: "expect c (c # s) = Some s" "x \<noteq> c \<Longrightarrow> expect c (x # s) = None"
  by (simp_all add: expect_def)

text \<open>The first character of an encoded value: never white space nor a closing bracket.\<close>

lemma json_text_start:
  assumes "no_float j"
  obtains c t where "json_text j = c # t" "\<not> is_ws c" "c \<noteq> CHR '']''" "c \<noteq> CHR ''}''"
proof -
  obtain c t where ct: "json_text j = c # t" and k: "kind_of_head c = json_kind j" "c \<noteq> CHR '']''" "c \<noteq> CHR ''}''"
    using json_text_head [OF assms] by (cases "json_text j") auto
  have "\<not> is_ws c"
  proof (cases "json_kind j = 3")
    case True
    then obtain i where "j = JInt i" by (cases j) (auto split: if_splits)
    then have "c = CHR ''-'' \<or> is_digit c"
      using ct str_nat_head [of "nat i"] str_nat_head [of "nat (- i)"]
      by (cases "str_nat (nat i)") (auto simp: str_int_def split: if_splits)
    then show ?thesis by (auto simp: is_ws_def is_digit_def)
  next
    case False
    then show ?thesis using k(1) by (auto simp: is_ws_def kind_of_head_def)
  qed
  with ct k(2,3) show ?thesis by (intro that)
qed

lemma dict_set_fresh: "k \<notin> fst ` set acc \<Longrightarrow> dict_set k v acc = acc @ [(k, v)]"
  by (induction acc) auto

definition item_text :: "string \<times> json \<Rightarrow> string" where
  "item_text = (\<lambda>(k, v). json_string k @ '':'' @ json_text v)"

lemma parse_items_text:
  assumes "\<And>x m q. x \<in> set xs \<Longrightarrow> stop q \<Longrightarrow> 2 * length (json_text x) \<le> m \<Longrightarrow>
      parse_value m (json_text x @ q) = Inr (x, q)"
    and "xs \<noteq> []" and "list_all no_float xs"
    and "2 * length (py_join '','' (map json_text xs)) + 2 \<le> n"
  shows "parse_items n acc (py_join '','' (map json_text xs) @ CHR '']'' # r) = Inr (JList (acc @ xs), r)"
  using assms
proof (induction xs arbitrary: acc n)
  case (Cons x xs)
  obtain m where n: "n = Suc m" using Cons.prems(4) by (cases n) auto
  show ?case
  proof (cases xs)
    case Nil
    have "parse_value m (json_text x @ CHR '']'' # r) = Inr (x, CHR '']'' # r)"
      using Cons.prems n Nil by (intro Cons.prems(1)) (simp_all add: stop_def)
    then show ?thesis by (simp add: n Nil)
  next
    case (Cons y ys)
    let ?q = "py_join '','' (map json_text xs) @ CHR '']'' # r"
    have j: "py_join '','' (map json_text (x # xs)) = json_text x @ CHR '','' # py_join '','' (map json_text xs)"
      by (simp add: Cons)
    have v: "parse_value m (json_text x @ CHR '','' # ?q) = Inr (x, CHR '','' # ?q)"
      using Cons.prems(4) n unfolding j by (intro Cons.prems(1)) (simp_all add: stop_def)
    obtain c t where "json_text y = c # t" "\<not> is_ws c" using Cons.prems(3) Cons by (auto elim: json_text_start)
    then have w: "skip_ws ?q = ?q" by (cases ys) (simp_all add: Cons)
    have "parse_items m (acc @ [x]) ?q = Inr (JList ((acc @ [x]) @ xs), r)"
      using Cons.prems n Cons unfolding j by (intro Cons.IH) simp_all
    then show ?thesis unfolding n j by (simp add: v w)
  qed
qed simp

lemma parse_members_text:
  assumes "\<And>k v m q. (k, v) \<in> set kvs \<Longrightarrow> stop q \<Longrightarrow> 2 * length (json_text v) \<le> m \<Longrightarrow>
      parse_value m (json_text v @ q) = Inr (v, q)"
    and "kvs \<noteq> []" and "list_all (\<lambda>(k, v). no_float v) kvs" and "distinct (map fst (acc @ kvs))"
    and "2 * length (py_join '','' (map item_text kvs)) + 2 \<le> n"
  shows "parse_members n acc (py_join '','' (map item_text kvs) @ CHR ''}'' # r) = Inr (JObj (acc @ kvs), r)"
  using assms
proof (induction kvs arbitrary: acc n)
  case (Cons kv kvs)
  obtain k v where kv: "kv = (k, v)" by (cases kv)
  obtain m where n: "n = Suc m" using Cons.prems(5) by (cases n) auto
  have f: "dict_set k v acc = acc @ [(k, v)]" using Cons.prems(4) kv by (intro dict_set_fresh) auto
  obtain c t where ct: "json_text v = c # t" "\<not> is_ws c" using Cons.prems(3) kv by (auto elim: json_text_start)
  have one: "parse_members n acc (item_text kv @ q) =
      sum_bind (parse_value m (json_text v @ q)) (\<lambda>(v, r').
        (case expect (CHR ''}'') (skip_ws r') of
           Some q' \<Rightarrow> Inr (JObj (dict_set k v acc), q')
         | None \<Rightarrow> (case expect (CHR '','') (skip_ws r') of
              Some q' \<Rightarrow> parse_members m (dict_set k v acc) (skip_ws q') | None \<Rightarrow> Inl Malformed)))" for q
    using scan_string_body [of k "CHR '':'' # json_text v @ q"] ct
    by (simp add: n kv item_text_def json_string_def)
  have len: "2 * length (json_text v) \<le> m"
    using Cons.prems(5) n kv by (cases kvs) (simp_all add: item_text_def)
  show ?case
  proof (cases kvs)
    case Nil
    have "parse_value m (json_text v @ CHR ''}'' # r) = Inr (v, CHR ''}'' # r)"
      using kv len by (intro Cons.prems(1) [of k]) (simp_all add: stop_def)
    then show ?thesis using one [of "CHR ''}'' # r"] by (simp add: Nil kv f)
  next
    case (Cons kv' kvs')
    let ?q = "py_join '','' (map item_text kvs) @ CHR ''}'' # r"
    have j: "py_join '','' (map item_text (kv # kvs)) = item_text kv @ CHR '','' # py_join '','' (map item_text kvs)"
      by (simp add: Cons)
    have v: "parse_value m (json_text v @ CHR '','' # ?q) = Inr (v, CHR '','' # ?q)"
      using kv len by (intro Cons.prems(1) [of k]) (simp_all add: stop_def)
    have w: "skip_ws ?q = ?q" by (cases kvs') (auto simp: Cons item_text_def json_string_def split: prod.split)
    have "parse_members m (acc @ [(k, v)]) ?q = Inr (JObj ((acc @ [(k, v)]) @ kvs), r)"
    proof (rule Cons.IH)
      fix k' v' m' q assume "(k', v') \<in> set kvs" "stop q" "2 * length (json_text v') \<le> m'"
      then show "parse_value m' (json_text v' @ q) = Inr (v', q)" by (intro Cons.prems(1) [of k']) simp_all
    next
      show "2 * length (py_join '','' (map item_text kvs)) + 2 \<le> m" using Cons.prems(5) n unfolding j by simp
    qed (use Cons.prems(3,4) kv Cons in auto)
    then show ?thesis unfolding j using one [of "CHR '','' # ?q"] by (simp add: v w f kv)
  qed
qed simp

lemma parse_value_number:
  assumes "stop r"
  shows "parse_value (Suc n) (str_int i @ r) = Inr (JInt i, r)"
proof -
  have "str_int i @ r \<noteq> [] \<and> (hd (str_int i @ r) = CHR ''-'' \<or> is_digit (hd (str_int i @ r)))"
    using str_nat_head [of "nat i"] by (auto simp: str_int_def)
  then obtain c t where ct: "str_int i @ r = c # t" "c = CHR ''-'' \<or> is_digit c"
    by (cases "str_int i @ r") auto
  have "\<not> startswith (c # t) ''-Infinity''"
  proof (cases "i < 0")
    case True
    then have "t = str_nat (nat (- i)) @ r" using ct(1) by (simp add: str_int_def)
    then show ?thesis using str_nat_head [of "nat (- i)"] by (cases "str_nat (nat (- i))") (auto simp: is_digit_def)
  next
    case False
    then have "c = hd (str_nat (nat i))" using ct(1) str_nat_head(2) [of "nat i"] by (cases "str_nat (nat i)") (auto simp: str_int_def)
    then show ?thesis using str_nat_head(1) [of "nat i"] by (auto simp: is_digit_def)
  qed
  moreover have "c \<noteq> x" if "x \<in> set (CHR 0x22 # ''{[ntfNI'')" for x
    using ct(2) that by (auto simp: is_digit_def)
  ultimately have "parse_value (Suc n) (c # t) = scan_number (c # t)" by auto
  then show ?thesis using scan_number_str_int [OF assms, of i] ct(1) by metis
qed

lemma parse_value_text:
  assumes "no_float j" "wf_json j" "stop r" "2 * length (json_text j) \<le> n"
  shows "parse_value n (json_text j @ r) = Inr (j, r)"
  using assms
proof (induction j arbitrary: n r)
  case (JStr s)
  then obtain m where "n = Suc m" by (cases n) (auto simp: json_string_def)
  then show ?case using scan_string_body [of s r] by (simp add: json_string_def)
next
  case (JInt i)
  then obtain m where "n = Suc m" using str_nat_head(2) by (cases n) (auto simp: str_int_def split: if_splits)
  then show ?case using JInt.prems parse_value_number [of r m i] by (simp only: json_text.simps)
next
  case (JList xs)
  then obtain m where m: "n = Suc m" by (cases n) auto
  show ?case
  proof (cases xs)
    case (Cons x xs')
    obtain c t where "json_text x = c # t" "\<not> is_ws c" "c \<noteq> CHR '']''"
      using JList.prems(1) Cons by (auto elim: json_text_start)
    then have w: "skip_ws (py_join '','' (map json_text xs) @ CHR '']'' # r) = py_join '','' (map json_text xs) @ CHR '']'' # r"
      and e: "expect (CHR '']'') (py_join '','' (map json_text xs) @ CHR '']'' # r) = None"
      by (cases xs'; simp add: Cons)+
    have "parse_items m [] (py_join '','' (map json_text xs) @ CHR '']'' # r) = Inr (JList ([] @ xs), r)"
      using JList Cons m by (intro parse_items_text) (auto simp: list_all_iff)
    then show ?thesis by (simp add: m w e)
  qed (simp add: m)
next
  case (JObj kvs)
  then obtain m where m: "n = Suc m" by (cases n) auto
  have tx: "json_text (JObj kvs) = ''{'' @ py_join '','' (map item_text kvs) @ ''}''" by (simp add: item_text_def)
  show ?case
  proof (cases kvs)
    case (Cons kv kvs')
    have "\<exists>t. py_join '','' (map item_text kvs) @ CHR ''}'' # r = CHR 0x22 # t"
      by (cases kvs') (auto simp: Cons item_text_def json_string_def split: prod.split)
    then have w: "skip_ws (py_join '','' (map item_text kvs) @ CHR ''}'' # r) = py_join '','' (map item_text kvs) @ CHR ''}'' # r"
      and e: "expect (CHR ''}'') (py_join '','' (map item_text kvs) @ CHR ''}'' # r) = None"
      by auto
    have "parse_members m [] (py_join '','' (map item_text kvs) @ CHR ''}'' # r) = Inr (JObj ([] @ kvs), r)"
    proof (rule parse_members_text)
      fix k v m' q assume kv: "(k, v) \<in> set kvs" and q: "stop q" "2 * length (json_text v) \<le> m'"
      have "no_float v" "wf_json v" using kv JObj.prems(1,2) by (auto simp: list_all_iff)
      then show "parse_value m' (json_text v @ q) = Inr (v, q)" using kv q by (intro JObj.IH) auto
    next
      show "2 * length (py_join '','' (map item_text kvs)) + 2 \<le> m" using JObj.prems(4) unfolding tx m by simp
    qed (use JObj.prems(1,2) Cons in auto)
    then show ?thesis unfolding tx by (simp add: m w e)
  qed (simp add: m)
next
  case JNull
  then show ?case by (cases n) auto
next
  case (JBool b)
  then show ?case by (cases n; cases b) auto
qed simp

lemma json_loads_text:
  assumes "no_float j" "wf_json j"
  shows "json_loads (json_text j) = Inr j"
proof -
  obtain c t where "json_text j = c # t" "\<not> is_ws c" using assms(1) by (auto elim: json_text_start)
  then have "skip_ws (json_text j) = json_text j" by simp
  moreover have "parse_value (Suc (2 * length (json_text j))) (json_text j @ []) = Inr (j, [])"
    using assms by (intro parse_value_text) (simp_all add: stop_def)
  ultimately show ?thesis by (simp add: json_loads_def Let_def skip_ws_def)
qed

text \<open>The same for bytes: an encoded value is plain ASCII.\<close>

lemma utf8_decode_char: "utf8_decode (utf8_char c @ bs) = map_sum id (\<lambda>s. c # s) (utf8_decode bs)"
proof -
  define n where "n = (of_char c :: nat)"
  have n: "n < 256" and c: "char_of n = c" by (simp_all add: n_def)
  have u: "k < 256 \<Longrightarrow> unat (word_of_nat k :: byte) = k" for k by (simp add: unat_of_nat)
  show ?thesis
  proof (cases "n < 128")
    case True
    then show ?thesis using u [OF n] by (simp add: utf8_char_def n_def [symmetric] c)
  next
    case False
    define a where "a = n div 64"
    define b where "b = n mod 64"
    have a: "a = 2 \<or> a = 3" using False n unfolding a_def by linarith
    have b: "b < 64" unfolding b_def by simp
    have "64 * a + b = n" by (simp add: a_def b_def)
    then have "char_of (64 * a + b) = c" using c by simp
    moreover have "utf8_char c = [word_of_nat (192 + a), word_of_nat (128 + b)]"
      using False by (simp add: utf8_char_def n_def [symmetric] a_def b_def)
    ultimately show ?thesis using a b u [of "192 + a"] u [of "128 + b"] by (auto simp del: of_nat_add)
  qed
qed

lemma utf8_decode_utf8: "utf8_decode (utf8 s) = Inr s"
  by (induction s) (simp_all add: utf8_def utf8_decode_char)

lemma json_loads_bytes_text:
  assumes "no_float j" "wf_json j" "utf8_detected (utf8 (json_text j))"
  shows "json_loads_bytes (utf8 (json_text j)) = Inr j"
  using assms by (simp add: json_loads_bytes_def utf8_decode_utf8 json_loads_text)

end
