(* ===== verification/Auth.thy ===== *)
theory Auth
  imports Json_Loads
begin

text \<open>
  The tokens of the HTTP API (\<^verbatim>\<open>auditor/api/auth.py\<close>) and the login route that issues them
  (\<^verbatim>\<open>auth_routes.py\<close>): URL-safe base64 without padding, HMAC-SHA256 over header and payload, expiry, the
  dependencies that extract the caller and check the role. The secret and the clock are arguments.
\<close>

section \<open>URL-safe base64\<close>

text \<open>The alphabet: capital letters, small letters, digits, \<^verbatim>\<open>-\<close> and \<^verbatim>\<open>_\<close>.\<close>

definition b64_char :: "nat \<Rightarrow> char" where
  "b64_char n =
     (if n < 26 then char_of (n + 65) else if n < 52 then char_of (n + 71) else if n < 62 then char_of (n - 4)
      else if n = 62 then CHR ''-'' else CHR ''_'')"

text \<open>\<^verbatim>\<open>base64.urlsafe_b64encode\<close>, three bytes to four characters, the last group padded.\<close>

fun urlsafe_b64encode :: "bytes \<Rightarrow> string" where
  "urlsafe_b64encode [] = []"
| "urlsafe_b64encode [a] = [b64_char (unat a div 4), b64_char (unat a mod 4 * 16), CHR ''='', CHR ''='']"
| "urlsafe_b64encode [a, b] =
     [b64_char (unat a div 4), b64_char (unat a mod 4 * 16 + unat b div 16), b64_char (unat b mod 16 * 4), CHR ''='']"
| "urlsafe_b64encode (a # b # c # bs) =
     [b64_char (unat a div 4), b64_char (unat a mod 4 * 16 + unat b div 16),
      b64_char (unat b mod 16 * 4 + unat c div 64), b64_char (unat c mod 64)] @ urlsafe_b64encode bs"

definition b64_encode :: "bytes \<Rightarrow> string" where
  "b64_encode data = rev (dropWhile (\<lambda>c. c = CHR ''='') (rev (urlsafe_b64encode data)))"

definition b64_value :: "char \<Rightarrow> nat option" where
  "b64_value c =
     (let n = of_char c :: nat in
      if 65 \<le> n \<and> n \<le> 90 then Some (n - 65)
      else if 97 \<le> n \<and> n \<le> 122 then Some (n - 71)
      else if 48 \<le> n \<and> n \<le> 57 then Some (n + 4)
      else if c = CHR ''+'' \<or> c = CHR ''-'' then Some 62
      else if c = CHR ''/'' \<or> c = CHR ''_'' then Some 63 else None)"

text \<open>\<^verbatim>\<open>binascii.a2b_base64\<close> in its lenient mode: characters outside the alphabet are skipped, and enough
  padding ends the input. The arguments are the position in the group, the pending bits and the
  padding seen.\<close>

fun a2b_base64 :: "nat \<Rightarrow> nat \<Rightarrow> nat \<Rightarrow> string \<Rightarrow> bytes option" where
  "a2b_base64 q l p [] = (if q = 0 then Some [] else None)"
| "a2b_base64 q l p (c # s) =
     (if c = CHR ''='' then
        (if 2 \<le> q \<and> 4 \<le> q + p + 1 then Some [] else a2b_base64 q l (if 2 \<le> q then p + 1 else p) s)
      else
        (case b64_value c of
           None \<Rightarrow> a2b_base64 q l p s
         | Some v \<Rightarrow>
             if q = 0 then a2b_base64 1 v 0 s
             else if q = 1 then map_option (Cons (word_of_nat (l * 4 + v div 16))) (a2b_base64 2 (v mod 16) 0 s)
             else if q = 2 then map_option (Cons (word_of_nat (l * 16 + v div 4))) (a2b_base64 3 (v mod 4) 0 s)
             else map_option (Cons (word_of_nat (l * 64 + v))) (a2b_base64 0 0 0 s)))"

definition b64_decode :: "string \<Rightarrow> bytes option" where
  "b64_decode s =
     (let padding = 4 - length s mod 4;
          data = (if padding \<noteq> 4 then s @ replicate padding (CHR ''='') else s)
      in if list_all (\<lambda>c. (of_char c :: nat) < 128) data then a2b_base64 0 0 0 data else None)"

lemma b64_char_code: "n < 64 \<Longrightarrow> (of_char (b64_char n) :: nat) =
    (if n < 26 then n + 65 else if n < 52 then n + 71 else if n < 62 then n - 4 else if n = 62 then 45 else 95)"
  by (simp add: b64_char_def)

lemma b64_value_char: "n < 64 \<Longrightarrow> b64_value (b64_char n) = Some n"
proof -
  assume n: "n < 64"
  consider "n < 26" | "26 \<le> n" "n < 52" | "52 \<le> n" "n < 62" | "n = 62" | "n = 63" using n by linarith
  then show ?thesis
    unfolding b64_value_def b64_char_code [OF n] Let_def by cases (auto simp: b64_char_def)
qed

lemma b64_char_plain:
  assumes "n < 64"
  shows "b64_char n \<noteq> CHR ''=''" "b64_char n \<noteq> CHR ''.''" "(of_char (b64_char n) :: nat) < 128"
proof -
  have "(of_char (b64_char n) :: nat) \<notin> {46, 61}" "(of_char (b64_char n) :: nat) < 128"
    using assms by (auto simp: b64_char_code)
  then show "b64_char n \<noteq> CHR ''=''" "b64_char n \<noteq> CHR ''.''" "(of_char (b64_char n) :: nat) < 128" by auto
qed

lemma byte_less [simp]: "unat (a :: byte) < 256"
  using unsigned_less [of a] by simp

lemma byte_bounds [simp]: "unat (a :: byte) div 4 < 64" "unat a div 16 < 16" "unat a div 64 < 4"
  using byte_less [of a] by (simp_all add: less_mult_imp_div_less)

lemma digit_two: "x < 16 \<Longrightarrow> a mod 4 * 16 + x < (64 :: nat)"
  using mod_less_divisor [of 4 a] by linarith

lemma digit_three: "x < 4 \<Longrightarrow> a mod 16 * 4 + x < (64 :: nat)"
  using mod_less_divisor [of 16 a] by linarith

lemma group_one: "x < 16 \<Longrightarrow> a div 4 * 4 + (a mod 4 * 16 + x) div 16 = (a :: nat)"
  by simp

lemma group_two: "x < 4 \<Longrightarrow> y < 16 \<Longrightarrow> b div 16 = y \<Longrightarrow> (z * 16 + y) mod 16 * 16 + (b mod 16 * 4 + x) div 4 = (b :: nat)"
  by auto

lemma group_three: "y < 4 \<Longrightarrow> c div 64 = y \<Longrightarrow> (z * 4 + y) mod 4 * 64 + c mod 64 = (c :: nat)"
  by auto

lemma b64_decode_padded: "a2b_base64 0 0 0 (urlsafe_b64encode bs) = Some bs"
proof (induction bs rule: urlsafe_b64encode.induct)
  case (2 a)
  have "unat a mod 4 * 16 < 64" using digit_two [of 0 "unat a"] by simp
  then show ?case using group_one [of 0 "unat a"] by (simp add: b64_value_char b64_char_plain)
next
  case (3 a b)
  have "unat b mod 16 * 4 < 64" using digit_three [of 0 "unat b"] by simp
  then show ?case
    using group_one [of "unat b div 16" "unat a"] group_two [of 0 "unat b div 16" "unat b" "unat a mod 4"]
      digit_two [of "unat b div 16" "unat a"]
    by (simp add: b64_value_char b64_char_plain del: mod_mult_self3 mod_mult_self4 div_mult_self3 div_mult_self4)
next
  case (4 a b c bs)
  show ?case
    using 4 group_one [of "unat b div 16" "unat a"] group_two [of "unat c div 64" "unat b div 16" "unat b" "unat a mod 4"]
      group_three [of "unat c div 64" "unat c" "unat b mod 16"]
      digit_two [of "unat b div 16" "unat a"] digit_three [of "unat c div 64" "unat b"]
    by (simp add: b64_value_char b64_char_plain del: mod_mult_self3 mod_mult_self4 div_mult_self3 div_mult_self4)
qed simp

definition b64_plain :: "char \<Rightarrow> bool" where
  "b64_plain c = (c \<noteq> CHR ''='' \<and> c \<noteq> CHR ''.'' \<and> (of_char c :: nat) < 128)"

lemma b64_plain_char [simp]: "n < 64 \<Longrightarrow> b64_plain (b64_char n)"
  by (simp add: b64_plain_def b64_char_plain)

lemma urlsafe_shape:
  "\<exists>e k. urlsafe_b64encode bs = e @ replicate k (CHR ''='') \<and> k \<le> 2 \<and> list_all b64_plain e \<and>
     4 dvd length (e @ replicate k (CHR ''=''))"
proof (induction bs rule: urlsafe_b64encode.induct)
  case 1
  show ?case by (rule exI [of _ "[]"], rule exI [of _ 0]) simp
next
  case (2 a)
  let ?e = "[b64_char (unat a div 4), b64_char (unat a mod 4 * 16)]"
  have "unat a mod 4 * 16 < 64" using digit_two [of 0 "unat a"] by simp
  moreover have "urlsafe_b64encode [a] = ?e @ replicate 2 (CHR ''='')" by (simp add: numeral_2_eq_2)
  ultimately show ?case by (intro exI [of _ ?e] exI [of _ 2]) simp
next
  case (3 a b)
  let ?e = "[b64_char (unat a div 4), b64_char (unat a mod 4 * 16 + unat b div 16), b64_char (unat b mod 16 * 4)]"
  have "unat b mod 16 * 4 < 64" using digit_three [of 0 "unat b"] by simp
  then have "list_all b64_plain ?e" using digit_two [of "unat b div 16" "unat a"] by simp
  moreover have "urlsafe_b64encode [a, b] = ?e @ replicate 1 (CHR ''='')" by simp
  moreover have "length (?e @ replicate 1 (CHR ''='')) = 4" by simp
  then have "4 dvd length (?e @ replicate 1 (CHR ''=''))" by (simp only: dvd_refl)
  moreover have "(1 :: nat) \<le> 2" by simp
  ultimately show ?case by blast
next
  case (4 a b c bs)
  let ?g = "[b64_char (unat a div 4), b64_char (unat a mod 4 * 16 + unat b div 16),
      b64_char (unat b mod 16 * 4 + unat c div 64), b64_char (unat c mod 64)]"
  obtain e k where e: "urlsafe_b64encode bs = e @ replicate k (CHR ''='')" "k \<le> 2" "list_all b64_plain e"
      "4 dvd length (e @ replicate k (CHR ''=''))" using 4 by blast
  have "list_all b64_plain ?g" using digit_two [of "unat b div 16" "unat a"] digit_three [of "unat c div 64" "unat b"] by simp
  moreover have "4 dvd length ((?g @ e) @ replicate k (CHR ''=''))"
  proof -
    have "length ((?g @ e) @ replicate k (CHR ''='')) = 4 + length (e @ replicate k (CHR ''=''))" by simp
    then show ?thesis using e(4) by (simp only: dvd_add_triv_left_iff)
  qed
  ultimately show ?case using e by (intro exI [of _ "?g @ e"] exI [of _ k]) simp
qed

lemma b64_encode_shape:
  obtains k where "urlsafe_b64encode bs = b64_encode bs @ replicate k (CHR ''='')" "k \<le> 2"
    "list_all b64_plain (b64_encode bs)" "4 dvd length (b64_encode bs) + k"
proof -
  obtain e k where e: "urlsafe_b64encode bs = e @ replicate k (CHR ''='')" "k \<le> 2" "list_all b64_plain e"
      "4 dvd length (e @ replicate k (CHR ''=''))" using urlsafe_shape by blast
  have "dropWhile (\<lambda>c. c = CHR ''='') (rev e) = rev e"
    using e(3) by (cases e rule: rev_cases) (simp_all add: b64_plain_def)
  moreover have "dropWhile (\<lambda>c. c = CHR ''='') (replicate k (CHR ''='') @ rev e) = dropWhile (\<lambda>c. c = CHR ''='') (rev e)"
    by (induction k) simp_all
  ultimately have "b64_encode bs = e" by (simp add: b64_encode_def e(1))
  with e show ?thesis by (intro that) simp_all
qed

lemma b64_roundtrip: "b64_decode (b64_encode bs) = Some bs"
proof -
  obtain k where k: "urlsafe_b64encode bs = b64_encode bs @ replicate k (CHR ''='')" "k \<le> 2"
      "list_all b64_plain (b64_encode bs)" "4 dvd length (b64_encode bs) + k" by (rule b64_encode_shape)
  let ?l = "length (b64_encode bs)"
  have "?l mod 4 = (if k = 0 then 0 else 4 - k)"
  proof -
    have "k = 0 \<or> k = 1 \<or> k = 2" using k(2) by linarith
    then show ?thesis using k(4) by (elim disjE) (simp_all, presburger+)
  qed
  then have pad: "4 - ?l mod 4 = (if k = 0 then 4 else k)" using k(2) by simp
  have "(if 4 - ?l mod 4 \<noteq> 4 then b64_encode bs @ replicate (4 - ?l mod 4) (CHR ''='') else b64_encode bs) =
      urlsafe_b64encode bs"
    unfolding pad k(1) using k(2) by simp
  moreover have "list_all (\<lambda>c. (of_char c :: nat) < 128) (b64_encode bs)"
    using k(3) by (rule list.pred_mono_strong) (simp add: b64_plain_def)
  then have "list_all (\<lambda>c. (of_char c :: nat) < 128) (urlsafe_b64encode bs)" unfolding k(1) by (induction k) simp_all
  ultimately show ?thesis by (simp add: b64_decode_def b64_decode_padded)
qed

section \<open>Tokens\<close>

text \<open>HMAC (RFC 2104) with SHA-256, whose block has 64 bytes.\<close>

definition hmac_sha256 :: "bytes \<Rightarrow> bytes \<Rightarrow> bytes" where
  "hmac_sha256 key msg =
     (let k = (if 64 < length key then sha256 key else key);
          block = k @ replicate (64 - length k) 0
      in sha256 (map (\<lambda>b. xor b 0x5C) block @ sha256 (map (\<lambda>b. xor b 0x36) block @ msg)))"

definition TTL_DEFAULT_S :: int where
  "TTL_DEFAULT_S = 28800"

definition HEADER_B64 :: string where
  "HEADER_B64 = b64_encode (utf8 (json_text (JObj [(''alg'', JStr ''HS256''), (''typ'', JStr ''JWT'')])))"

text \<open>What \<^verbatim>\<open>verify_token\<close> raises: its own error, or another exception of the expressions it evaluates. The last
  constructor is the limit of the model's strings (see \<open>Json_Loads\<close>).\<close>

datatype auth_failure = AuthError string | Escapes py_error | Beyond_model

definition sign :: "string \<Rightarrow> string \<Rightarrow> string" where
  "sign secret signing_input = b64_encode (hmac_sha256 (utf8 secret) (utf8 signing_input))"

definition token_payload :: "string \<Rightarrow> string \<Rightarrow> string \<Rightarrow> int \<Rightarrow> int \<Rightarrow> (string, json) pydict" where
  "token_payload user_id tenant_id role now ttl_s =
     [(''sub'', JStr user_id), (''tenant_id'', JStr tenant_id), (''role'', JStr role), (''iat'', JInt now),
      (''exp'', JInt (now + ttl_s))]"

definition issue_token :: "string \<Rightarrow> int \<Rightarrow> string \<Rightarrow> string \<Rightarrow> string \<Rightarrow> int \<Rightarrow> string" where
  "issue_token secret now user_id tenant_id role ttl_s =
     (let payload_b64 = b64_encode (utf8 (json_text (JObj (token_payload user_id tenant_id role now ttl_s))));
          signing_input = HEADER_B64 @ ''.'' @ payload_b64
      in signing_input @ ''.'' @ sign secret signing_input)"

fun py_split :: "char \<Rightarrow> string \<Rightarrow> string list" where
  "py_split c [] = [[]]"
| "py_split c (x # s) =
     (if x = c then [] # py_split c s else (x # hd (py_split c s)) # tl (py_split c s))"

text \<open>\<^verbatim>\<open>hmac.compare_digest\<close> on texts refuses characters outside ASCII.\<close>

definition compare_digest :: "string \<Rightarrow> string \<Rightarrow> py_error + bool" where
  "compare_digest a b =
     (if list_all (\<lambda>c. (of_char c :: nat) < 128) (a @ b) then Inr (a = b) else Inl TypeError)"

text \<open>\<^verbatim>\<open>now >= claims.get("exp", 0)\<close>.\<close>

definition expired :: "int \<Rightarrow> (string, json) pydict \<Rightarrow> py_error + bool" where
  "expired now claims =
     (case dict_get_or (JInt 0) claims ''exp'' of
        JInt i \<Rightarrow> Inr (i \<le> now)
      | JFloat x \<Rightarrow> Inr (x \<le> of_int now)
      | JBool b \<Rightarrow> Inr ((if b then 1 else 0) \<le> now)
      | _ \<Rightarrow> Inl TypeError)"

definition decode_claims :: "string \<Rightarrow> auth_failure + json" where
  "decode_claims payload_b64 =
     (case b64_decode payload_b64 of
        None \<Rightarrow> Inl (AuthError ''token payload is not valid JSON'')
      | Some bs \<Rightarrow>
          (case json_loads_bytes bs of
             Inr j \<Rightarrow> Inr j
           | Inl Unrepresentable \<Rightarrow> Inl Beyond_model
           | Inl _ \<Rightarrow> Inl (AuthError ''token payload is not valid JSON'')))"

definition verify_token :: "string \<Rightarrow> int \<Rightarrow> string \<Rightarrow> auth_failure + (string, json) pydict" where
  "verify_token secret now token =
     (case py_split (CHR ''.'') token of
        [header_b64, payload_b64, sig_b64] \<Rightarrow>
          (case compare_digest (sign secret (header_b64 @ ''.'' @ payload_b64)) sig_b64 of
             Inl e \<Rightarrow> Inl (Escapes e)
           | Inr False \<Rightarrow> Inl (AuthError ''token signature is invalid'')
           | Inr True \<Rightarrow>
               sum_bind (decode_claims payload_b64) (\<lambda>j.
                 (case j of
                    JObj claims \<Rightarrow>
                      (case expired now claims of
                         Inl e \<Rightarrow> Inl (Escapes e)
                       | Inr True \<Rightarrow> Inl (AuthError ''token has expired'')
                       | Inr False \<Rightarrow> Inr claims)
                  | _ \<Rightarrow> Inl (Escapes AttributeError))))
      | _ \<Rightarrow> Inl (AuthError ''malformed token: expected 3 dot-separated parts''))"

section \<open>Dependencies of the routes\<close>

definition extract_raw_token :: "string option \<Rightarrow> string option \<Rightarrow> string option" where
  "extract_raw_token bearer session =
     (case bearer of Some credentials \<Rightarrow> if credentials \<noteq> [] then Some credentials else session | None \<Rightarrow> session)"

text \<open>A refused request is its status; an exception that no handler catches is answered with 500.\<close>

definition get_current_user ::
  "string \<Rightarrow> int \<Rightarrow> string option \<Rightarrow> string option \<Rightarrow> nat + (string, json) pydict" where
  "get_current_user secret now bearer session =
     (case extract_raw_token bearer session of
        None \<Rightarrow> Inl 401
      | Some raw \<Rightarrow>
          if raw = [] then Inl 401
          else (case verify_token secret now raw of
                  Inr claims \<Rightarrow> Inr claims
                | Inl (AuthError _) \<Rightarrow> Inl 401
                | Inl _ \<Rightarrow> Inl 500))"

definition require_role :: "string list \<Rightarrow> (string, json) pydict \<Rightarrow> nat + (string, json) pydict" where
  "require_role roles claims = (if dict_get claims ''role'' \<in> (Some \<circ> JStr) ` set roles then Inr claims else Inl 403)"

text \<open>\<^verbatim>\<open>POST /auth/login\<close>; the password is not looked at.\<close>

record user_row =
  us_user_id :: uuid
  us_tenant_id :: uuid
  us_email :: string
  us_role :: string
  us_oidc_subject :: "string option"
  us_created_at :: timestamp

record login_settings =
  ls_jwt_secret :: string
  ls_jwt_ttl_seconds :: int
  ls_dev_login_enabled :: bool

record login_response =
  lr_access_token :: string
  lr_token_type :: string
  lr_role :: string
  lr_user_id :: uuid
  lr_tenant_id :: uuid

definition find_user_by_email :: "user_row list \<Rightarrow> string \<Rightarrow> user_row option" where
  "find_user_by_email users email = find (\<lambda>u. us_email u = email) users"

definition login :: "login_settings \<Rightarrow> user_row list \<Rightarrow> int \<Rightarrow> string \<Rightarrow> string \<Rightarrow> nat + login_response" where
  "login settings users now email password =
     (if \<not> ls_dev_login_enabled settings then Inl 403
      else
        (case find_user_by_email users email of
           None \<Rightarrow> Inl 404
         | Some u \<Rightarrow>
             Inr \<lparr> lr_access_token = issue_token (ls_jwt_secret settings) now (us_user_id u) (us_tenant_id u) (us_role u)
                     (ls_jwt_ttl_seconds settings),
                   lr_token_type = ''bearer'', lr_role = us_role u, lr_user_id = us_user_id u,
                   lr_tenant_id = us_tenant_id u \<rparr>))"

definition me :: "(string, json) pydict \<Rightarrow> py_error + json list" where
  "me claims =
     traverse (\<lambda>k. case dict_get claims k of None \<Rightarrow> Inl KeyError | Some j \<Rightarrow> Inr j)
       [''sub'', ''tenant_id'', ''role'', ''iat'', ''exp'']"

section \<open>Round trip\<close>

text \<open>The interface of the encoding the tokens rest on: it decodes, and never produces the separator.\<close>

locale text_codec =
  fixes enc :: "bytes \<Rightarrow> string" and dec :: "string \<Rightarrow> bytes option"
  assumes dec_enc: "dec (enc bs) = Some bs"
    and enc_no_dot: "CHR ''.'' \<notin> set (enc bs)"
begin

lemma split_last: "CHR ''.'' \<notin> set s \<Longrightarrow> py_split (CHR ''.'') s = [s]"
  by (induction s) auto

lemma split_first: "CHR ''.'' \<notin> set s \<Longrightarrow> py_split (CHR ''.'') (s @ ''.'' @ t) = s # py_split (CHR ''.'') t"
  by (induction s) auto

lemma split_parts: "py_split (CHR ''.'') (enc a @ ''.'' @ enc b @ ''.'' @ enc c) = [enc a, enc b, enc c]"
  using split_first [OF enc_no_dot, of a "enc b @ ''.'' @ enc c"] split_first [OF enc_no_dot, of b "enc c"]
    split_last [OF enc_no_dot, of c] by simp

lemma enc_inj: "enc a = enc b \<Longrightarrow> a = b"
  by (metis dec_enc option.inject)

end

lemma b64_encode_plain: "list_all b64_plain (b64_encode bs)"
  using b64_encode_shape [of bs] by blast

interpretation b64url: text_codec b64_encode b64_decode
proof
  show "b64_decode (b64_encode bs) = Some bs" for bs by (rule b64_roundtrip)
  show "CHR ''.'' \<notin> set (b64_encode bs)" for bs
  proof
    assume "CHR ''.'' \<in> set (b64_encode bs)"
    then have "b64_plain CHR ''.''" using b64_encode_plain [of bs] by (simp only: list_all_iff)
    then show False by (simp add: b64_plain_def)
  qed
qed

lemma b64_ascii: "list_all (\<lambda>c. (of_char c :: nat) < 128) (b64_encode bs)"
  using b64_encode_plain by (rule list.pred_mono_strong) (simp add: b64_plain_def)

lemma sign_ascii: "list_all (\<lambda>c. (of_char c :: nat) < 128) (sign secret s)"
  unfolding sign_def by (rule b64_ascii)

lemma sign_nonempty: "sign secret s \<noteq> []"
proof
  assume "sign secret s = []"
  then have "b64_decode [] = Some (hmac_sha256 (utf8 secret) (utf8 s))" using b64_roundtrip by (metis sign_def)
  then have "hmac_sha256 (utf8 secret) (utf8 s) = []" by (simp add: b64_decode_def)
  then show False using length_sha256 by (metis hmac_sha256_def list.size(3) zero_neq_numeral)
qed

lemma payload_decodes: "decode_claims (b64_encode (utf8 (json_text (JObj (token_payload u t r now ttl))))) =
    Inr (JObj (token_payload u t r now ttl))"
proof -
  have "no_float (JObj (token_payload u t r now ttl))" "wf_json (JObj (token_payload u t r now ttl))"
    by (simp_all add: token_payload_def)
  moreover have "utf8_detected (utf8 (json_text (JObj (token_payload u t r now ttl))))"
    by (simp add: token_payload_def utf8_detected_def json_string_def utf8_def utf8_char_def)
  ultimately have "json_loads_bytes (utf8 (json_text (JObj (token_payload u t r now ttl)))) =
      Inr (JObj (token_payload u t r now ttl))" by (rule json_loads_bytes_text)
  then show ?thesis unfolding decode_claims_def b64_roundtrip by (simp only: option.case sum.case)
qed

lemma issued_parts:
  "py_split (CHR ''.'') (issue_token secret now u t r ttl) =
     [HEADER_B64, b64_encode (utf8 (json_text (JObj (token_payload u t r now ttl)))),
      sign secret (HEADER_B64 @ ''.'' @ b64_encode (utf8 (json_text (JObj (token_payload u t r now ttl)))))]"
  unfolding issue_token_def Let_def sign_def HEADER_B64_def append_assoc by (rule b64url.split_parts)

lemma verify_issued:
  "verify_token secret later (issue_token secret now u t r ttl) =
     (if now + ttl \<le> later then Inl (AuthError ''token has expired'') else Inr (token_payload u t r now ttl))"
proof -
  have e: "expired later (token_payload u t r now ttl) = Inr (now + ttl \<le> later)"
    by (simp add: expired_def token_payload_def dict_get_or_def)
  have c: "compare_digest (sign secret s) (sign secret s) = Inr True" for s
    using sign_ascii [of secret s] by (simp add: compare_digest_def)
  show ?thesis
    unfolding verify_token_def issued_parts list.case c sum.case bool.case payload_decodes sum_bind_simps json.case e
    by (simp split: bool.split)
qed

text \<open>The signature accepted for a header and a payload is the one of the secret.\<close>

lemma verify_token_signed:
  assumes "verify_token secret now token = Inr claims"
  obtains h p where "py_split (CHR ''.'') token = [h, p, sign secret (h @ ''.'' @ p)]"
    "decode_claims p = Inr (JObj claims)" "expired now claims = Inr False"
  using assms
  by (auto simp: verify_token_def compare_digest_def sum_bind_Inr_iff
      split: list.splits sum.splits bool.splits if_splits json.splits)

lemma current_user_issued:
  "get_current_user secret later (Some (issue_token secret now u t r ttl)) cookie =
     (if now + ttl \<le> later then Inl 401 else Inr (token_payload u t r now ttl))"
proof -
  have "issue_token secret now u t r ttl \<noteq> []" by (simp add: issue_token_def Let_def)
  then show ?thesis by (simp add: get_current_user_def extract_raw_token_def verify_issued)
qed

lemma require_role_issued:
  "require_role roles (token_payload u t r now ttl) = (if r \<in> set roles then Inr (token_payload u t r now ttl) else Inl 403)"
  by (auto simp: require_role_def token_payload_def)

section \<open>Properties\<close>

text \<open>C33. A token issued for a user, a tenant and a role is accepted with exactly these claims until it
  expires and refused with status 401 from then on, whatever the texts are and whatever other cookie is
  sent. Conversely a token is accepted only if its third part is the signature, under the service's
  secret, of its own first two parts, if its second part decodes to the accepted claims, and if these have
  not expired; the same header and payload with any other signature are refused. A signature with a character outside
  ASCII is the exception to the documented status 401: the comparison raises and the request fails with
  status 500.\<close>

theorem token_roundtrip:
  "get_current_user secret later (Some (issue_token secret now u t r ttl)) cookie =
     (if now + ttl \<le> later then Inl 401 else Inr (token_payload u t r now ttl)) \<and>
   (verify_token secret later token = Inr claims \<longrightarrow>
      (\<exists>h p. py_split (CHR ''.'') token = [h, p, sign secret (h @ ''.'' @ p)] \<and>
         decode_claims p = Inr (JObj claims) \<and> expired later claims = Inr False)) \<and>
   (py_split (CHR ''.'') token = [h, p, sig] \<and> sig \<noteq> sign secret (h @ ''.'' @ p) \<longrightarrow>
      (\<exists>e. verify_token secret later token = Inl e)) \<and>
   (py_split (CHR ''.'') token = [h, p, sig] \<and> \<not> list_all (\<lambda>c. (of_char c :: nat) < 128) sig \<longrightarrow>
      get_current_user secret later (Some token) cookie = Inl 500)"
proof (intro conjI impI)
  show "\<exists>h p. py_split (CHR ''.'') token = [h, p, sign secret (h @ ''.'' @ p)] \<and>
      decode_claims p = Inr (JObj claims) \<and> expired later claims = Inr False"
    if "verify_token secret later token = Inr claims"
    using verify_token_signed [OF that] by metis
  show "\<exists>e. verify_token secret later token = Inl e"
    if "py_split (CHR ''.'') token = [h, p, sig] \<and> sig \<noteq> sign secret (h @ ''.'' @ p)"
    using that by (auto simp: verify_token_def compare_digest_def split: bool.split)
  show "get_current_user secret later (Some token) cookie = Inl 500"
    if "py_split (CHR ''.'') token = [h, p, sig] \<and> \<not> list_all (\<lambda>c. (of_char c :: nat) < 128) sig"
  proof -
    have "token \<noteq> []" using that by auto
    moreover have "verify_token secret later token = Inl (Escapes TypeError)"
      using that by (simp add: verify_token_def compare_digest_def)
    ultimately show ?thesis by (simp add: get_current_user_def extract_raw_token_def)
  qed
qed (rule current_user_issued)

theorem token_roundtrip_witness:
  "verify_token ''k'' 5 (issue_token ''k'' 0 ''u'' ''t'' ''admin'' 10) = Inr (token_payload ''u'' ''t'' ''admin'' 0 10) \<and>
   (\<exists>h p. py_split (CHR ''.'') (issue_token ''k'' 0 ''u'' ''t'' ''admin'' 10) = [h, p, sign ''k'' (h @ ''.'' @ p)] \<and>
      decode_claims p = Inr (JObj (token_payload ''u'' ''t'' ''admin'' 0 10)) \<and>
      expired 5 (token_payload ''u'' ''t'' ''admin'' 0 10) = Inr False) \<and>
   (\<exists>e. verify_token ''k'' 5 ''a.b.'' = Inl e) \<and>
   get_current_user ''k'' 5 (Some [CHR ''.'', CHR ''.'', CHR 0xE9]) None = Inl 500"
proof -
  have v: "verify_token ''k'' 5 (issue_token ''k'' 0 ''u'' ''t'' ''admin'' 10) = Inr (token_payload ''u'' ''t'' ''admin'' 0 10)"
    by (simp add: verify_issued)
  have "sign ''k'' (''a'' @ ''.'' @ ''b'') \<noteq> []" by (rule sign_nonempty)
  then show ?thesis
    using v token_roundtrip [of "''k''" 5 _ _ _ _ _ _ "issue_token ''k'' 0 ''u'' ''t'' ''admin'' 10"]
      token_roundtrip [of "''k''" 5 _ _ _ _ _ _ "''a.b.''" _ "''a''" "''b''" "[]"]
      token_roundtrip [of "''k''" 5 _ _ _ _ _ None "[CHR ''.'', CHR ''.'', CHR 0xE9]" _ "[]" "[]" "[CHR 0xE9]"] by simp
qed

end
