(* ===== verification/Py_Datetime.thy ===== *)
theory Py_Datetime
  imports Py_Regex
begin

text \<open>
  \<^verbatim>\<open>datetime.isoformat()\<close> and \<^verbatim>\<open>strftime("%Y-%m-%d")\<close> of a UTC time stamp, and \<^verbatim>\<open>date.isoformat()\<close>. A time stamp counts
  microseconds, a date counts days, both from the epoch; the calendar is the proleptic Gregorian one.
\<close>

text \<open>Year, month and day of a day number, counting years from March so that the leap day comes last.\<close>

definition civil_of_days :: "int \<Rightarrow> int \<times> int \<times> int" where
  "civil_of_days days =
     (let z = days + 719468;
          era = z div 146097;
          doe = z - era * 146097;
          yoe = (doe - doe div 1460 + doe div 36524 - doe div 146096) div 365;
          doy = doe - (365 * yoe + yoe div 4 - yoe div 100);
          mp = (5 * doy + 2) div 153;
          d = doy - (153 * mp + 2) div 5 + 1;
          m = (if mp < 10 then mp + 3 else mp - 9)
      in (yoe + era * 400 + (if m \<le> 2 then 1 else 0), m, d))"

definition pad_int :: "nat \<Rightarrow> int \<Rightarrow> string" where
  "pad_int n i = pad_zeros n (str_int i)"

definition date_isoformat :: "int \<Rightarrow> string" where
  "date_isoformat days =
     (let (y, m, d) = civil_of_days days in pad_int 4 y @ ''-'' @ pad_int 2 m @ ''-'' @ pad_int 2 d)"

definition MICROS_PER_DAY :: int where
  "MICROS_PER_DAY = 86400000000"

definition datetime_isoformat :: "timestamp \<Rightarrow> string" where
  "datetime_isoformat ts =
     (let us = ts mod MICROS_PER_DAY; s = us div 1000000; f = us mod 1000000
      in date_isoformat (ts div MICROS_PER_DAY) @ ''T'' @ pad_int 2 (s div 3600) @ '':'' @ pad_int 2 (s div 60 mod 60) @
         '':'' @ pad_int 2 (s mod 60) @ (if f = 0 then [] else ''.'' @ pad_int 6 f) @ ''+00:00'')"

text \<open>\<^verbatim>\<open>datetime.now(tz=UTC) - timedelta(...)\<close> for a number of hours or days given by its digits, as two modules read it from
  a token such as \<^verbatim>\<open>24h\<close>: \<^verbatim>\<open>int\<close> refuses more than 4300 digits, and a duration of more than 999999999 days as well as a result
  before the year 1 overflow.\<close>

datatype time_error = Time_ValueError | Time_OverflowError

definition us_per_hour :: int where
  "us_per_hour = 3600000000"

definition MIN_DATETIME :: timestamp where
  "MIN_DATETIME = - 62135596800000000"

definition ago :: "timestamp \<Rightarrow> int \<Rightarrow> time_error + timestamp" where
  "ago now us =
     (if 1000000000 * MICROS_PER_DAY \<le> us \<or> now - us < MIN_DATETIME then Inl Time_OverflowError else Inr (now - us))"

definition time_back :: "timestamp \<Rightarrow> string \<Rightarrow> int \<Rightarrow> time_error + timestamp" where
  "time_back now ds u = (if 4300 < length ds then Inl Time_ValueError else ago now (int (digits_val ds) * u))"

definition unit_micros :: "char \<Rightarrow> int" where
  "unit_micros u = (if u = CHR ''h'' then us_per_hour else MICROS_PER_DAY)"

lemma epoch_text: "datetime_isoformat 0 = ''1970-01-01T00:00:00+00:00''"
  by code_simp

text \<open>Leap days of a century year and of an ordinary leap year, and the day after a missing one.\<close>

lemma civil_samples:
  "civil_of_days 11016 = (2000, 2, 29)" "civil_of_days 19782 = (2024, 2, 29)" "civil_of_days 47541 = (2100, 3, 1)"
  "civil_of_days (- 1) = (1969, 12, 31)"
  by code_simp+

end
