(* ===== verification/Review.thy ===== *)
theory Review
  imports Auth Event_Store Audit_Log Py_Datetime
begin

text \<open>
  The review API: decisions on flags (\<^verbatim>\<open>auditor/api/hitl_routes.py\<close>), the incident routes
  (\<^verbatim>\<open>api/incidents_routes.py\<close>) and the row-level scoping by tenant they do or do not use
  (\<^verbatim>\<open>db/tenancy.py\<close> with the policies of migration 0002). A handler maps the state of the tables to a status
  or an answer and the new state.
\<close>

section \<open>State and environment\<close>

record hitl_decision_row =
  hd_hitl_id :: uuid
  hd_flag_id :: uuid
  hd_reviewer_id :: uuid
  hd_decision :: string
  hd_rationale :: "string option"
  hd_ts :: timestamp

record api_state =
  ap_db :: db
  ap_users :: "user_row list"
  ap_decisions :: "hitl_decision_row list"
  ap_comments :: "incident_comment list"
  ap_items :: "incident_action_item list"
  ap_log :: "audit_row list"

text \<open>Per request: the clock, as read first, when a flag is closed and when a log entry is inserted; a fresh identifier, the sequence number the log would give, whether the log can be
  written, the database driver's reading of a UUID argument, \<^verbatim>\<open>date.fromisoformat\<close>, and the exception an enforcer's
  action raises, if any.\<close>

record api_env =
  ev_now :: timestamp
  ev_resolved :: timestamp
  ev_logged :: timestamp
  ev_fresh :: uuid
  ev_seq :: int
  ev_log_up :: bool
  ev_uuid :: "string \<Rightarrow> uuid option"
  ev_date :: "string \<Rightarrow> int option"
  ev_enforce :: "string \<Rightarrow> uuid \<Rightarrow> string option"

type_synonym claims = "(string, json) pydict"

text \<open>\<^verbatim>\<open>claims.get(k, d)\<close> for the claims of a token, which are texts.\<close>

definition claim_or :: "string \<Rightarrow> claims \<Rightarrow> string \<Rightarrow> string" where
  "claim_or d claims k = (case dict_get claims k of None \<Rightarrow> d | Some j \<Rightarrow> json_str j)"

section \<open>Tenant scoping\<close>

text \<open>The policy on a table with a tenant column, for the setting \<open>guc\<close>: an empty setting hides nothing;
  \<open>None\<close> is a setting that is not a UUID.\<close>

definition tenant_policy :: "api_env \<Rightarrow> string \<Rightarrow> (uuid \<Rightarrow> bool) option" where
  "tenant_policy env guc = (if guc = [] then Some (\<lambda>_. True) else map_option (\<lambda>t u. u = t) (ev_uuid env guc))"

text \<open>\<^verbatim>\<open>async with tenant_scope(session, claims["tenant_id"])\<close> around a body that sees the rows the policy shows.\<close>

definition tenant_scope :: "api_env \<Rightarrow> claims \<Rightarrow> ((uuid \<Rightarrow> bool) \<Rightarrow> nat + 'a) \<Rightarrow> nat + 'a" where
  "tenant_scope env claims body =
     (case dict_get claims ''tenant_id'' of
        None \<Rightarrow> Inl 500
      | Some j \<Rightarrow> (case tenant_policy env (json_str j) of None \<Rightarrow> Inl 500 | Some visible \<Rightarrow> body visible))"

section \<open>Rows of flags and runs\<close>

definition by_newest :: "('a \<Rightarrow> timestamp) \<Rightarrow> 'a list \<Rightarrow> 'a list" where
  "by_newest ts xs = sort_key (\<lambda>x. - ts x) xs"

definition opt_match :: "string option \<Rightarrow> string \<Rightarrow> bool" where
  "opt_match f x = (case f of None \<Rightarrow> True | Some s \<Rightarrow> s = [] \<or> x = s)"

definition uuid_filter :: "api_env \<Rightarrow> string option \<Rightarrow> nat + uuid option" where
  "uuid_filter env f =
     (case f of
        None \<Rightarrow> Inr None
      | Some t \<Rightarrow> if t = [] then Inr None else (case ev_uuid env t of None \<Rightarrow> Inl 500 | Some u \<Rightarrow> Inr (Some u)))"

definition get_flags ::
  "api_env \<Rightarrow> (uuid \<Rightarrow> bool) \<Rightarrow> string option \<Rightarrow> string option \<Rightarrow> string option \<Rightarrow> db \<Rightarrow> nat + flag_row list" where
  "get_flags env visible status_filter severity_filter tenant_id_filter d =
     sum_bind (uuid_filter env tenant_id_filter) (\<lambda>tf.
       Inr (by_newest fr_created_at (filter (\<lambda>r. visible (fr_tenant_id r) \<and> opt_match status_filter (fr_status r) \<and>
          opt_match severity_filter (fr_severity r) \<and> (tf = None \<or> tf = Some (fr_tenant_id r))) (db_flags d))))"

text \<open>A single row by its key; an argument that is not a UUID is refused by the driver.\<close>

definition get_flag :: "api_env \<Rightarrow> (uuid \<Rightarrow> bool) \<Rightarrow> string \<Rightarrow> db \<Rightarrow> nat + flag_row option" where
  "get_flag env visible flag_id d =
     (case ev_uuid env flag_id of
        None \<Rightarrow> Inl 500
      | Some f \<Rightarrow> Inr (find (\<lambda>r. fr_flag_id r = f \<and> visible (fr_tenant_id r)) (db_flags d)))"

definition get_run :: "api_env \<Rightarrow> (uuid \<Rightarrow> bool) \<Rightarrow> string \<Rightarrow> db \<Rightarrow> nat + (uuid \<times> run_row) option" where
  "get_run env visible run_id d =
     (case ev_uuid env run_id of
        None \<Rightarrow> Inl 500
      | Some u \<Rightarrow> Inr (find (\<lambda>(k, r). k = u \<and> visible (rr_tenant_id r)) (db_runs d)))"

definition get_run_events ::
  "api_env \<Rightarrow> (uuid \<Rightarrow> bool) \<Rightarrow> string \<Rightarrow> timestamp option \<Rightarrow> nat \<Rightarrow> db \<Rightarrow> nat + event_row list" where
  "get_run_events env visible run_id since limit d =
     (case ev_uuid env run_id of
        None \<Rightarrow> Inl 500
      | Some u \<Rightarrow>
          Inr (take limit (sort_key er_ts (filter (\<lambda>e. er_run_id e = u \<and> visible (er_tenant_id e) \<and>
            (case since of None \<Rightarrow> True | Some t \<Rightarrow> t < er_ts e)) (db_events d)))))"

section \<open>Rendering of rows\<close>

definition iso_or_null :: "timestamp option \<Rightarrow> json" where
  "iso_or_null t = (case t of None \<Rightarrow> JNull | Some ts \<Rightarrow> JStr (datetime_isoformat ts))"

definition flag_to_dict :: "flag_row \<Rightarrow> (string, json) pydict" where
  "flag_to_dict r =
     [(''flag_id'', JStr (fr_flag_id r)), (''run_id'', JStr (fr_run_id r)), (''tenant_id'', JStr (fr_tenant_id r)),
      (''severity'', JStr (fr_severity r)), (''status'', JStr (fr_status r)),
      (''asi_categories'', JList (map JStr (fr_asi_categories r))), (''created_at'', iso_or_null (Some (fr_created_at r))),
      (''resolved_at'', iso_or_null (fr_resolved_at r)), (''resolution'', opt_json (fr_resolution r))]"

definition event_row_to_dict :: "event_row \<Rightarrow> (string, json) pydict" where
  "event_row_to_dict e =
     [(''event_id'', JStr (er_event_id e)), (''run_id'', JStr (er_run_id e)), (''tenant_id'', JStr (er_tenant_id e)),
      (''event_type'', JStr (er_event_type e)), (''channel'', JStr (er_channel e)), (''ts'', iso_or_null (Some (er_ts e))),
      (''payload'', JObj (er_payload e))]"

definition decision_to_dict :: "hitl_decision_row \<Rightarrow> (string, json) pydict" where
  "decision_to_dict d =
     [(''hitl_id'', JStr (hd_hitl_id d)), (''flag_id'', JStr (hd_flag_id d)), (''reviewer_id'', JStr (hd_reviewer_id d)),
      (''decision'', JStr (hd_decision d)), (''rationale'', opt_json (hd_rationale d)), (''ts'', iso_or_null (Some (hd_ts d)))]"

definition incident_to_dict :: "incident \<Rightarrow> (string, json) pydict" where
  "incident_to_dict i =
     [(''incident_id'', JStr (ic_incident_id i)), (''tenant_id'', JStr (ic_tenant_id i)),
      (''primary_flag_id'', JStr (ic_primary_flag_id i)), (''severity'', JStr (ic_severity i)), (''state'', JStr (ic_state i)),
      (''assignee_id'', opt_json (ic_assignee_id i)), (''opened_at'', iso_or_null (Some (ic_opened_at i))),
      (''triaged_at'', iso_or_null (ic_triaged_at i)), (''contained_at'', iso_or_null (ic_contained_at i)),
      (''resolved_at'', iso_or_null (ic_resolved_at i)), (''post_mortem_uri'', opt_json (ic_post_mortem_uri i)),
      (''dismissal_rationale'', opt_json (ic_dismissal_rationale i))]"

definition comment_to_dict :: "incident_comment \<Rightarrow> (string, json) pydict" where
  "comment_to_dict c =
     [(''comment_id'', JStr (cm_comment_id c)), (''incident_id'', JStr (cm_incident_id c)), (''author_id'', JStr (cm_author_id c)),
      (''body'', JStr (cm_body c)), (''ts'', iso_or_null (Some (cm_ts c)))]"

definition action_item_to_dict :: "incident_action_item \<Rightarrow> (string, json) pydict" where
  "action_item_to_dict a =
     [(''action_id'', JStr (ai_action_id a)), (''incident_id'', JStr (ai_incident_id a)), (''owner_id'', opt_json (ai_owner_id a)),
      (''description'', JStr (ai_description a)), (''status'', JStr (ai_status a)),
      (''due_date'', (case ai_due_date a of None \<Rightarrow> JNull | Some d \<Rightarrow> JStr (date_isoformat d))),
      (''created_at'', iso_or_null (Some (ai_created_at a))), (''completed_at'', iso_or_null (ai_completed_at a))]"

section \<open>Read routes of flags and runs\<close>

definition list_flags ::
  "api_env \<Rightarrow> claims \<Rightarrow> string option \<Rightarrow> string option \<Rightarrow> string option \<Rightarrow> db \<Rightarrow> nat + (string, json) pydict list" where
  "list_flags env claims status severity tenant_id d =
     map_sum id (map flag_to_dict) (tenant_scope env claims (\<lambda>visible. get_flags env visible status severity tenant_id d))"

definition or_404 :: "'a option \<Rightarrow> nat + 'a" where
  "or_404 x = (case x of None \<Rightarrow> Inl 404 | Some r \<Rightarrow> Inr r)"

definition get_flag_detail :: "api_env \<Rightarrow> claims \<Rightarrow> string \<Rightarrow> db \<Rightarrow> nat + (string, json) pydict" where
  "get_flag_detail env claims flag_id d =
     tenant_scope env claims (\<lambda>visible.
       sum_bind (sum_bind (get_flag env visible flag_id d) or_404) (\<lambda>flag.
       sum_bind (get_run_events env visible (fr_run_id flag) None 500 d) (\<lambda>events.
         Inr [(''flag'', JObj (flag_to_dict flag)), (''trace'', JList (map (\<lambda>e. JObj (event_row_to_dict e)) events))])))"

definition get_run_route :: "api_env \<Rightarrow> claims \<Rightarrow> string \<Rightarrow> db \<Rightarrow> nat + uuid \<times> run_row" where
  "get_run_route env claims run_id d =
     tenant_scope env claims (\<lambda>visible. sum_bind (get_run env visible run_id d) or_404)"

definition get_run_events_route ::
  "api_env \<Rightarrow> claims \<Rightarrow> string \<Rightarrow> timestamp option \<Rightarrow> int \<Rightarrow> db \<Rightarrow> nat + (string, json) pydict list" where
  "get_run_events_route env claims run_id since limit d =
     (if limit < 1 \<or> 10000 < limit then Inl 422
      else map_sum id (map event_row_to_dict) (tenant_scope env claims (\<lambda>visible.
        sum_bind (sum_bind (get_run env visible run_id d) or_404) (\<lambda>_.
        get_run_events env visible run_id since (nat limit) d))))"

section \<open>Decisions on flags\<close>

definition ALLOWED_DECISIONS :: "string list" where
  "ALLOWED_DECISIONS = [''continue'', ''abort'', ''quarantine'']"

definition RESOLUTION_FOR :: "(string, string) pydict" where
  "RESOLUTION_FOR = [(''continue'', ''allowed''), (''abort'', ''aborted''), (''quarantine'', ''quarantined'')]"

definition ENFORCE_ACTION :: "(string, string) pydict" where
  "ENFORCE_ACTION = [(''continue'', ''resume''), (''abort'', ''abort''), (''quarantine'', ''abort'')]"

text \<open>The row is refused by a key constraint or when the reviewer is not a UUID of a user.\<close>

definition insert_hitl_decision ::
  "api_env \<Rightarrow> uuid \<Rightarrow> string \<Rightarrow> string \<Rightarrow> string option \<Rightarrow> api_state \<Rightarrow> nat + hitl_decision_row" where
  "insert_hitl_decision env flag_id reviewer_id decision rationale st =
     (case ev_uuid env reviewer_id of
        None \<Rightarrow> Inl 500
      | Some reviewer \<Rightarrow>
          if reviewer \<notin> us_user_id ` set (ap_users st) \<or> ev_fresh env \<in> hd_hitl_id ` set (ap_decisions st)
          then Inl 500
          else Inr \<lparr> hd_hitl_id = ev_fresh env, hd_flag_id = flag_id, hd_reviewer_id = reviewer, hd_decision = decision,
                     hd_rationale = rationale, hd_ts = ev_now env \<rparr>)"

definition resolve_flag :: "timestamp \<Rightarrow> string \<Rightarrow> flag_row \<Rightarrow> flag_row" where
  "resolve_flag now decision r =
     r\<lparr> fr_status := ''resolved'', fr_resolution := Some (dict_get_or decision RESOLUTION_FOR decision),
        fr_resolved_at := Some now \<rparr>"

text \<open>A best-effort entry in the audit log: a malformed tenant or a log that cannot be written leaves it as it is.\<close>

definition append_best_effort ::
  "api_env \<Rightarrow> string \<Rightarrow> string \<Rightarrow> string \<Rightarrow> string \<Rightarrow> string \<Rightarrow> (string, json) pydict \<Rightarrow> audit_row list \<Rightarrow> audit_row list" where
  "append_best_effort env tenant actor action target_type target payload rows =
     (case parse_uuid tenant of
        None \<Rightarrow> rows
      | Some t \<Rightarrow>
          if ev_log_up env
          then (case append_entry (ev_seq env) (ev_logged env) t ''user'' action (parse_uuid actor) (Some target_type)
                       (parse_uuid target) (Some payload) None rows of
                  Inl _ \<Rightarrow> rows | Inr (_, rows') \<Rightarrow> rows')
          else rows)"

text \<open>The action, and the class of the exception it raised.\<close>

definition apply_enforcement :: "api_env \<Rightarrow> string \<Rightarrow> uuid \<Rightarrow> string \<times> string option" where
  "apply_enforcement env decision run_id =
     (case dict_get ENFORCE_ACTION decision of
        None \<Rightarrow> (''none'', None)
      | Some action \<Rightarrow> (action, ev_enforce env action run_id))"

record decision_response =
  dr_row :: hitl_decision_row
  dr_enforcement :: "string \<times> string option"

definition enforcement_to_dict :: "string \<times> string option \<Rightarrow> (string, json) pydict" where
  "enforcement_to_dict e =
     (case e of (action, err) \<Rightarrow>
        if action = ''none'' then [(''action'', JStr action)]
        else (case err of
                None \<Rightarrow> [(''action'', JStr action), (''ok'', JBool True)]
              | Some x \<Rightarrow> [(''action'', JStr action), (''ok'', JBool False), (''error'', JStr x)]))"

definition response_to_dict :: "decision_response \<Rightarrow> (string, json) pydict" where
  "response_to_dict r = dict_set ''enforcement'' (JObj (enforcement_to_dict (dr_enforcement r))) (decision_to_dict (dr_row r))"

text \<open>The part of the handler after the flag is found.\<close>

definition decide_flag ::
  "api_env \<Rightarrow> claims \<Rightarrow> string \<Rightarrow> string \<Rightarrow> string option \<Rightarrow> api_state \<Rightarrow> flag_row \<Rightarrow> nat + decision_response \<times> api_state" where
  "decide_flag env claims flag_id decision rationale st flag =
     (let reviewer_id = claim_or ''unknown'' claims ''sub'';
          tenant_id_str = claim_or (fr_tenant_id flag) claims ''tenant_id''
      in sum_bind (insert_hitl_decision env (fr_flag_id flag) reviewer_id decision rationale st) (\<lambda>row.
         (let d = ap_db st;
              d' = d\<lparr> db_flags := map (\<lambda>r. if fr_flag_id r = fr_flag_id flag then resolve_flag (ev_resolved env) decision r else r)
                                     (db_flags d) \<rparr>
          in Inr (\<lparr> dr_row = row, dr_enforcement = apply_enforcement env decision (fr_run_id flag) \<rparr>,
                  st\<lparr> ap_db := d', ap_decisions := ap_decisions st @ [row],
                      ap_log := append_best_effort env tenant_id_str reviewer_id ''hitl_decision'' ''flag'' flag_id
                        [(''decision'', JStr decision), (''rationale'', opt_json rationale), (''flag_id'', JStr flag_id)]
                        (ap_log st) \<rparr>))))"

definition submit_decision ::
  "api_env \<Rightarrow> claims \<Rightarrow> string \<Rightarrow> string \<Rightarrow> string option \<Rightarrow> api_state \<Rightarrow> nat + decision_response \<times> api_state" where
  "submit_decision env claims flag_id decision rationale st =
     tenant_scope env claims (\<lambda>visible.
       sum_bind (sum_bind (get_flag env visible flag_id (ap_db st)) or_404) (decide_flag env claims flag_id decision rationale st))"

text \<open>The whole request: caller, role, body, handler.\<close>

record credentials =
  cr_secret :: string
  cr_time :: int
  cr_bearer :: "string option"
  cr_cookie :: "string option"

definition REVIEW_ROLES :: "string list" where
  "REVIEW_ROLES = [''admin'', ''reviewer'']"

definition authorised :: "credentials \<Rightarrow> string list \<Rightarrow> nat + claims" where
  "authorised c roles = sum_bind (get_current_user (cr_secret c) (cr_time c) (cr_bearer c) (cr_cookie c)) (require_role roles)"

definition post_decision ::
  "api_env \<Rightarrow> credentials \<Rightarrow> string \<Rightarrow> string \<Rightarrow> string option \<Rightarrow> api_state \<Rightarrow> nat + decision_response \<times> api_state" where
  "post_decision env c flag_id decision rationale st =
     sum_bind (authorised c REVIEW_ROLES) (\<lambda>claims.
       if decision \<notin> set ALLOWED_DECISIONS then Inl 422
       else submit_decision env claims flag_id decision rationale st)"

section \<open>Incidents\<close>

definition list_incidents :: "api_env \<Rightarrow> claims \<Rightarrow> string option \<Rightarrow> string option \<Rightarrow> db \<Rightarrow> nat + (string, json) pydict list" where
  "list_incidents env claims state severity d =
     (case dict_get claims ''tenant_id'' of
        None \<Rightarrow> Inl 500
      | Some j \<Rightarrow>
          sum_bind (uuid_filter env (Some (json_str j))) (\<lambda>tf.
            Inr (map incident_to_dict (by_newest ic_opened_at (filter (\<lambda>i. opt_match state (ic_state i) \<and> opt_match severity (ic_severity i) \<and>
              (tf = None \<or> tf = Some (ic_tenant_id i))) (db_incidents d))))))"

definition get_incident_row :: "api_env \<Rightarrow> string \<Rightarrow> db \<Rightarrow> nat + incident option" where
  "get_incident_row env incident_id d =
     (case ev_uuid env incident_id of
        None \<Rightarrow> Inl 500
      | Some i \<Rightarrow> Inr (find (\<lambda>r. ic_incident_id r = i) (db_incidents d)))"

definition get_comments :: "uuid \<Rightarrow> api_state \<Rightarrow> incident_comment list" where
  "get_comments i st = sort_key cm_ts (filter (\<lambda>c. cm_incident_id c = i) (ap_comments st))"

definition get_action_items :: "uuid \<Rightarrow> api_state \<Rightarrow> incident_action_item list" where
  "get_action_items i st = sort_key ai_created_at (filter (\<lambda>a. ai_incident_id a = i) (ap_items st))"

definition get_recent_incidents :: "uuid \<Rightarrow> uuid \<Rightarrow> db \<Rightarrow> incident list" where
  "get_recent_incidents tenant exclude d =
     take 100 (by_newest ic_opened_at (filter (\<lambda>i. ic_tenant_id i = tenant \<and> ic_incident_id i \<noteq> exclude) (db_incidents d)))"

record incident_detail =
  id_incident :: incident
  id_comments :: "incident_comment list"
  id_action_items :: "incident_action_item list"
  id_similar :: "(incident \<times> nat) list"

definition incident_detail_to_dict :: "incident_detail \<Rightarrow> (string, json) pydict" where
  "incident_detail_to_dict x =
     [(''incident'', JObj (incident_to_dict (id_incident x))),
      (''comments'', JList (map (\<lambda>c. JObj (comment_to_dict c)) (id_comments x))),
      (''action_items'', JList (map (\<lambda>a. JObj (action_item_to_dict a)) (id_action_items x))),
      (''similar'', JList (map (\<lambda>(i, score). JObj [(''incident'', JObj (incident_to_dict i)), (''score'', JInt (int score))])
         (id_similar x)))]"

definition get_incident :: "api_env \<Rightarrow> claims \<Rightarrow> string \<Rightarrow> api_state \<Rightarrow> nat + incident_detail" where
  "get_incident env claims incident_id st =
     sum_bind (sum_bind (get_incident_row env incident_id (ap_db st)) or_404) (\<lambda>inc.
       (let i = ic_incident_id inc in
        Inr \<lparr> id_incident = inc, id_comments = get_comments i st, id_action_items = get_action_items i st,
              id_similar = take 10 (find_similar inc (get_recent_incidents (ic_tenant_id inc) i (ap_db st))) \<rparr>))"

definition transition_incident ::
  "api_env \<Rightarrow> claims \<Rightarrow> string \<Rightarrow> string \<Rightarrow> string option \<Rightarrow> string option \<Rightarrow> api_state \<Rightarrow> nat + incident \<times> api_state" where
  "transition_incident env claims incident_id target rationale post_mortem_uri st =
     sum_bind (sum_bind (get_incident_row env incident_id (ap_db st)) or_404) (\<lambda>inc.
       (let actor_role = claim_or [] claims ''role'';
            actor_id = claim_or [] claims ''sub'';
            tenant_id_str = claim_or (ic_tenant_id inc) claims ''tenant_id''
        in (case transition (ev_now env) inc target actor_role post_mortem_uri rationale of
              Inl _ \<Rightarrow> Inl 422
            | Inr inc' \<Rightarrow>
                (let d = ap_db st;
                     d' = d\<lparr> db_incidents := map (\<lambda>r. if ic_incident_id r = ic_incident_id inc then inc' else r) (db_incidents d) \<rparr>
                 in Inr (inc', st\<lparr> ap_db := d',
                      ap_log := append_best_effort env tenant_id_str actor_id ''incident_transition'' ''incident'' incident_id
                        [(''target_state'', JStr target), (''rationale'', opt_json rationale),
                         (''post_mortem_uri'', opt_json post_mortem_uri)] (ap_log st) \<rparr>)))))"

definition add_comment :: "api_env \<Rightarrow> claims \<Rightarrow> string \<Rightarrow> string \<Rightarrow> api_state \<Rightarrow> nat + incident_comment \<times> api_state" where
  "add_comment env claims incident_id body st =
     sum_bind (sum_bind (get_incident_row env incident_id (ap_db st)) or_404) (\<lambda>inc.
       (case ev_uuid env (claim_or [] claims ''sub'') of
          None \<Rightarrow> Inl 500
        | Some author \<Rightarrow>
            if author \<notin> us_user_id ` set (ap_users st) \<or> ev_fresh env \<in> cm_comment_id ` set (ap_comments st) then Inl 500
            else (let c = build_comment (ev_fresh env) (ev_now env) (ic_incident_id inc) author body
                  in Inr (c, st\<lparr> ap_comments := ap_comments st @ [c] \<rparr>))))"

definition add_action_item ::
  "api_env \<Rightarrow> claims \<Rightarrow> string \<Rightarrow> string \<Rightarrow> string option \<Rightarrow> string option \<Rightarrow> api_state \<Rightarrow> nat + incident_action_item \<times> api_state" where
  "add_action_item env claims incident_id description owner_id due_date st =
     sum_bind (sum_bind (get_incident_row env incident_id (ap_db st)) or_404) (\<lambda>inc.
       sum_bind (case due_date of
                   None \<Rightarrow> Inr None
                 | Some s \<Rightarrow> if s = [] then Inr None
                            else (case ev_date env s of None \<Rightarrow> Inl 422 | Some x \<Rightarrow> Inr (Some x))) (\<lambda>due.
       (let actor_id = claim_or [] claims ''sub'';
            owner = (case owner_id of Some w \<Rightarrow> if w \<noteq> [] then w else actor_id | None \<Rightarrow> actor_id)
        in sum_bind (uuid_filter env (Some owner)) (\<lambda>owner_uuid.
             if (case owner_uuid of None \<Rightarrow> False | Some w \<Rightarrow> w \<notin> us_user_id ` set (ap_users st)) \<or>
                ev_fresh env \<in> ai_action_id ` set (ap_items st) then Inl 500
             else (let a = build_action_item (ev_fresh env) (ev_now env) (ic_incident_id inc) owner_uuid description due
                   in Inr (a, st\<lparr> ap_items := ap_items st @ [a] \<rparr>))))))"

definition post_transition ::
  "api_env \<Rightarrow> credentials \<Rightarrow> string \<Rightarrow> string \<Rightarrow> string option \<Rightarrow> string option \<Rightarrow> api_state \<Rightarrow> nat + incident \<times> api_state" where
  "post_transition env c incident_id target rationale post_mortem_uri st =
     sum_bind (authorised c REVIEW_ROLES) (\<lambda>claims. transition_incident env claims incident_id target rationale post_mortem_uri st)"

definition post_comment :: "api_env \<Rightarrow> credentials \<Rightarrow> string \<Rightarrow> string \<Rightarrow> api_state \<Rightarrow> nat + incident_comment \<times> api_state" where
  "post_comment env c incident_id body st =
     sum_bind (authorised c REVIEW_ROLES) (\<lambda>claims. add_comment env claims incident_id body st)"

definition post_action_item ::
  "api_env \<Rightarrow> credentials \<Rightarrow> string \<Rightarrow> string \<Rightarrow> string option \<Rightarrow> string option \<Rightarrow> api_state \<Rightarrow>
   nat + incident_action_item \<times> api_state" where
  "post_action_item env c incident_id description owner_id due_date st =
     sum_bind (authorised c REVIEW_ROLES) (\<lambda>claims. add_action_item env claims incident_id description owner_id due_date st)"

section \<open>What a successful decision did\<close>

lemma tenant_scope_Inr:
  assumes "tenant_scope env claims body = Inr x"
  obtains j visible where "dict_get claims ''tenant_id'' = Some j" "tenant_policy env (json_str j) = Some visible"
    "body visible = Inr x"
  using assms by (auto simp: tenant_scope_def split: option.splits)

lemma or_404_Inr: "sum_bind r or_404 = Inr x \<longleftrightarrow> r = Inr (Some x)"
  by (auto simp: sum_bind_Inr_iff or_404_def split: option.splits)

lemma get_flag_Inr:
  assumes "get_flag env visible fid d = Inr (Some flag)"
  shows "flag \<in> set (db_flags d)" "ev_uuid env fid = Some (fr_flag_id flag)" "visible (fr_tenant_id flag)"
  using assms by (auto simp: get_flag_def find_Some_iff split: option.splits)

lemma submit_decision_ok:
  assumes "submit_decision env claims fid decision rationale st = Inr (resp, st')"
  obtains j visible flag row where
    "dict_get claims ''tenant_id'' = Some j" "tenant_policy env (json_str j) = Some visible"
    "flag \<in> set (db_flags (ap_db st))" "ev_uuid env fid = Some (fr_flag_id flag)" "visible (fr_tenant_id flag)"
    "insert_hitl_decision env (fr_flag_id flag) (claim_or ''unknown'' claims ''sub'') decision rationale st = Inr row"
    "resp = \<lparr> dr_row = row, dr_enforcement = apply_enforcement env decision (fr_run_id flag) \<rparr>"
    "ap_decisions st' = ap_decisions st @ [row]" "ap_users st' = ap_users st"
    "db_flags (ap_db st') = map (\<lambda>r. if fr_flag_id r = fr_flag_id flag then resolve_flag (ev_resolved env) decision r else r)
       (db_flags (ap_db st))"
    "ap_log st' = append_best_effort env (json_str j) (claim_or ''unknown'' claims ''sub'') ''hitl_decision'' ''flag'' fid
       [(''decision'', JStr decision), (''rationale'', opt_json rationale), (''flag_id'', JStr fid)] (ap_log st)"
proof -
  obtain j visible where j: "dict_get claims ''tenant_id'' = Some j" "tenant_policy env (json_str j) = Some visible"
    and "sum_bind (sum_bind (get_flag env visible fid (ap_db st)) or_404) (decide_flag env claims fid decision rationale st) =
      Inr (resp, st')"
    using assms unfolding submit_decision_def by (rule tenant_scope_Inr)
  then obtain flag where flag: "get_flag env visible fid (ap_db st) = Inr (Some flag)"
    and dec: "decide_flag env claims fid decision rationale st flag = Inr (resp, st')"
    unfolding sum_bind_Inr_iff [of "sum_bind _ _"] or_404_Inr by blast
  obtain row where row: "insert_hitl_decision env (fr_flag_id flag) (claim_or ''unknown'' claims ''sub'') decision rationale st = Inr row"
    using dec unfolding decide_flag_def Let_def sum_bind_Inr_iff by blast
  have t: "claim_or (fr_tenant_id flag) claims ''tenant_id'' = json_str j" using j by (simp add: claim_or_def)
  show ?thesis
    by (rule that [OF j get_flag_Inr [OF flag] row]) (use dec row t in \<open>auto simp: decide_flag_def Let_def\<close>)
qed

lemma insert_hitl_decision_Inr:
  assumes "insert_hitl_decision env f reviewer decision rationale st = Inr row"
  shows "hd_flag_id row = f" "hd_decision row = decision" "hd_ts row = ev_now env"
    "hd_reviewer_id row \<in> us_user_id ` set (ap_users st)" "hd_hitl_id row \<notin> hd_hitl_id ` set (ap_decisions st)"
  using assms by (auto simp: insert_hitl_decision_def split: option.splits if_splits)

section \<open>Histories of requests\<close>

text \<open>A decision made: its row, and the clock when the flag was resolved, which the handler reads after the row
  was inserted. A flag after the decisions made on it: the last one settles it.\<close>

type_synonym decided = "hitl_decision_row \<times> timestamp"

definition settle :: "decided list \<Rightarrow> flag_row \<Rightarrow> flag_row" where
  "settle ds r =
     (case rev (filter (\<lambda>d. hd_flag_id (fst d) = fr_flag_id r) ds) of
        [] \<Rightarrow> r
      | d # _ \<Rightarrow> resolve_flag (snd d) (hd_decision (fst d)) r)"

lemma settle_id [simp]: "fr_flag_id (settle ds r) = fr_flag_id r" "fr_tenant_id (settle ds r) = fr_tenant_id r"
  by (simp_all add: settle_def resolve_flag_def split: list.split)

lemma settle_snoc:
  "settle (ds @ [d]) r =
     (if fr_flag_id r = hd_flag_id (fst d) then resolve_flag (snd d) (hd_decision (fst d)) (settle ds r) else settle ds r)"
  by (auto simp: settle_def resolve_flag_def split: list.split)

inductive reviewed :: "api_state \<Rightarrow> decided list \<Rightarrow> api_state \<Rightarrow> bool" for st0 where
  start: "reviewed st0 [] st0"
| decision: "reviewed st0 ds st \<Longrightarrow> \<forall>r \<in> set (ap_log st). al_seq r < ev_seq env \<Longrightarrow>
    post_decision env c fid decision rationale st = Inr (resp, st') \<Longrightarrow> reviewed st0 (ds @ [(dr_row resp, ev_resolved env)]) st'"
| transition: "reviewed st0 ds st \<Longrightarrow> \<forall>r \<in> set (ap_log st). al_seq r < ev_seq env \<Longrightarrow>
    post_transition env c iid target rationale uri st = Inr (inc, st') \<Longrightarrow> reviewed st0 ds st'"
| comment: "reviewed st0 ds st \<Longrightarrow> post_comment env c iid body st = Inr (cm, st') \<Longrightarrow> reviewed st0 ds st'"
| action_item: "reviewed st0 ds st \<Longrightarrow> post_action_item env c iid descr who due st = Inr (it, st') \<Longrightarrow> reviewed st0 ds st'"

lemma append_best_effort_written:
  assumes "written rows" "\<forall>r \<in> set rows. al_seq r < ev_seq env"
  shows "written (append_best_effort env tenant actor action ttype target payload rows)"
proof -
  have "written rows'" if "append_entry (ev_seq env) now t atype action a tt tg p b rows = Inr (h, rows')" for now t atype a tt tg p b h rows'
  proof (rule written.append [OF assms(1) _ that])
    show "\<forall>r \<in> set (tenant_rows t rows). al_seq r < ev_seq env" using assms(2) by (simp add: tenant_rows_def)
  qed
  then show ?thesis
    using assms(1) by (auto simp: append_best_effort_def split: option.split sum.split prod.split)
qed

text \<open>What the incident routes leave alone.\<close>

definition same_review :: "api_state \<Rightarrow> api_state \<Rightarrow> bool" where
  "same_review st st' \<longleftrightarrow> ap_decisions st' = ap_decisions st \<and> ap_users st' = ap_users st \<and>
     db_flags (ap_db st') = db_flags (ap_db st)"

lemma transition_incident_ok:
  assumes "transition_incident env claims iid target rationale uri st = Inr (inc', st')"
  obtains inc where "inc \<in> set (db_incidents (ap_db st))" "ev_uuid env iid = Some (ic_incident_id inc)"
    "transition (ev_now env) inc target (claim_or [] claims ''role'') uri rationale = Inr inc'" "same_review st st'"
    "db_incidents (ap_db st') = map (\<lambda>r. if ic_incident_id r = ic_incident_id inc then inc' else r) (db_incidents (ap_db st))"
    "ap_log st' = append_best_effort env (claim_or (ic_tenant_id inc) claims ''tenant_id'') (claim_or [] claims ''sub'')
       ''incident_transition'' ''incident'' iid
       [(''target_state'', JStr target), (''rationale'', opt_json rationale), (''post_mortem_uri'', opt_json uri)] (ap_log st)"
proof -
  from assms obtain inc where inc: "get_incident_row env iid (ap_db st) = Inr (Some inc)"
    unfolding transition_incident_def sum_bind_Inr_iff [of "sum_bind _ _"] or_404_Inr by blast
  then have i: "inc \<in> set (db_incidents (ap_db st))" "ev_uuid env iid = Some (ic_incident_id inc)"
    by (auto simp: get_incident_row_def find_Some_iff split: option.splits)
  have tr: "transition (ev_now env) inc target (claim_or [] claims ''role'') uri rationale = Inr inc'"
    using assms by (auto simp: transition_incident_def inc or_404_def Let_def split: sum.splits)
  show ?thesis
    by (rule that [OF i tr])
      (use assms in \<open>auto simp: transition_incident_def inc or_404_def Let_def tr same_review_def\<close>)
qed

lemma add_comment_same: "add_comment env claims iid body st = Inr (cm, st') \<Longrightarrow> same_review st st' \<and> ap_log st' = ap_log st"
  by (auto simp: add_comment_def sum_bind_Inr_iff Let_def same_review_def split: option.splits if_splits)

lemma add_action_item_same:
  "add_action_item env claims iid descr who due st = Inr (it, st') \<Longrightarrow> same_review st st' \<and> ap_log st' = ap_log st"
  by (auto simp: add_action_item_def sum_bind_Inr_iff Let_def same_review_def split: if_splits)

lemma post_Inr:
  "post_decision env c fid decision rationale st = Inr z \<longleftrightarrow>
     (\<exists>claims. authorised c REVIEW_ROLES = Inr claims \<and> decision \<in> set ALLOWED_DECISIONS \<and>
        submit_decision env claims fid decision rationale st = Inr z)"
  "post_transition env c iid target rationale uri st = Inr y \<longleftrightarrow>
     (\<exists>claims. authorised c REVIEW_ROLES = Inr claims \<and> transition_incident env claims iid target rationale uri st = Inr y)"
  "post_comment env c iid body st = Inr x \<longleftrightarrow>
     (\<exists>claims. authorised c REVIEW_ROLES = Inr claims \<and> add_comment env claims iid body st = Inr x)"
  "post_action_item env c iid descr who due st = Inr w \<longleftrightarrow>
     (\<exists>claims. authorised c REVIEW_ROLES = Inr claims \<and> add_action_item env claims iid descr who due st = Inr w)"
  by (auto simp: post_decision_def post_transition_def post_comment_def post_action_item_def sum_bind_Inr_iff)

definition decision_sound :: "api_state \<Rightarrow> hitl_decision_row \<Rightarrow> bool" where
  "decision_sound st0 d \<longleftrightarrow> hd_decision d \<in> set ALLOWED_DECISIONS \<and> hd_reviewer_id d \<in> us_user_id ` set (ap_users st0) \<and>
     hd_flag_id d \<in> fr_flag_id ` set (db_flags (ap_db st0))"

lemma reviewed_inv:
  assumes "reviewed st0 ds st"
  shows "ap_decisions st = ap_decisions st0 @ map fst ds \<and> ap_users st = ap_users st0 \<and>
    db_flags (ap_db st) = map (settle ds) (db_flags (ap_db st0)) \<and> (\<forall>d \<in> set ds. decision_sound st0 (fst d)) \<and>
    (written (ap_log st0) \<longrightarrow> written (ap_log st))"
  using assms
proof induction
  case start
  have "settle [] = (\<lambda>r. r)" by (simp add: settle_def fun_eq_iff)
  then show ?case by simp
next
  case (decision ds st env c fid decision rationale resp st')
  obtain claims where al: "decision \<in> set ALLOWED_DECISIONS"
    and sub: "submit_decision env claims fid decision rationale st = Inr (resp, st')"
    using decision.hyps(3) unfolding post_Inr by blast
  from sub show ?case
  proof (rule submit_decision_ok)
    fix j visible flag row
    assume flag: "flag \<in> set (db_flags (ap_db st))"
      and row: "insert_hitl_decision env (fr_flag_id flag) (claim_or ''unknown'' claims ''sub'') decision rationale st = Inr row"
      and resp: "resp = \<lparr> dr_row = row, dr_enforcement = apply_enforcement env decision (fr_run_id flag) \<rparr>"
      and dec: "ap_decisions st' = ap_decisions st @ [row]" and us: "ap_users st' = ap_users st"
      and fl: "db_flags (ap_db st') = map (\<lambda>r. if fr_flag_id r = fr_flag_id flag then resolve_flag (ev_resolved env) decision r else r)
        (db_flags (ap_db st))"
      and lg: "ap_log st' = append_best_effort env (json_str j) (claim_or ''unknown'' claims ''sub'') ''hitl_decision'' ''flag'' fid
        [(''decision'', JStr decision), (''rationale'', opt_json rationale), (''flag_id'', JStr fid)] (ap_log st)"
    note r = insert_hitl_decision_Inr [OF row]
    have "fr_flag_id flag \<in> fr_flag_id ` set (db_flags (ap_db st0))" using decision.IH flag by auto
    then have sound: "decision_sound st0 row" using decision.IH r al by (simp add: decision_sound_def)
    have "db_flags (ap_db st') = map (settle (ds @ [(row, ev_resolved env)])) (db_flags (ap_db st0))"
      using decision.IH unfolding fl by (simp add: settle_snoc r)
    moreover have "written (ap_log st0) \<longrightarrow> written (ap_log st')"
      using decision.IH decision.hyps(2) unfolding lg by (auto intro: append_best_effort_written)
    ultimately show ?thesis using decision.IH dec us resp sound by simp
  qed
next
  case (transition ds st env c iid target rationale uri inc st')
  obtain claims where tr: "transition_incident env claims iid target rationale uri st = Inr (inc, st')"
    using transition.hyps(3) unfolding post_Inr by blast
  have "same_review st st'" using tr by (rule transition_incident_ok)
  moreover have "written (ap_log st) \<longrightarrow> written (ap_log st')"
    using tr transition.hyps(2) by (auto elim!: transition_incident_ok intro: append_best_effort_written)
  ultimately show ?case using transition.IH by (simp add: same_review_def)
next
  case (comment ds st env c iid body cm st')
  then show ?case by (auto simp: post_Inr same_review_def dest!: add_comment_same)
next
  case (action_item ds st env c iid descr who due it st')
  then show ?case by (auto simp: post_Inr same_review_def dest!: add_action_item_same)
qed

section \<open>Tenants\<close>

text \<open>The credentials of a session with an issued token.\<close>

definition session :: "string \<Rightarrow> int \<Rightarrow> uuid \<Rightarrow> uuid \<Rightarrow> string \<Rightarrow> int \<Rightarrow> int \<Rightarrow> credentials" where
  "session secret now user tenant role ttl later =
     \<lparr> cr_secret = secret, cr_time = later, cr_bearer = Some (issue_token secret now user tenant role ttl), cr_cookie = None \<rparr>"

lemma authorised_session:
  "authorised (session secret now user tenant role ttl later) roles =
     (if now + ttl \<le> later then Inl 401
      else if role \<in> set roles then Inr (token_payload user tenant role now ttl) else Inl 403)"
  by (simp add: authorised_def session_def current_user_issued require_role_issued)

lemma payload_claims [simp]:
  "dict_get (token_payload user tenant role now ttl) ''tenant_id'' = Some (JStr tenant)"
  "claim_or d (token_payload user tenant role now ttl) ''tenant_id'' = tenant"
  "claim_or d (token_payload user tenant role now ttl) ''role'' = role"
  "claim_or d (token_payload user tenant role now ttl) ''sub'' = user"
  by (simp_all add: token_payload_def claim_or_def json_str_def)

text \<open>A decision touches flags of the caller's tenant only.\<close>

lemma decision_scoped:
  assumes "post_decision env (session secret now user tenant role ttl later) fid decision rationale st = Inr (resp, st')"
    and "tenant \<noteq> []" and "ev_uuid env tenant = Some tenant" and "distinct (map fr_flag_id (db_flags (ap_db st)))"
    and "r \<in> set (db_flags (ap_db st))" and "fr_tenant_id r \<noteq> tenant"
  shows "r \<in> set (db_flags (ap_db st'))"
proof -
  obtain claims where c: "claims = token_payload user tenant role now ttl"
    and sub: "submit_decision env claims fid decision rationale st = Inr (resp, st')"
    using assms(1) unfolding post_Inr authorised_session by (auto split: if_splits)
  from sub show ?thesis
  proof (rule submit_decision_ok)
    fix j visible flag
    assume "dict_get claims ''tenant_id'' = Some j" "tenant_policy env (json_str j) = Some visible"
      and flag: "flag \<in> set (db_flags (ap_db st))" "visible (fr_tenant_id flag)"
      and fl: "db_flags (ap_db st') = map (\<lambda>r. if fr_flag_id r = fr_flag_id flag then resolve_flag (ev_resolved env) decision r else r)
        (db_flags (ap_db st))"
    then have "fr_tenant_id flag = tenant" using assms(2,3) by (auto simp: c json_str_def tenant_policy_def)
    then have "r \<noteq> flag" using assms(6) by auto
    then have "fr_flag_id r \<noteq> fr_flag_id flag" using assms(4,5) flag(1) by (auto simp: distinct_map inj_on_def)
    then show ?thesis using assms(5) unfolding fl by force
  qed
qed

lemma append_other_tenant:
  assumes "parse_uuid tenant = Some t" "u \<noteq> t"
  shows "tenant_rows u (append_best_effort env tenant actor action ttype target payload rows) = tenant_rows u rows"
  using assms by (auto simp: append_best_effort_def append_entry_def tenant_rows_def Let_def)

lemma append_own_tenant:
  assumes "parse_uuid tenant = Some t" "ev_log_up env"
  shows "length (tenant_rows t (append_best_effort env tenant actor action ttype target payload rows)) =
    Suc (length (tenant_rows t rows))"
  using assms by (auto simp: append_best_effort_def append_entry_def tenant_rows_def Let_def)

lemma get_incident_row_unique:
  assumes "inc \<in> set (db_incidents d)" "distinct (map ic_incident_id (db_incidents d))"
    and "ev_uuid env iid = Some (ic_incident_id inc)"
  shows "get_incident_row env iid d = Inr (Some inc)"
proof -
  have "find (\<lambda>r. ic_incident_id r = ic_incident_id inc) xs = Some inc"
    if "inc \<in> set xs" "distinct (map ic_incident_id xs)" for xs
    using that by (induction xs) auto
  then show ?thesis using assms by (simp add: get_incident_row_def)
qed

section \<open>Properties\<close>

lemma resolution_kinds:
  "dict_get_or d RESOLUTION_FOR ''continue'' = ''allowed''" "dict_get_or d RESOLUTION_FOR ''abort'' = ''aborted''"
  "dict_get_or d RESOLUTION_FOR ''quarantine'' = ''quarantined''"
  by (simp_all add: RESOLUTION_FOR_def dict_get_or_def)

text \<open>C34. Over any history of successful requests of the review API, by any callers and in any order, the
  decision table is the old one followed by the decisions made, each of an allowed kind, by an existing
  user, on an existing flag; every flag is as it was if no decision concerns it and otherwise resolved the
  way the last decision on it says, at the time read when that decision's handler closed the flag; and the
  audit log keeps verifying for every tenant.\<close>

theorem decisions_recorded:
  assumes "reviewed st0 ds st"
  shows "ap_decisions st = ap_decisions st0 @ map fst ds \<and>
    (\<forall>d \<in> fst ` set ds. hd_decision d \<in> {''continue'', ''abort'', ''quarantine''} \<and>
       hd_reviewer_id d \<in> us_user_id ` set (ap_users st0) \<and> hd_flag_id d \<in> fr_flag_id ` set (db_flags (ap_db st0))) \<and>
    length (db_flags (ap_db st)) = length (db_flags (ap_db st0)) \<and>
    (\<forall>i < length (db_flags (ap_db st0)).
       let old = db_flags (ap_db st0) ! i; new = db_flags (ap_db st) ! i;
           on = filter (\<lambda>d. hd_flag_id (fst d) = fr_flag_id old) ds
       in if on = [] then new = old
          else (case last on of (d, resolved) \<Rightarrow>
            new = old\<lparr> fr_status := ''resolved'', fr_resolved_at := Some resolved,
              fr_resolution := Some (if hd_decision d = ''continue'' then ''allowed''
                else if hd_decision d = ''abort'' then ''aborted'' else ''quarantined'') \<rparr>)) \<and>
    (written (ap_log st0) \<longrightarrow> (\<forall>t. cv_ok (verify t (ap_log st))))"
proof -
  note inv = reviewed_inv [OF assms]
  have kinds: "hd_decision (fst d) \<in> {''continue'', ''abort'', ''quarantine''}" if "d \<in> set ds" for d
    using inv that by (auto simp: decision_sound_def ALLOWED_DECISIONS_def)
  have one: "case last on of (d, resolved) \<Rightarrow> settle ds r = r\<lparr> fr_status := ''resolved'', fr_resolved_at := Some resolved,
      fr_resolution := Some (if hd_decision d = ''continue'' then ''allowed''
        else if hd_decision d = ''abort'' then ''aborted'' else ''quarantined'') \<rparr>"
    if on: "on = filter (\<lambda>d. hd_flag_id (fst d) = fr_flag_id r) ds" "on \<noteq> []" for r on
  proof -
    obtain xs d t where x: "on = xs @ [(d, t)]" using on(2) by (cases on rule: rev_cases) auto
    then have "(d, t) \<in> set ds" using on(1) by (metis filter_is_subset in_set_conv_decomp subsetD)
    then have k: "hd_decision d \<in> {''continue'', ''abort'', ''quarantine''}" using kinds by fastforce
    have "settle ds r = resolve_flag t (hd_decision d) r"
      unfolding settle_def on(1) [symmetric] x by simp
    then show ?thesis using k unfolding x last_snoc resolve_flag_def by (elim insertE) (simp_all add: resolution_kinds)
  qed
  have "settle ds r = r" if "filter (\<lambda>d. hd_flag_id (fst d) = fr_flag_id r) ds = []" for r
    using that by (simp add: settle_def)
  moreover have "(\<forall>d \<in> fst ` set ds. hd_decision d \<in> {''continue'', ''abort'', ''quarantine''} \<and>
       hd_reviewer_id d \<in> us_user_id ` set (ap_users st0) \<and> hd_flag_id d \<in> fr_flag_id ` set (db_flags (ap_db st0)))"
    using inv kinds by (auto simp: decision_sound_def)
  moreover have "written (ap_log st0) \<longrightarrow> (\<forall>t. cv_ok (verify t (ap_log st)))"
    using inv by (auto intro: written_verifies)
  ultimately show ?thesis
    using inv one by (simp add: Let_def)
qed

definition sample_tenant :: uuid where
  "sample_tenant = ''00000000-0000-0000-0000-000000000001''"

lemma sample_tenant_uuid: "parse_uuid sample_tenant = Some sample_tenant" "sample_tenant \<noteq> []"
  by code_simp+

definition sample_flag :: flag_row where
  "sample_flag = \<lparr> fr_flag_id = ''f'', fr_run_id = ''r'', fr_tenant_id = sample_tenant, fr_severity = ''critical'',
     fr_asi_categories = [''ASI05''], fr_verdict_ids = [], fr_status = ''open'', fr_created_at = 0, fr_resolved_at = None,
     fr_resolution = None \<rparr>"

definition sample_incident :: incident where
  "sample_incident = \<lparr> ic_incident_id = ''i'', ic_tenant_id = ''other'', ic_primary_flag_id = ''g'', ic_related_flag_ids = [],
     ic_severity = ''critical'', ic_state = ''OPEN'', ic_assignee_id = None, ic_opened_at = 0, ic_triaged_at = None,
     ic_contained_at = None, ic_resolved_at = None, ic_post_mortem_uri = None, ic_dismissal_rationale = None,
     ic_should_page = True, ic_detector = [], ic_asi_categories = [], ic_agent_role = [], ic_tools = [] \<rparr>"

definition sample_state :: api_state where
  "sample_state = \<lparr> ap_db = \<lparr> db_runs = [], db_events = [], db_gate_decisions = [], db_verdicts = [], db_flags = [sample_flag],
       db_incidents = [sample_incident] \<rparr>,
     ap_users = [\<lparr> us_user_id = ''u'', us_tenant_id = sample_tenant, us_email = ''a'', us_role = ''reviewer'',
       us_oidc_subject = None, us_created_at = 0 \<rparr>],
     ap_decisions = [], ap_comments = [], ap_items = [], ap_log = [] \<rparr>"

definition sample_env :: api_env where
  "sample_env = \<lparr> ev_now = 7, ev_resolved = 8, ev_logged = 9, ev_fresh = ''h'', ev_seq = 1, ev_log_up = True, ev_uuid = Some, ev_date = (\<lambda>_. None),
     ev_enforce = (\<lambda>_ _. None) \<rparr>"

definition sample_session :: credentials where
  "sample_session = session ''k'' 0 ''u'' sample_tenant ''reviewer'' 100 5"

lemma sample_authorised: "authorised sample_session REVIEW_ROLES = Inr (token_payload ''u'' sample_tenant ''reviewer'' 0 100)"
  by (simp add: sample_session_def authorised_session REVIEW_ROLES_def)

definition sample_row :: hitl_decision_row where
  "sample_row = \<lparr> hd_hitl_id = ''h'', hd_flag_id = ''f'', hd_reviewer_id = ''u'', hd_decision = ''abort'', hd_rationale = None, hd_ts = 7 \<rparr>"

lemma sample_decision: "\<exists>st. post_decision sample_env sample_session ''f'' ''abort'' None sample_state =
    Inr (\<lparr> dr_row = sample_row, dr_enforcement = (''abort'', None) \<rparr>, st)"
proof -
  have "get_flag sample_env (\<lambda>u. u = sample_tenant) ''f'' (ap_db sample_state) = Inr (Some sample_flag)"
    by (simp add: get_flag_def sample_env_def sample_state_def sample_flag_def)
  moreover have "tenant_policy sample_env sample_tenant = Some (\<lambda>u. u = sample_tenant)"
    by (simp add: tenant_policy_def sample_env_def sample_tenant_uuid)
  moreover have "insert_hitl_decision sample_env ''f'' ''u'' ''abort'' None sample_state = Inr sample_row"
    by (simp add: insert_hitl_decision_def sample_env_def sample_state_def sample_row_def)
  moreover have "apply_enforcement sample_env ''abort'' ''r'' = (''abort'', None)"
    by (simp add: apply_enforcement_def ENFORCE_ACTION_def sample_env_def)
  moreover have "''abort'' \<in> set ALLOWED_DECISIONS" by (simp add: ALLOWED_DECISIONS_def)
  moreover have "fr_flag_id sample_flag = ''f''" "fr_run_id sample_flag = ''r''" by (simp_all add: sample_flag_def)
  ultimately show ?thesis
    by (simp add: post_decision_def sample_authorised submit_decision_def tenant_scope_def json_str_def or_404_def
        decide_flag_def Let_def)
qed

theorem decisions_recorded_witness:
  "\<exists>st. reviewed sample_state [(sample_row, 8)] st \<and>
     db_flags (ap_db st) = [sample_flag\<lparr> fr_status := ''resolved'', fr_resolved_at := Some 8, fr_resolution := Some ''aborted'' \<rparr>] \<and>
     cv_ok (verify sample_tenant (ap_log st))"
proof -
  obtain st where "post_decision sample_env sample_session ''f'' ''abort'' None sample_state =
      Inr (\<lparr> dr_row = sample_row, dr_enforcement = (''abort'', None) \<rparr>, st)" using sample_decision by blast
  from reviewed.decision [OF reviewed.start _ this] have r: "reviewed sample_state [(sample_row, 8)] st"
    by (simp add: sample_state_def sample_env_def)
  have i: "db_flags (ap_db sample_state) = [sample_flag]" "ap_log sample_state = []" "written []"
    by (simp_all add: sample_state_def written.empty)
  have "filter (\<lambda>d. hd_flag_id (fst d) = fr_flag_id sample_flag) [(sample_row, 8 :: timestamp)] = [(sample_row, 8)]"
    "hd_decision sample_row = ''abort''"
    by (simp_all add: sample_row_def sample_flag_def)
  then have "db_flags (ap_db st) ! 0 =
      sample_flag\<lparr> fr_status := ''resolved'', fr_resolved_at := Some 8, fr_resolution := Some ''aborted'' \<rparr>"
    "length (db_flags (ap_db st)) = 1" "cv_ok (verify sample_tenant (ap_log st))"
    using decisions_recorded [OF r] i by (simp_all add: Let_def)
  then show ?thesis using r by (cases "db_flags (ap_db st)") auto
qed

text \<open>C35. Flags and incidents differ in their isolation. With the token of a tenant, a decision leaves every flag of
  every other tenant as it is. A transition of an incident goes through for any tenant's incident whenever the
  state machine allows it for the caller's role: the incident is changed, the change is recorded in the log of
  the caller's tenant, and the log of the tenant that owns the incident records nothing.\<close>

theorem incidents_not_scoped:
  assumes "tenant \<noteq> []" and "ev_uuid env tenant = Some tenant" and "parse_uuid tenant = Some tenant"
    and "distinct (map fr_flag_id (db_flags (ap_db st)))" and "distinct (map ic_incident_id (db_incidents (ap_db st)))"
    and "later < now + ttl" and "role \<in> {''admin'', ''reviewer''}" and "ev_log_up env"
  shows "(post_decision env (session secret now user tenant role ttl later) fid decision rationale st = Inr (resp, st1) \<longrightarrow>
       (\<forall>r \<in> set (db_flags (ap_db st)). fr_tenant_id r \<noteq> tenant \<longrightarrow> r \<in> set (db_flags (ap_db st1)))) \<and>
     (inc \<in> set (db_incidents (ap_db st)) \<and> ev_uuid env iid = Some (ic_incident_id inc) \<and> ic_tenant_id inc \<noteq> tenant \<and>
      transition (ev_now env) inc target role uri rationale = Inr inc' \<longrightarrow>
       (\<exists>st2. post_transition env (session secret now user tenant role ttl later) iid target rationale uri st = Inr (inc', st2) \<and>
          inc' \<in> set (db_incidents (ap_db st2)) \<and>
          length (tenant_rows tenant (ap_log st2)) = Suc (length (tenant_rows tenant (ap_log st))) \<and>
          tenant_rows (ic_tenant_id inc) (ap_log st2) = tenant_rows (ic_tenant_id inc) (ap_log st)))"
proof (intro conjI impI ballI)
  fix r assume "post_decision env (session secret now user tenant role ttl later) fid decision rationale st = Inr (resp, st1)"
    "r \<in> set (db_flags (ap_db st))" "fr_tenant_id r \<noteq> tenant"
  then show "r \<in> set (db_flags (ap_db st1))" by (rule decision_scoped [OF _ assms(1,2,4)])
next
  assume h: "inc \<in> set (db_incidents (ap_db st)) \<and> ev_uuid env iid = Some (ic_incident_id inc) \<and> ic_tenant_id inc \<noteq> tenant \<and>
      transition (ev_now env) inc target role uri rationale = Inr inc'"
  have row: "get_incident_row env iid (ap_db st) = Inr (Some inc)" using h assms(5) by (intro get_incident_row_unique) auto
  have auth: "authorised (session secret now user tenant role ttl later) REVIEW_ROLES = Inr (token_payload user tenant role now ttl)"
    using assms(6,7) by (simp add: authorised_session REVIEW_ROLES_def)
  obtain st2 where st2: "transition_incident env (token_payload user tenant role now ttl) iid target rationale uri st = Inr (inc', st2)"
    using h row by (simp add: transition_incident_def or_404_def Let_def)
  let ?rows = "append_best_effort env tenant user ''incident_transition'' ''incident'' iid
      [(''target_state'', JStr target), (''rationale'', opt_json rationale), (''post_mortem_uri'', opt_json uri)] (ap_log st)"
  have "inc' \<in> set (db_incidents (ap_db st2)) \<and> ap_log st2 = ?rows"
    using st2 h row by (force simp: transition_incident_def or_404_def Let_def)
  moreover have "length (tenant_rows tenant ?rows) = Suc (length (tenant_rows tenant (ap_log st)))"
    by (rule append_own_tenant [OF assms(3,8)])
  moreover have "tenant_rows (ic_tenant_id inc) ?rows = tenant_rows (ic_tenant_id inc) (ap_log st)"
    using h by (intro append_other_tenant [OF assms(3)]) simp
  ultimately have "inc' \<in> set (db_incidents (ap_db st2)) \<and>
      length (tenant_rows tenant (ap_log st2)) = Suc (length (tenant_rows tenant (ap_log st))) \<and>
      tenant_rows (ic_tenant_id inc) (ap_log st2) = tenant_rows (ic_tenant_id inc) (ap_log st)" by simp
  then show "\<exists>st2. post_transition env (session secret now user tenant role ttl later) iid target rationale uri st = Inr (inc', st2) \<and>
      inc' \<in> set (db_incidents (ap_db st2)) \<and>
      length (tenant_rows tenant (ap_log st2)) = Suc (length (tenant_rows tenant (ap_log st))) \<and>
      tenant_rows (ic_tenant_id inc) (ap_log st2) = tenant_rows (ic_tenant_id inc) (ap_log st)"
    using st2 auth unfolding post_Inr by blast
qed

theorem incidents_not_scoped_witness:
  "\<exists>inc' st2. post_transition sample_env sample_session ''i'' ''TRIAGING'' None None sample_state = Inr (inc', st2) \<and>
     ic_tenant_id sample_incident \<noteq> sample_tenant \<and> tenant_rows ''other'' (ap_log st2) = []"
proof -
  have "transition 7 sample_incident ''TRIAGING'' ''reviewer'' None None =
      Inr (apply_transition 7 sample_incident ''TRIAGING'' None None)" by code_simp
  moreover have "ic_tenant_id sample_incident = ''other''" "sample_tenant \<noteq> ''other''"
    by (simp_all add: sample_incident_def sample_tenant_def)
  moreover have "ev_uuid sample_env s = Some s" "ev_now sample_env = 7" "ev_log_up sample_env" for s
    by (simp_all add: sample_env_def)
  moreover have "db_flags (ap_db sample_state) = [sample_flag]" "db_incidents (ap_db sample_state) = [sample_incident]"
    "ap_log sample_state = []" "ic_incident_id sample_incident = ''i''"
    by (simp_all add: sample_state_def sample_incident_def)
  ultimately show ?thesis
    using incidents_not_scoped [of sample_tenant sample_env sample_state 5 0 100 "''reviewer''" "''k''" "''u''" _ _ _ _ _ sample_incident
        "''i''" "''TRIAGING''" None "apply_transition 7 sample_incident ''TRIAGING'' None None"]
      sample_tenant_uuid
    by (simp add: sample_session_def [symmetric] tenant_rows_def) metis
qed

end
