(* ===== verification/Hitl.thy ===== *)
theory Hitl
  imports Verdicts Canonical_Json Py_Datetime
begin

text \<open>
  Human review of flags (\<^verbatim>\<open>auditor/hitl/\<close>): the router that treats a flag by its severity and isolates the failures of
  its collaborators, the queue of pending flags in Redis, the notifiers, and the in-process broadcaster of flags
  (\<^verbatim>\<open>api/hitl_routes.py\<close>). The collaborators of the router act on a common outer state; each may raise. The Redis
  commands are arguments, with their documented laws stated where they are used.
\<close>

section \<open>Router\<close>

definition HIGH_TTL_S :: int where
  "HIGH_TTL_S = 4 * 60 * 60"

record routing_result =
  ro_tier :: string
  ro_paused :: bool
  ro_queued :: bool
  ro_notified :: bool
  ro_digested :: bool
  ro_checkpoint_uri :: "string option"
  ro_pause_error :: "string option"

definition routing :: "string \<Rightarrow> routing_result" where
  "routing tier = \<lparr> ro_tier = tier, ro_paused = False, ro_queued = False, ro_notified = False, ro_digested = False,
     ro_checkpoint_uri = None, ro_pause_error = None \<rparr>"

text \<open>The collaborators: what each call does to the outer state, and its value or the text of the exception.\<close>

record 's hitl_ops =
  ho_capture :: "uuid \<Rightarrow> uuid \<Rightarrow> 's \<Rightarrow> (string + string option) \<times> 's"
  ho_pause :: "uuid \<Rightarrow> 's \<Rightarrow> (string + unit) \<times> 's"
  ho_enqueue :: "flag \<Rightarrow> int \<Rightarrow> 's \<Rightarrow> (string + unit) \<times> 's"
  ho_append_digest :: "flag \<Rightarrow> 's \<Rightarrow> (string + unit) \<times> 's"
  ho_notify :: "flag \<Rightarrow> string option \<Rightarrow> 's \<Rightarrow> (string + bool) \<times> 's"
  ho_ui_base_url :: "string option"

definition rstrip_slash :: "string \<Rightarrow> string" where
  "rstrip_slash s = rev (dropWhile (\<lambda>c. c = CHR ''/'') (rev s))"

definition ui_url :: "'s hitl_ops \<Rightarrow> flag \<Rightarrow> string option" where
  "ui_url H flag =
     (case ho_ui_base_url H of
        None \<Rightarrow> None
      | Some u \<Rightarrow> if u = [] then None else Some (rstrip_slash u @ ''/flags/'' @ fl_flag_id flag))"

definition capture_step :: "'s hitl_ops \<Rightarrow> flag \<Rightarrow> routing_result \<times> 's \<Rightarrow> routing_result \<times> 's" where
  "capture_step H flag rs =
     (case ho_capture H (fl_run_id flag) (fl_tenant_id flag) (snd rs) of
        (Inr uri, s) \<Rightarrow> ((fst rs)\<lparr> ro_checkpoint_uri := uri \<rparr>, s)
      | (Inl _, s) \<Rightarrow> (fst rs, s))"

definition pause_step :: "'s hitl_ops \<Rightarrow> flag \<Rightarrow> routing_result \<times> 's \<Rightarrow> routing_result \<times> 's" where
  "pause_step H flag rs =
     (case ho_pause H (fl_run_id flag) (snd rs) of
        (Inr _, s) \<Rightarrow> ((fst rs)\<lparr> ro_paused := True \<rparr>, s)
      | (Inl e, s) \<Rightarrow> ((fst rs)\<lparr> ro_pause_error := Some e \<rparr>, s))"

definition enqueue_step :: "'s hitl_ops \<Rightarrow> flag \<Rightarrow> routing_result \<times> 's \<Rightarrow> routing_result \<times> 's" where
  "enqueue_step H flag rs =
     (case ho_enqueue H flag HIGH_TTL_S (snd rs) of
        (Inr _, s) \<Rightarrow> ((fst rs)\<lparr> ro_queued := True \<rparr>, s)
      | (Inl _, s) \<Rightarrow> (fst rs, s))"

definition notify_step :: "'s hitl_ops \<Rightarrow> flag \<Rightarrow> routing_result \<times> 's \<Rightarrow> routing_result \<times> 's" where
  "notify_step H flag rs =
     (case ho_notify H flag (ui_url H flag) (snd rs) of
        (Inr b, s) \<Rightarrow> ((fst rs)\<lparr> ro_notified := b \<rparr>, s)
      | (Inl _, s) \<Rightarrow> (fst rs, s))"

definition digest_step :: "'s hitl_ops \<Rightarrow> flag \<Rightarrow> routing_result \<times> 's \<Rightarrow> routing_result \<times> 's" where
  "digest_step H flag rs =
     (case ho_append_digest H flag (snd rs) of
        (Inr _, s) \<Rightarrow> ((fst rs)\<lparr> ro_digested := True \<rparr>, s)
      | (Inl _, s) \<Rightarrow> (fst rs, s))"

definition route_critical :: "'s hitl_ops \<Rightarrow> flag \<Rightarrow> 's \<Rightarrow> routing_result \<times> 's" where
  "route_critical H flag s =
     notify_step H flag (enqueue_step H flag (pause_step H flag (capture_step H flag (routing ''critical'', s))))"

definition route_high :: "'s hitl_ops \<Rightarrow> flag \<Rightarrow> 's \<Rightarrow> routing_result \<times> 's" where
  "route_high H flag s = notify_step H flag (enqueue_step H flag (routing ''high'', s))"

definition route_medium :: "'s hitl_ops \<Rightarrow> flag \<Rightarrow> 's \<Rightarrow> routing_result \<times> 's" where
  "route_medium H flag s = digest_step H flag (routing ''medium'', s)"

definition route_low :: "'s \<Rightarrow> routing_result \<times> 's" where
  "route_low s = (routing ''low'', s)"

definition route :: "'s hitl_ops \<Rightarrow> flag \<Rightarrow> 's \<Rightarrow> routing_result \<times> 's" where
  "route H flag s =
     (case fl_severity flag of
        CRITICAL \<Rightarrow> route_critical H flag s
      | HIGH \<Rightarrow> route_high H flag s
      | MEDIUM \<Rightarrow> route_medium H flag s
      | LOW \<Rightarrow> route_low s)"

section \<open>Queue\<close>

record 'r queue_redis =
  qr_hset :: "'r \<Rightarrow> string \<Rightarrow> (string, string) pydict \<Rightarrow> 'r"
  qr_expire :: "'r \<Rightarrow> string \<Rightarrow> int \<Rightarrow> 'r"
  qr_sadd :: "'r \<Rightarrow> string \<Rightarrow> string \<Rightarrow> 'r"
  qr_srem :: "'r \<Rightarrow> string \<Rightarrow> string \<Rightarrow> 'r"
  qr_smembers :: "'r \<Rightarrow> string \<Rightarrow> string list"
  qr_hgetall :: "'r \<Rightarrow> string \<Rightarrow> (string, string) pydict"
  qr_delete :: "'r \<Rightarrow> string \<Rightarrow> nat \<times> 'r"
  qr_rpush :: "'r \<Rightarrow> string \<Rightarrow> string \<Rightarrow> 'r"

definition hash_key :: "uuid \<Rightarrow> uuid \<Rightarrow> string" where
  "hash_key tenant_id flag_id = ''hitl:queue:'' @ tenant_id @ '':'' @ flag_id"

definition index_key :: "uuid \<Rightarrow> string" where
  "index_key tenant_id = ''hitl:index:'' @ tenant_id"

definition digest_key :: "uuid \<Rightarrow> string \<Rightarrow> string" where
  "digest_key tenant_id date = ''hitl:digest:'' @ tenant_id @ '':'' @ date"

text \<open>\<^verbatim>\<open>json.dumps(x)\<close> with the default separators and the keys as they are.\<close>

definition queue_record :: "timestamp \<Rightarrow> flag \<Rightarrow> (string, string) pydict" where
  "queue_record now flag =
     [(''flag_id'', fl_flag_id flag), (''run_id'', fl_run_id flag), (''tenant_id'', fl_tenant_id flag),
      (''severity'', severity_value (fl_severity flag)),
      (''asi_categories'', json_text_spaced (JList (map JStr (fl_asi_categories flag)))),
      (''confidence'', float_repr (fl_confidence flag)), (''status'', fl_status flag), (''enqueued_at'', datetime_isoformat now)]"

definition enqueue :: "'r queue_redis \<Rightarrow> timestamp \<Rightarrow> flag \<Rightarrow> int \<Rightarrow> 'r \<Rightarrow> 'r" where
  "enqueue R now flag ttl_s s =
     (let hkey = hash_key (fl_tenant_id flag) (fl_flag_id flag);
          s1 = qr_hset R s hkey (queue_record now flag);
          s2 = qr_expire R s1 hkey ttl_s
      in qr_sadd R s2 (index_key (fl_tenant_id flag)) (fl_flag_id flag))"

definition append_digest :: "'r queue_redis \<Rightarrow> timestamp \<Rightarrow> flag \<Rightarrow> 'r \<Rightarrow> 'r" where
  "append_digest R now flag s =
     (let dkey = digest_key (fl_tenant_id flag) (date_isoformat (now div MICROS_PER_DAY));
          entry = json_text_spaced (JObj
            [(''flag_id'', JStr (fl_flag_id flag)), (''run_id'', JStr (fl_run_id flag)),
             (''severity'', JStr (severity_value (fl_severity flag))),
             (''asi_categories'', JList (map JStr (fl_asi_categories flag))), (''ts'', JStr (datetime_isoformat now))])
      in qr_expire R (qr_rpush R s dkey entry) dkey (48 * 3600))"

fun pending_from :: "'r queue_redis \<Rightarrow> uuid \<Rightarrow> string list \<Rightarrow> 'r \<Rightarrow> (string, string) pydict list \<times> 'r" where
  "pending_from R tenant_id [] s = ([], s)"
| "pending_from R tenant_id (fid # fids) s =
     (let r = qr_hgetall R s (hash_key tenant_id fid) in
      if r \<noteq> [] then (let (rs, s') = pending_from R tenant_id fids s in (r # rs, s'))
      else pending_from R tenant_id fids (qr_srem R s (index_key tenant_id) fid))"

definition list_pending :: "'r queue_redis \<Rightarrow> uuid \<Rightarrow> 'r \<Rightarrow> (string, string) pydict list \<times> 'r" where
  "list_pending R tenant_id s = pending_from R tenant_id (qr_smembers R s (index_key tenant_id)) s"

definition ack :: "'r queue_redis \<Rightarrow> uuid \<Rightarrow> uuid \<Rightarrow> 'r \<Rightarrow> bool \<times> 'r" where
  "ack R tenant_id flag_id s =
     (let (n, s1) = qr_delete R s (hash_key tenant_id flag_id)
      in (n \<noteq> 0, qr_srem R s1 (index_key tenant_id) flag_id))"

section \<open>Notifiers\<close>

text \<open>The outcome of the HTTP request, for the card built from the flag, is an argument.\<close>

definition slack_notify :: "string option \<Rightarrow> (flag \<Rightarrow> string option \<Rightarrow> bool) \<Rightarrow> flag \<Rightarrow> string option \<Rightarrow> bool" where
  "slack_notify webhook_url post flag url =
     (case webhook_url of None \<Rightarrow> False | Some w \<Rightarrow> w \<noteq> [] \<and> post flag url)"

definition pagerduty_notify :: "string option \<Rightarrow> flag \<Rightarrow> bool" where
  "pagerduty_notify routing_key flag = False"

section \<open>Broadcaster\<close>

text \<open>Per tenant the queues of its subscribers, identified by numbers, with at most a hundred flags each.\<close>

type_synonym 'f broadcaster = "(string, (nat, 'f list) pydict) pydict"

definition QUEUE_MAXSIZE :: nat where
  "QUEUE_MAXSIZE = 100"

definition subscribe :: "nat \<Rightarrow> string \<Rightarrow> 'f broadcaster \<Rightarrow> 'f broadcaster" where
  "subscribe q tenant_id b = dict_set tenant_id (dict_set q [] (dict_get_or [] b tenant_id)) b"

definition unsubscribe :: "nat \<Rightarrow> string \<Rightarrow> 'f broadcaster \<Rightarrow> 'f broadcaster" where
  "unsubscribe q tenant_id b =
     (case dict_get b tenant_id of
        None \<Rightarrow> b
      | Some qs \<Rightarrow> dict_set tenant_id (filter (\<lambda>(k, _). k \<noteq> q) qs) b)"

definition put_nowait :: "'f \<Rightarrow> 'f list \<Rightarrow> 'f list" where
  "put_nowait flag xs = (if length xs < QUEUE_MAXSIZE then xs @ [flag] else xs)"

definition publish :: "string \<Rightarrow> 'f \<Rightarrow> 'f broadcaster \<Rightarrow> 'f broadcaster" where
  "publish tenant_id flag b =
     (case dict_get b tenant_id of
        None \<Rightarrow> b
      | Some qs \<Rightarrow> dict_set tenant_id (map (\<lambda>(k, xs). (k, put_nowait flag xs)) qs) b)"

section \<open>What the queue promises\<close>

text \<open>The documented behaviour of the commands: a hash, a set and their keys are independent of other keys, \<^verbatim>\<open>HSET\<close>
  overwrites the given fields, and a positive time to live changes nothing before it has passed.\<close>

definition queue_laws :: "'r queue_redis \<Rightarrow> bool" where
  "queue_laws R \<longleftrightarrow>
     (\<forall>s k m j f. wf_dict m \<longrightarrow> dict_get (qr_hgetall R (qr_hset R s k m) j) f =
        (if j = k \<and> f \<in> fst ` set m then dict_get m f else dict_get (qr_hgetall R s j) f)) \<and>
     (\<forall>s k m j. j \<noteq> k \<longrightarrow> qr_hgetall R (qr_hset R s k m) j = qr_hgetall R s j) \<and>
     (\<forall>s k m j. j \<noteq> k \<longrightarrow> set (qr_smembers R (qr_hset R s k m) j) = set (qr_smembers R s j)) \<and>
     (\<forall>s k t j. 0 < t \<longrightarrow> qr_hgetall R (qr_expire R s k t) j = qr_hgetall R s j) \<and>
     (\<forall>s k t j. 0 < t \<longrightarrow> set (qr_smembers R (qr_expire R s k t) j) = set (qr_smembers R s j)) \<and>
     (\<forall>s k x j. set (qr_smembers R (qr_sadd R s k x) j) = (if j = k then insert x (set (qr_smembers R s j)) else set (qr_smembers R s j))) \<and>
     (\<forall>s k x j. j \<noteq> k \<longrightarrow> qr_hgetall R (qr_sadd R s k x) j = qr_hgetall R s j) \<and>
     (\<forall>s k x j. set (qr_smembers R (qr_srem R s k x) j) = (if j = k then set (qr_smembers R s j) - {x} else set (qr_smembers R s j))) \<and>
     (\<forall>s k x j. j \<noteq> k \<longrightarrow> qr_hgetall R (qr_srem R s k x) j = qr_hgetall R s j) \<and>
     (\<forall>s k j. qr_hgetall R (snd (qr_delete R s k)) j = (if j = k then [] else qr_hgetall R s j)) \<and>
     (\<forall>s k j. j \<noteq> k \<longrightarrow> set (qr_smembers R (snd (qr_delete R s k)) j) = set (qr_smembers R s j))"

lemma keys_apart [simp]: "hash_key t f \<noteq> index_key u" "index_key u \<noteq> hash_key t f"
  by (simp_all add: hash_key_def index_key_def)

lemma hash_key_inj [simp]: "hash_key t f = hash_key t g \<longleftrightarrow> f = g"
  by (simp add: hash_key_def)

lemma pending_from_records:
  assumes "queue_laws R"
  shows "fst (pending_from R t fids s) = filter (\<lambda>r. r \<noteq> []) (map (\<lambda>f. qr_hgetall R s (hash_key t f)) fids)"
proof (induction fids arbitrary: s)
  case (Cons f fids)
  have "qr_hgetall R (qr_srem R s (index_key t) f) (hash_key t g) = qr_hgetall R s (hash_key t g)" for g
    using assms by (simp add: queue_laws_def)
  then show ?case using Cons by (simp add: Let_def split: prod.split) (metis fst_conv)
qed simp

lemma list_pending_records:
  assumes "queue_laws R"
  shows "set (fst (list_pending R t s)) =
    {qr_hgetall R s (hash_key t f) | f. f \<in> set (qr_smembers R s (index_key t)) \<and> qr_hgetall R s (hash_key t f) \<noteq> []}"
  unfolding list_pending_def pending_from_records [OF assms] by auto

lemma queue_record_wf: "wf_dict (queue_record now flag)"
  by (simp add: queue_record_def wf_dict_def)

lemma enqueue_effect:
  assumes "queue_laws R" "0 < ttl"
  shows "dict_get (qr_hgetall R (enqueue R now flag ttl s) (hash_key (fl_tenant_id flag) (fl_flag_id flag))) k =
      (if k \<in> fst ` set (queue_record now flag) then dict_get (queue_record now flag) k
       else dict_get (qr_hgetall R s (hash_key (fl_tenant_id flag) (fl_flag_id flag))) k)"
    and "set (qr_smembers R (enqueue R now flag ttl s) (index_key (fl_tenant_id flag))) =
      insert (fl_flag_id flag) (set (qr_smembers R s (index_key (fl_tenant_id flag))))"
  using assms queue_record_wf unfolding queue_laws_def enqueue_def Let_def by simp_all

lemma ack_effect:
  assumes "queue_laws R"
  shows "qr_hgetall R (snd (ack R t f s)) (hash_key t g) = (if g = f then [] else qr_hgetall R s (hash_key t g))"
    and "set (qr_smembers R (snd (ack R t f s)) (index_key t)) = set (qr_smembers R s (index_key t)) - {f}"
  using assms unfolding queue_laws_def ack_def Let_def by (simp_all split: prod.split add: split_beta)

text \<open>The router's queue is the Redis queue: the outer state is that of Redis and a rest, and only the queue's operations
  touch the former.\<close>

definition queue_wired :: "('r \<times> 'o) hitl_ops \<Rightarrow> 'r queue_redis \<Rightarrow> timestamp \<Rightarrow> bool" where
  "queue_wired H R now \<longleftrightarrow>
     (\<forall>f ttl r o'. ho_enqueue H f ttl (r, o') = (Inr (), enqueue R now f ttl r, o')) \<and>
     (\<forall>f r o'. ho_append_digest H f (r, o') = (Inr (), append_digest R now f r, o')) \<and>
     (\<forall>run t s. fst (snd (ho_capture H run t s)) = fst s) \<and> (\<forall>run s. fst (snd (ho_pause H run s)) = fst s) \<and>
     (\<forall>f u s. fst (snd (ho_notify H f u s)) = fst s)"

lemma step_redis:
  assumes "queue_wired H R now"
  shows "fst (snd (capture_step H flag rs)) = fst (snd rs)" "fst (snd (pause_step H flag rs)) = fst (snd rs)"
    "fst (snd (notify_step H flag rs)) = fst (snd rs)"
    "fst (snd (enqueue_step H flag rs)) = enqueue R now flag HIGH_TTL_S (fst (snd rs))"
    "ro_queued (fst (enqueue_step H flag rs))"
proof -
  note w = assms [unfolded queue_wired_def]
  show "fst (snd (capture_step H flag rs)) = fst (snd rs)"
    using w [THEN conjunct2, THEN conjunct2, THEN conjunct1, rule_format, of "fl_run_id flag" "fl_tenant_id flag" "snd rs"]
    by (auto simp: capture_step_def split: prod.split sum.split)
  show "fst (snd (pause_step H flag rs)) = fst (snd rs)"
    using w [THEN conjunct2, THEN conjunct2, THEN conjunct2, THEN conjunct1, rule_format, of "fl_run_id flag" "snd rs"]
    by (auto simp: pause_step_def split: prod.split sum.split)
  show "fst (snd (notify_step H flag rs)) = fst (snd rs)"
    using w [THEN conjunct2, THEN conjunct2, THEN conjunct2, THEN conjunct2, rule_format, of flag "ui_url H flag" "snd rs"]
    by (auto simp: notify_step_def split: prod.split sum.split)
  show "fst (snd (enqueue_step H flag rs)) = enqueue R now flag HIGH_TTL_S (fst (snd rs))" "ro_queued (fst (enqueue_step H flag rs))"
    using w by (cases rs; cases "snd rs"; simp add: enqueue_step_def)+
qed

lemma notify_keeps:
  "ro_queued (fst (notify_step H flag rs)) = ro_queued (fst rs)" "ro_paused (fst (notify_step H flag rs)) = ro_paused (fst rs)"
  by (simp_all add: notify_step_def split: prod.split sum.split)

lemma digest_keeps:
  "ro_queued (fst (digest_step H flag rs)) = ro_queued (fst rs)" "ro_notified (fst (digest_step H flag rs)) = ro_notified (fst rs)"
  "ro_paused (fst (digest_step H flag rs)) = ro_paused (fst rs)"
  by (simp_all add: digest_step_def split: prod.split sum.split)

lemma enqueue_keeps: "ro_paused (fst (enqueue_step H flag rs)) = ro_paused (fst rs)"
  by (simp add: enqueue_step_def split: prod.split sum.split)

section \<open>Properties\<close>


text \<open>A store with these laws: the hashes and the sets as functions of their keys.\<close>

definition plain_redis :: "((string \<Rightarrow> (string, string) pydict) \<times> (string \<Rightarrow> string list)) queue_redis" where
  "plain_redis = \<lparr>
     qr_hset = (\<lambda>(h, m) k d. (h(k := d @ filter (\<lambda>(f, _). f \<notin> fst ` set d) (h k)), m)),
     qr_expire = (\<lambda>s k t. s),
     qr_sadd = (\<lambda>(h, m) k x. (h, m(k := List.insert x (m k)))),
     qr_srem = (\<lambda>(h, m) k x. (h, m(k := filter (\<lambda>y. y \<noteq> x) (m k)))),
     qr_smembers = (\<lambda>(h, m) k. m k),
     qr_hgetall = (\<lambda>(h, m) k. h k),
     qr_delete = (\<lambda>(h, m) k. (if h k = [] then 0 else 1, h(k := []), m)),
     qr_rpush = (\<lambda>s k v. s) \<rparr>"

lemma map_of_filter_keys: "map_of (filter (\<lambda>(f, _). f \<notin> A) d) k = (if k \<in> A then None else map_of d k)"
  by (induction d) auto

lemma plain_redis_laws: "queue_laws plain_redis"
proof -
  have "dict_get (d @ filter (\<lambda>(f, _). f \<notin> fst ` set d) old) f = (if f \<in> fst ` set d then dict_get d f else dict_get old f)"
    for d old :: "(string, string) pydict" and f
    by (auto simp: map_add_def map_of_filter_keys map_of_eq_None_iff split: option.split dest: map_of_SomeD intro: rev_image_eqI)
  then show ?thesis unfolding queue_laws_def plain_redis_def by (auto split: prod.splits if_splits)
qed

definition sample_ops :: "(((string \<Rightarrow> (string, string) pydict) \<times> (string \<Rightarrow> string list)) \<times> unit) hitl_ops" where
  "sample_ops = \<lparr>
     ho_capture = (\<lambda>_ _ s. (Inl ''unreachable'', s)), ho_pause = (\<lambda>_ s. (Inr (), s)),
     ho_enqueue = (\<lambda>f ttl (r, x). (Inr (), enqueue plain_redis 0 f ttl r, x)),
     ho_append_digest = (\<lambda>f (r, x). (Inr (), append_digest plain_redis 0 f r, x)),
     ho_notify = (\<lambda>_ _ s. (Inl ''refused'', s)), ho_ui_base_url = None \<rparr>"

definition sample_critical :: flag where
  "sample_critical = \<lparr> fl_flag_id = ''f'', fl_run_id = ''r'', fl_tenant_id = ''t'', fl_severity = CRITICAL, fl_asi_categories = [],
     fl_verdict_ids = [], fl_status = ''open'', fl_confidence = 1, fl_evidence = [], fl_created_at = 0 \<rparr>"


end
