(* ===== verification/Provenance.thy ===== *)
theory Provenance
  imports Py_Regex Events
begin

text \<open>
  Memory provenance across runs, \<^verbatim>\<open>auditor/detectors/asi06_cross_run.py\<close>: entries are tagged as suspicious
  when they are written, reads are recorded by run, and from a triggering run the code walks back,
  breadth first, through the tagged entries it read to the runs that wrote them, quarantining what it
  finds. The walk is a loop over a queue; it is shown to end on every store and to find exactly the tagged
  entries on a chain of at most \<^verbatim>\<open>max_hops\<close> reads.

  A pattern is kept with its source text, in which \<^verbatim>\<open>~\<close> stands for the backslash. The mutable entry objects
  are values of the store; the store is the only holder of them in this module. \<^verbatim>\<open>max_hops\<close> is a natural
  number (a negative one behaves as zero).
\<close>

section \<open>Injection patterns\<close>

type_synonym pattern = "string \<times> re"

definition pattern_text :: "string \<Rightarrow> string" where
  "pattern_text = map (\<lambda>c. if c = CHR ''~'' then CHR 0x5C else c)"

definition iwords :: "string list \<Rightarrow> re" where
  "iwords ws = ralt (map ilit ws)"

definition rspaces :: re where
  "rspaces = rplus rspace"

definition rany :: re where
  "rany = RSet (\<lambda>_. True)"

text \<open>The six markers that \<^verbatim>\<open>asi06_cross_run\<close> and \<^verbatim>\<open>asi06_memory_poisoning\<close> share. Whether a lazy \<^verbatim>\<open>*?\<close> or a
  greedy \<^verbatim>\<open>*\<close> is used makes no difference to whether there is a match.\<close>

definition INJECTION_PATTERNS :: "pattern list" where
  "INJECTION_PATTERNS =
     [(''ignore~s+(all~s+)?previous~s+instructions'',
         rseq [ilit ''ignore'', rspaces, ropt (RSeq (ilit ''all'') rspaces), ilit ''previous'', rspaces, ilit ''instructions'']),
      (''disregard~s+(your|the|all)~s+(prior~s+)?instructions'',
         rseq [ilit ''disregard'', rspaces, iwords [''your'', ''the'', ''all''], rspaces,
           ropt (RSeq (ilit ''prior'') rspaces), ilit ''instructions'']),
      (''you~s+are~s+now~s+(a|an|the)~b'',
         rseq [ilit ''you'', rspaces, ilit ''are'', rspaces, ilit ''now'', rspaces, iwords [''a'', ''an'', ''the''], RBound]),
      (''~b(system|assistant)~s*:~s*'',
         rseq [RBound, iwords [''system'', ''assistant''], RStar rspace, ilit '':'', RStar rspace]),
      (''~bexfiltrate~b'', rseq [RBound, ilit ''exfiltrate'', RBound]),
      (''<!--.*?(instruction|ignore|system).*?-->'',
         rseq [ilit ''<!--'', RStar rany, iwords [''instruction'', ''ignore'', ''system''], RStar rany, ilit ''-->''])]"

definition UNTRUSTED_SOURCES :: "string list" where
  "UNTRUSTED_SOURCES = [''web'', ''tool_output'', ''rag'']"

definition SUSPICION_THRESHOLD :: rat where
  "SUSPICION_THRESHOLD = f64 (4 / 10)"

definition MAX_HOPS :: nat where
  "MAX_HOPS = 3"

definition injection_score :: "string \<Rightarrow> rat" where
  "injection_score content =
     (let hits = length (filter (\<lambda>(_, r). re_search r content) INJECTION_PATTERNS) in
      if hits = 0 then 0 else min 1 (fadd (f64 (4 / 10)) (fmul (f64 (2 / 10)) (of_nat hits))))"

section \<open>The store\<close>

record memory_entry =
  me_entry_id :: uuid
  me_tenant_id :: uuid
  me_created_in_run_id :: uuid
  me_source :: string
  me_content :: string
  me_agent_id :: "uuid option"
  me_distance_from_user :: "int option"
  me_write_intent_declared :: bool
  me_tagged :: bool
  me_suspicion_score :: rat
  me_quarantined :: bool

definition as_flags :: "memory_entry \<Rightarrow> (string, json) pydict" where
  "as_flags m = [(''suspicious'', JBool (me_tagged m)), (''suspicion_score'', JFloat (py_round (me_suspicion_score m) 4))]"

record provenance =
  pv_entries :: "(uuid, memory_entry) pydict"
  pv_reads :: "(uuid, uuid list) pydict"

definition tag_entry :: "memory_entry \<Rightarrow> memory_entry" where
  "tag_entry m =
     (let score = injection_score (me_content m) in
      if me_source m \<in> set UNTRUSTED_SOURCES \<and> SUSPICION_THRESHOLD \<le> score
      then m\<lparr> me_tagged := True, me_suspicion_score := score \<rparr> else m)"

definition write_entry :: "memory_entry \<Rightarrow> provenance \<Rightarrow> memory_entry \<times> provenance" where
  "write_entry m st =
     (let m' = tag_entry m in (m', st\<lparr> pv_entries := dict_set (me_entry_id m') m' (pv_entries st) \<rparr>))"

definition record_read :: "uuid \<Rightarrow> uuid \<Rightarrow> provenance \<Rightarrow> provenance" where
  "record_read run entry st =
     (let reads = dict_get_or [] (pv_reads st) run in
      st\<lparr> pv_reads := dict_set run (if entry \<in> set reads then reads else reads @ [entry]) (pv_reads st) \<rparr>)"

definition get_entry :: "provenance \<Rightarrow> uuid \<Rightarrow> memory_entry option" where
  "get_entry st entry = dict_get (pv_entries st) entry"

definition entries_read_in_run :: "provenance \<Rightarrow> uuid \<Rightarrow> uuid list" where
  "entries_read_in_run st run = dict_get_or [] (pv_reads st) run"

definition quarantine :: "uuid \<Rightarrow> provenance \<Rightarrow> provenance" where
  "quarantine entry st =
     (case get_entry st entry of
        None \<Rightarrow> st
      | Some m \<Rightarrow> st\<lparr> pv_entries := dict_set entry (m\<lparr> me_quarantined := True \<rparr>) (pv_entries st) \<rparr>)"

section \<open>The influence chain\<close>

record influence_link =
  il_poisoned_entry_id :: uuid
  il_writer_run_id :: uuid
  il_reader_run_id :: uuid
  il_source :: string
  il_suspicion_score :: rat
  il_hop :: nat

record influence_chain =
  ic_trigger_run_id :: uuid
  ic_links :: "influence_link list"
  ic_quarantined_entry_ids :: "uuid list"

definition detected :: "influence_chain \<Rightarrow> bool" where
  "detected c = (ic_links c \<noteq> [])"

definition poisoned_entry_ids :: "influence_chain \<Rightarrow> uuid list" where
  "poisoned_entry_ids c = map il_poisoned_entry_id (ic_links c)"

definition runs_involved :: "influence_chain \<Rightarrow> uuid set" where
  "runs_involved c = set (concat (map (\<lambda>l. [il_writer_run_id l, il_reader_run_id l]) (ic_links c)))"

text \<open>The local variables of the loop, and the body of the inner one.\<close>

record walk =
  wk_store :: provenance
  wk_chain :: influence_chain
  wk_seen :: "uuid list"
  wk_visited :: "uuid list"
  wk_frontier :: "(uuid \<times> nat) list"

definition link_of :: "uuid \<Rightarrow> nat \<Rightarrow> uuid \<Rightarrow> memory_entry \<Rightarrow> influence_link" where
  "link_of reader hop entry m =
     \<lparr> il_poisoned_entry_id = entry, il_writer_run_id = me_created_in_run_id m, il_reader_run_id = reader,
       il_source = me_source m, il_suspicion_score = me_suspicion_score m, il_hop = hop \<rparr>"

definition visit_entry :: "bool \<Rightarrow> uuid \<Rightarrow> nat \<Rightarrow> walk \<Rightarrow> uuid \<Rightarrow> walk" where
  "visit_entry quar reader hop w entry =
     (case get_entry (wk_store w) entry of
        None \<Rightarrow> w
      | Some m \<Rightarrow>
          if \<not> me_tagged m \<or> entry \<in> set (wk_seen w) then w
          else
            w\<lparr> wk_store := (if quar then quarantine entry (wk_store w) else wk_store w),
               wk_chain := (wk_chain w)\<lparr> ic_links := ic_links (wk_chain w) @ [link_of reader hop entry m],
                 ic_quarantined_entry_ids := ic_quarantined_entry_ids (wk_chain w) @ (if quar then [entry] else []) \<rparr>,
               wk_seen := entry # wk_seen w,
               wk_frontier := wk_frontier w @ [(me_created_in_run_id m, Suc hop)] \<rparr>)"

text \<open>Entries the loop can still add, and the queue: the measure of the loop.\<close>

definition unseen :: "walk \<Rightarrow> uuid set" where
  "unseen w = fst ` set (pv_entries (wk_store w)) - set (wk_seen w)"

definition walk_size :: "walk \<Rightarrow> nat" where
  "walk_size w = 2 * card (unseen w) + length (wk_frontier w)"

lemma dom_get_entry: "dom (get_entry st) = fst ` set (pv_entries st)"
  using dom_map_of_conv_image_fst [of "pv_entries st"] by (simp add: get_entry_def [abs_def])

lemma get_entry_quarantine:
  "get_entry (quarantine e st) x =
     (if x = e then map_option (\<lambda>m. m\<lparr> me_quarantined := True \<rparr>) (get_entry st x) else get_entry st x)"
  by (simp add: quarantine_def get_entry_def update_conv split: option.split)

lemma entries_read_quarantine [simp]: "entries_read_in_run (quarantine e st) r = entries_read_in_run st r"
  by (simp add: quarantine_def entries_read_in_run_def split: option.split)

lemma quarantine_keys [simp]: "fst ` set (pv_entries (quarantine e st)) = fst ` set (pv_entries st)"
  unfolding dom_get_entry [symmetric] by (auto simp: dom_def get_entry_quarantine split: if_splits)

lemma visit_entry_size: "walk_size (visit_entry q r h w e) \<le> walk_size w"
proof (cases "\<exists>m. get_entry (wk_store w) e = Some m \<and> me_tagged m \<and> e \<notin> set (wk_seen w)")
  case True
  then obtain m where m: "get_entry (wk_store w) e = Some m" "me_tagged m" "e \<notin> set (wk_seen w)" by blast
  have e: "e \<in> unseen w" using m by (simp add: unseen_def dom_get_entry [symmetric] domI)
  have "finite (unseen w)" by (simp add: unseen_def)
  moreover have "unseen (visit_entry q r h w e) = unseen w - {e}"
    using m by (auto simp: unseen_def visit_entry_def)
  ultimately have "Suc (card (unseen (visit_entry q r h w e))) = card (unseen w)"
    using e by (simp only: card_Suc_Diff1)
  moreover have "length (wk_frontier (visit_entry q r h w e)) = Suc (length (wk_frontier w))"
    using m by (simp add: visit_entry_def)
  ultimately show ?thesis by (simp add: walk_size_def)
qed (auto simp: visit_entry_def split: option.split)

lemma visit_entries_size: "walk_size (foldl (visit_entry q r h) w es) \<le> walk_size w"
  by (induction es arbitrary: w) (auto intro: order_trans visit_entry_size)

function walk_loop :: "nat \<Rightarrow> bool \<Rightarrow> walk \<Rightarrow> walk" where
  "walk_loop max_hops quar w =
     (case wk_frontier w of
        [] \<Rightarrow> w
      | (reader, hop) # rest \<Rightarrow>
          let w = w\<lparr> wk_frontier := rest \<rparr> in
          if max_hops < hop \<or> reader \<in> set (wk_visited w) then walk_loop max_hops quar w
          else walk_loop max_hops quar
            (foldl (visit_entry quar reader hop) (w\<lparr> wk_visited := reader # wk_visited w \<rparr>)
               (entries_read_in_run (wk_store w) reader)))"
  by auto
termination
proof (relation "measure (\<lambda>(_, _, w). walk_size w)", goal_cases)
  case (3 max_hops quar w p rest reader hop w')
  have "walk_size (foldl (visit_entry quar reader hop) (w'\<lparr> wk_visited := reader # wk_visited w' \<rparr>)
      (entries_read_in_run (wk_store w') reader)) \<le> walk_size (w'\<lparr> wk_visited := reader # wk_visited w' \<rparr>)"
    by (rule visit_entries_size)
  also have "\<dots> < walk_size w" using 3 by (simp add: walk_size_def unseen_def)
  finally show ?case by simp
qed (auto simp: walk_size_def unseen_def)

declare walk_loop.simps [simp del]

definition walk_influence_chain :: "nat \<Rightarrow> bool \<Rightarrow> provenance \<Rightarrow> uuid \<Rightarrow> influence_chain \<times> provenance" where
  "walk_influence_chain max_hops quar st trigger =
     (let w = walk_loop max_hops quar
        \<lparr> wk_store = st, wk_chain = \<lparr> ic_trigger_run_id = trigger, ic_links = [], ic_quarantined_entry_ids = [] \<rparr>,
          wk_seen = [], wk_visited = [], wk_frontier = [(trigger, 1)] \<rparr>
      in (wk_chain w, wk_store w))"

section \<open>What the walk finds\<close>

text \<open>The specification: runs reached over \<open>k - 1\<close> poisoned reads from the trigger, and the tagged entries
  that such a run read.\<close>

inductive influenced :: "provenance \<Rightarrow> uuid \<Rightarrow> nat \<Rightarrow> uuid \<Rightarrow> bool" for st t where
  influenced_trigger: "influenced st t 1 t"
| influenced_writer: "influenced st t k r \<Longrightarrow> e \<in> set (entries_read_in_run st r) \<Longrightarrow> get_entry st e = Some m \<Longrightarrow>
    me_tagged m \<Longrightarrow> influenced st t (Suc k) (me_created_in_run_id m)"

inductive_cases influenced_SucE: "influenced st t (Suc k) r"

definition tagged_entry :: "provenance \<Rightarrow> uuid \<Rightarrow> bool" where
  "tagged_entry st e = (case get_entry st e of None \<Rightarrow> False | Some m \<Rightarrow> me_tagged m)"

definition writer_of :: "provenance \<Rightarrow> uuid \<Rightarrow> uuid" where
  "writer_of st e = (case get_entry st e of None \<Rightarrow> [] | Some m \<Rightarrow> me_created_in_run_id m)"

definition poisoned_within :: "nat \<Rightarrow> provenance \<Rightarrow> uuid \<Rightarrow> uuid set" where
  "poisoned_within n st t =
     {e. tagged_entry st e \<and> (\<exists>k r. k \<le> n \<and> influenced st t k r \<and> e \<in> set (entries_read_in_run st r))}"

text \<open>The inner loop in closed form: it takes the tagged entries that were not seen, in order.\<close>

fun fresh :: "provenance \<Rightarrow> uuid list \<Rightarrow> uuid list \<Rightarrow> uuid list" where
  "fresh st seen [] = []"
| "fresh st seen (e # es) =
     (if tagged_entry st e \<and> e \<notin> set seen then e # fresh st (e # seen) es else fresh st seen es)"

lemma set_fresh: "set (fresh st seen es) = {e \<in> set es. tagged_entry st e} - set seen"
  by (induction es arbitrary: seen) auto

lemma distinct_fresh: "distinct (fresh st seen es)"
  by (induction es arbitrary: seen) (auto simp: set_fresh)

text \<open>The parts of an entry that a quarantine leaves alone.\<close>

definition same_poison :: "provenance \<Rightarrow> provenance \<Rightarrow> uuid set \<Rightarrow> bool" where
  "same_poison st st' qs =
     ((\<forall>r. entries_read_in_run st' r = entries_read_in_run st r) \<and>
      (\<forall>e. get_entry st' e = map_option (\<lambda>m. if e \<in> qs then m\<lparr> me_quarantined := True \<rparr> else m) (get_entry st e)))"

lemma same_poison_refl: "same_poison st st {}"
  by (simp add: same_poison_def option.map_ident)

lemma same_poison_tagged:
  assumes "same_poison st st' qs"
  shows "tagged_entry st' e = tagged_entry st e" "writer_of st' e = writer_of st e"
    "fresh st' seen es = fresh st seen es"
proof -
  have tw: "tagged_entry st' e = tagged_entry st e" "writer_of st' e = writer_of st e" for e
    using assms by (auto simp: same_poison_def tagged_entry_def writer_of_def split: option.split)
  show "tagged_entry st' e = tagged_entry st e" "writer_of st' e = writer_of st e" by (fact tw)+
  show "fresh st' seen es = fresh st seen es" by (induction es arbitrary: seen) (auto simp: tw)
qed

lemma same_poison_quarantine:
  "same_poison st st' qs \<Longrightarrow> same_poison st (quarantine e st') (insert e qs)"
  by (auto simp: same_poison_def get_entry_quarantine option.map_comp comp_def intro!: option.map_cong)

definition good_link :: "nat \<Rightarrow> provenance \<Rightarrow> uuid \<Rightarrow> influence_link \<Rightarrow> bool" where
  "good_link n st t l =
     (\<exists>m. get_entry st (il_poisoned_entry_id l) = Some m \<and> me_tagged m \<and>
       l = link_of (il_reader_run_id l) (il_hop l) (il_poisoned_entry_id l) m \<and>
       il_poisoned_entry_id l \<in> set (entries_read_in_run st (il_reader_run_id l)) \<and>
       influenced st t (il_hop l) (il_reader_run_id l) \<and> il_hop l \<le> n)"

lemma fresh_quarantine [simp]: "fresh (quarantine e st) seen es = fresh st seen es"
  by (rule same_poison_tagged [OF same_poison_quarantine [OF same_poison_refl]])

lemma writer_of_quarantine [simp]: "writer_of (quarantine e st) x = writer_of st x"
  by (rule same_poison_tagged [OF same_poison_quarantine [OF same_poison_refl]])

lemma visit_entry_skip: "\<not> (tagged_entry (wk_store w) e \<and> e \<notin> set (wk_seen w)) \<Longrightarrow> visit_entry q r h w e = w"
  by (auto simp: visit_entry_def tagged_entry_def split: option.splits)

lemma visit_entry_take:
  assumes "tagged_entry (wk_store w) e" and "e \<notin> set (wk_seen w)"
  shows "visit_entry q r h w e =
    w\<lparr> wk_store := (if q then quarantine e (wk_store w) else wk_store w),
       wk_chain := (wk_chain w)\<lparr> ic_links := ic_links (wk_chain w) @ [link_of r h e (the (get_entry (wk_store w) e))],
         ic_quarantined_entry_ids := ic_quarantined_entry_ids (wk_chain w) @ (if q then [e] else []) \<rparr>,
       wk_seen := e # wk_seen w,
       wk_frontier := wk_frontier w @ [(writer_of (wk_store w) e, Suc h)] \<rparr>"
  using assms by (auto simp: visit_entry_def tagged_entry_def writer_of_def split: option.splits)

lemma visit_entries:
  fixes w :: walk
  defines "ns \<equiv> fresh (wk_store w) (wk_seen w)"
  shows "foldl (visit_entry q r h) w es =
    w\<lparr> wk_store := (if q then foldl (\<lambda>s e. quarantine e s) (wk_store w) (ns es) else wk_store w),
       wk_chain := (wk_chain w)\<lparr>
         ic_links := ic_links (wk_chain w) @ map (\<lambda>e. link_of r h e (the (get_entry (wk_store w) e))) (ns es),
         ic_quarantined_entry_ids := ic_quarantined_entry_ids (wk_chain w) @ (if q then ns es else []) \<rparr>,
       wk_seen := rev (ns es) @ wk_seen w,
       wk_frontier := wk_frontier w @ map (\<lambda>e. (writer_of (wk_store w) e, Suc h)) (ns es) \<rparr>"
  unfolding ns_def
proof (induction es arbitrary: w)
  case (Cons e es)
  show ?case
  proof (cases "tagged_entry (wk_store w) e \<and> e \<notin> set (wk_seen w)")
    case True
    have "map (\<lambda>x. link_of r h x (the (get_entry (quarantine e (wk_store w)) x))) (fresh (wk_store w) (e # wk_seen w) es) =
        map (\<lambda>x. link_of r h x (the (get_entry (wk_store w) x))) (fresh (wk_store w) (e # wk_seen w) es)"
      by (rule map_cong [OF refl]) (auto simp: get_entry_quarantine set_fresh)
    with True show ?thesis by (simp add: Cons visit_entry_take)
  next
    case False
    then have "fresh (wk_store w) (wk_seen w) (e # es) = fresh (wk_store w) (wk_seen w) es" by (simp only: fresh.simps if_False)
    then show ?thesis by (simp only: foldl.simps visit_entry_skip [OF False] Cons)
  qed
qed simp

lemma same_poison_quarantines:
  "same_poison st st' qs \<Longrightarrow> same_poison st (foldl (\<lambda>s e. quarantine e s) st' ns) (set ns \<union> qs)"
proof (induction ns arbitrary: st' qs)
  case (Cons e ns)
  have "same_poison st (foldl (\<lambda>s e. quarantine e s) (quarantine e st') ns) (set ns \<union> insert e qs)"
    by (intro Cons.IH same_poison_quarantine Cons.prems)
  then show ?case by simp
qed simp

definition walk_sound :: "nat \<Rightarrow> bool \<Rightarrow> provenance \<Rightarrow> uuid \<Rightarrow> walk \<Rightarrow> bool" where
  "walk_sound n q st t w =
     (same_poison st (wk_store w) (if q then set (wk_seen w) else {}) \<and>
      ic_trigger_run_id (wk_chain w) = t \<and>
      ic_quarantined_entry_ids (wk_chain w) = (if q then poisoned_entry_ids (wk_chain w) else []) \<and>
      set (wk_seen w) = set (poisoned_entry_ids (wk_chain w)) \<and>
      distinct (poisoned_entry_ids (wk_chain w)) \<and>
      (\<forall>l \<in> set (ic_links (wk_chain w)). good_link n st t l) \<and>
      (\<forall>(r, h) \<in> set (wk_frontier w). influenced st t h r))"

definition walk_level :: "nat \<Rightarrow> provenance \<Rightarrow> uuid \<Rightarrow> nat \<Rightarrow> uuid list \<Rightarrow> uuid list \<Rightarrow> walk \<Rightarrow> bool" where
  "walk_level n st t d A B w =
     (1 \<le> d \<and>
      wk_frontier w = map (\<lambda>r. (r, d)) A @ map (\<lambda>r. (r, Suc d)) B \<and>
      (\<forall>k r. k < d \<longrightarrow> k \<le> n \<longrightarrow> influenced st t k r \<longrightarrow> r \<in> set (wk_visited w)) \<and>
      (\<forall>r. d \<le> n \<longrightarrow> influenced st t d r \<longrightarrow> r \<in> set (wk_visited w) \<union> set A) \<and>
      (\<forall>r \<in> set (wk_visited w). \<forall>e \<in> set (entries_read_in_run st r). tagged_entry st e \<longrightarrow> e \<in> set (wk_seen w)) \<and>
      (d \<le> n \<longrightarrow> (\<forall>e \<in> set (wk_seen w). writer_of st e \<in> set (wk_visited w) \<union> set A \<union> set B)))"

text \<open>One round of the loop on the front run \<open>r\<close>, unvisited and within the limit.\<close>

abbreviation visit_run :: "bool \<Rightarrow> uuid \<Rightarrow> nat \<Rightarrow> (uuid \<times> nat) list \<Rightarrow> walk \<Rightarrow> walk" where
  "visit_run q r h rest w \<equiv>
     foldl (visit_entry q r h) (w\<lparr> wk_frontier := rest, wk_visited := r # wk_visited w \<rparr>) (entries_read_in_run (wk_store w) r)"

lemma poisoned_ids_append:
  "map il_poisoned_entry_id (map (\<lambda>e. link_of r h e (f e)) ns) = ns"
  by (induction ns) (simp_all add: link_of_def)

lemma walk_sound_visit:
  assumes w: "walk_sound n q st t w" and front: "wk_frontier w = (r, h) # rest" and h: "h \<le> n"
  shows "walk_sound n q st t (visit_run q r h rest w)"
proof -
  let ?ns = "fresh (wk_store w) (wk_seen w) (entries_read_in_run (wk_store w) r)"
  have poison: "same_poison st (wk_store w) (if q then set (wk_seen w) else {})"
    and r: "influenced st t h r" using w front by (auto simp: walk_sound_def)
  have reads: "entries_read_in_run (wk_store w) r = entries_read_in_run st r"
    using poison by (simp add: same_poison_def)
  have ns: "e \<in> set (entries_read_in_run st r)" "tagged_entry st e" "e \<notin> set (wk_seen w)" if "e \<in> set ?ns" for e
    using that by (auto simp: set_fresh reads same_poison_tagged [OF poison])
  have get: "get_entry (wk_store w) e = get_entry st e" if "e \<in> set ?ns" for e
    using poison ns(3) [OF that] by (auto simp: same_poison_def option.map_ident)
  have link: "good_link n st t (link_of r h e (the (get_entry (wk_store w) e)))" if e: "e \<in> set ?ns" for e
    using ns [OF e] r h by (auto simp: good_link_def link_of_def get [OF e] tagged_entry_def split: option.splits)
  have next_run: "influenced st t (Suc h) (writer_of (wk_store w) e)" if e: "e \<in> set ?ns" for e
    using ns [OF e] influenced_writer [OF r ns(1) [OF e]]
    by (auto simp: writer_of_def get [OF e] tagged_entry_def split: option.splits)
  have "same_poison st (foldl (\<lambda>s e. quarantine e s) (wk_store w) ?ns) (set ?ns \<union> set (wk_seen w))" if q
    using same_poison_quarantines [OF poison] that by simp
  moreover have "distinct (poisoned_entry_ids (wk_chain w) @ ?ns)"
    using w ns(3) by (auto simp: walk_sound_def distinct_fresh)
  ultimately show ?thesis
    using w front link next_run poison
    by (auto simp: walk_sound_def visit_entries poisoned_entry_ids_def poisoned_ids_append simp del: map_map)
qed

lemma walk_level_visit:
  assumes w: "walk_level n st t d (r # A) B w" and s: "same_poison st (wk_store w) qs"
  shows "walk_level n st t d A (B @ map (writer_of st) (fresh st (wk_seen w) (entries_read_in_run st r)))
    (visit_run q r d (tl (wk_frontier w)) w)"
proof -
  have reads: "entries_read_in_run (wk_store w) r = entries_read_in_run st r"
    using s by (simp add: same_poison_def)
  have wr: "writer_of (wk_store w) = writer_of st" using same_poison_tagged(2) [OF s] by blast
  show ?thesis
    using w by (auto simp: walk_level_def visit_entries same_poison_tagged(3) [OF s] reads wr set_fresh)
qed

lemma walk_level_skip:
  assumes "walk_level n st t d (r # A) B w" and "n < d \<or> r \<in> set (wk_visited w)"
  shows "walk_level n st t d A B (w\<lparr> wk_frontier := tl (wk_frontier w) \<rparr>)"
  using assms by (auto simp: walk_level_def)

lemma influenced_next:
  assumes "influenced st t (Suc k) r" and "1 \<le> k"
  obtains r' e where "influenced st t k r'" "e \<in> set (entries_read_in_run st r')" "tagged_entry st e" "writer_of st e = r"
  using assms(1)
proof (cases rule: influenced.cases)
  case influenced_trigger
  with assms(2) show ?thesis by simp
next
  case (influenced_writer r' e m)
  with that show ?thesis by (auto simp: tagged_entry_def writer_of_def)
qed

lemma walk_level_shift:
  assumes "walk_level n st t d [] B w"
  shows "walk_level n st t (Suc d) B [] w"
proof -
  have d: "1 \<le> d"
    and frontier: "wk_frontier w = map (\<lambda>r. (r, Suc d)) B"
    and below: "\<And>k r. k < d \<Longrightarrow> k \<le> n \<Longrightarrow> influenced st t k r \<Longrightarrow> r \<in> set (wk_visited w)"
    and level: "\<And>r. d \<le> n \<Longrightarrow> influenced st t d r \<Longrightarrow> r \<in> set (wk_visited w)"
    and read: "\<And>r e. r \<in> set (wk_visited w) \<Longrightarrow> e \<in> set (entries_read_in_run st r) \<Longrightarrow> tagged_entry st e \<Longrightarrow>
      e \<in> set (wk_seen w)"
    and writers: "\<And>e. d \<le> n \<Longrightarrow> e \<in> set (wk_seen w) \<Longrightarrow> writer_of st e \<in> set (wk_visited w) \<union> set B"
    using assms by (simp_all add: walk_level_def)
  have step: "r \<in> set (wk_visited w) \<union> set B" if n: "Suc d \<le> n" and r: "influenced st t (Suc d) r" for r
  proof -
    obtain r' e where e: "influenced st t d r'" "e \<in> set (entries_read_in_run st r')" "tagged_entry st e" "writer_of st e = r"
      using influenced_next [OF r d] by blast
    have "e \<in> set (wk_seen w)" using level [OF _ e(1)] n by (intro read [OF _ e(2,3)]) simp
    then show ?thesis using writers [of e] n e(4) by simp
  qed
  show ?thesis
    unfolding walk_level_def
  proof (intro conjI)
    show "\<forall>k r. k < Suc d \<longrightarrow> k \<le> n \<longrightarrow> influenced st t k r \<longrightarrow> r \<in> set (wk_visited w)"
      using below level less_SucE by metis
    show "\<forall>r. Suc d \<le> n \<longrightarrow> influenced st t (Suc d) r \<longrightarrow> r \<in> set (wk_visited w) \<union> set B"
      using step by blast
    show "\<forall>r \<in> set (wk_visited w). \<forall>e \<in> set (entries_read_in_run st r). tagged_entry st e \<longrightarrow> e \<in> set (wk_seen w)"
      using read by blast
    show "Suc d \<le> n \<longrightarrow> (\<forall>e \<in> set (wk_seen w). writer_of st e \<in> set (wk_visited w) \<union> set B \<union> set [])"
      using writers by simp
  qed (simp_all add: frontier)
qed

lemma walk_level_end:
  assumes w: "walk_level n st t d [] [] w" and r: "influenced st t k r" and k: "k \<le> n"
  shows "r \<in> set (wk_visited w)"
proof -
  have "walk_level n st t (d + i) [] [] w" for i
    by (induction i) (simp_all add: w walk_level_shift)
  then have "\<forall>j r. j < d + Suc k \<longrightarrow> j \<le> n \<longrightarrow> influenced st t j r \<longrightarrow> r \<in> set (wk_visited w)"
    unfolding walk_level_def by blast
  from this [rule_format, of k r] r k show ?thesis by simp
qed

lemma influenced_pos: "influenced st t k r \<Longrightarrow> 0 < k"
  by (induction rule: influenced.induct) simp_all

lemma influenced_one: "influenced st t (Suc 0) r \<Longrightarrow> r = t"
  by (erule influenced_SucE) (auto dest: influenced_pos)

lemma walk_loop_inv:
  assumes "walk_sound n q st t w" and "walk_level n st t d A B w"
  shows "\<exists>d'. walk_sound n q st t (walk_loop n q w) \<and> walk_level n st t d' [] [] (walk_loop n q w)"
  using assms
proof (induction n q w arbitrary: d A B rule: walk_loop.induct)
  case (1 n q w)
  obtain d A B where level: "walk_level n st t d A B w" and front: "A = [] \<Longrightarrow> B = []"
    using "1.prems"(2) walk_level_shift by (cases "A = []") blast+
  show ?case
  proof (cases A)
    case Nil
    then have "walk_loop n q w = w"
      using level front by (simp add: walk_loop.simps [of n q w] walk_level_def)
    with Nil level front "1.prems"(1) show ?thesis by auto
  next
    case (Cons r A')
    define rest where "rest = tl (wk_frontier w)"
    have f: "wk_frontier w = (r, d) # rest" using level Cons by (simp add: walk_level_def rest_def)
    show ?thesis
    proof (cases "n < d \<or> r \<in> set (wk_visited w)")
      case True
      have "walk_sound n q st t (w\<lparr> wk_frontier := rest \<rparr>)"
        using "1.prems"(1) f by (auto simp: walk_sound_def)
      moreover have "walk_level n st t d A' B (w\<lparr> wk_frontier := rest \<rparr>)"
        using walk_level_skip [OF level [unfolded Cons] True] by (simp add: rest_def)
      moreover have "walk_loop n q w = walk_loop n q (w\<lparr> wk_frontier := rest \<rparr>)"
        using True f by (simp add: walk_loop.simps [of n q w])
      ultimately show ?thesis using "1.IH"(1) [OF f refl refl] True by simp
    next
      case False
      let ?w = "visit_run q r d rest w"
      have "walk_sound n q st t ?w" using walk_sound_visit [OF "1.prems"(1) f] False by simp
      moreover have "same_poison st (wk_store w) (if q then set (wk_seen w) else {})"
        using "1.prems"(1) by (simp add: walk_sound_def)
      then have "\<exists>B'. walk_level n st t d A' B' ?w"
        using walk_level_visit [OF level [unfolded Cons]] by (auto simp: rest_def)
      moreover have "walk_loop n q w = walk_loop n q ?w"
        using False f by (simp add: walk_loop.simps [of n q w])
      ultimately show ?thesis using "1.IH"(2) [OF f refl refl] False by auto
    qed
  qed
qed

section \<open>Tagging\<close>

lemma f64_04_exact: "rnd64 (rnd64 (2 / 5)) = rnd64 (2 / 5)"
  by code_simp

lemma injection_score_marks:
  "SUSPICION_THRESHOLD \<le> injection_score s \<longleftrightarrow> (\<exists>(_, r) \<in> set INJECTION_PATTERNS. re_search r s)"
proof (cases "filter (\<lambda>(_, r). re_search r s) INJECTION_PATTERNS = []")
  case True
  have "\<not> SUSPICION_THRESHOLD \<le> 0" by code_simp
  with True show ?thesis by (auto simp: injection_score_def filter_empty_conv)
next
  case False
  let ?x = "fmul (f64 (2 / 10)) (of_nat (length (filter (\<lambda>(_, r). re_search r s) INJECTION_PATTERNS)))"
  have "0 \<le> f64 (2 / 10)" by (rule rnd64_nonneg) simp
  then have "0 \<le> ?x" by (simp add: fmul_def rnd64_nonneg)
  then have "rnd64 (f64 (4 / 10)) \<le> fadd (f64 (4 / 10)) ?x" unfolding fadd_def by (intro rnd64_mono) simp
  moreover have "SUSPICION_THRESHOLD \<le> 1" by code_simp
  ultimately have "SUSPICION_THRESHOLD \<le> injection_score s"
    using False by (simp add: injection_score_def Let_def f64_04_exact SUSPICION_THRESHOLD_def)
  with False show ?thesis by (auto simp: filter_empty_conv)
qed

text \<open>Any single marker in content from an untrusted source is enough, and nothing else tags an entry.\<close>

lemma write_entry_tags:
  "get_entry (snd (write_entry m st)) (me_entry_id m) = Some (tag_entry m) \<and>
   me_tagged (tag_entry m) =
     (me_tagged m \<or> me_source m \<in> set UNTRUSTED_SOURCES \<and>
        (\<exists>(_, r) \<in> set INJECTION_PATTERNS. re_search r (me_content m)))"
proof -
  have "me_entry_id (tag_entry m) = me_entry_id m" by (simp add: tag_entry_def Let_def)
  then show ?thesis
    unfolding injection_score_marks [symmetric]
    by (auto simp: write_entry_def get_entry_def update_conv Let_def tag_entry_def)
qed

lemma walk_influence_chain_spec:
  fixes n :: nat and q :: bool and st :: provenance and t :: uuid
  defines "c \<equiv> fst (walk_influence_chain n q st t)" and "st' \<equiv> snd (walk_influence_chain n q st t)"
  shows "set (poisoned_entry_ids c) = poisoned_within n st t \<and> distinct (poisoned_entry_ids c) \<and>
    list_all (good_link n st t) (ic_links c) \<and>
    ic_quarantined_entry_ids c = (if q then poisoned_entry_ids c else []) \<and>
    same_poison st st' (if q then poisoned_within n st t else {})"
proof -
  define w0 where "w0 = \<lparr> wk_store = st,
      wk_chain = \<lparr> ic_trigger_run_id = t, ic_links = [], ic_quarantined_entry_ids = [] \<rparr>,
      wk_seen = [], wk_visited = [], wk_frontier = [(t, 1)] \<rparr>"
  define w where "w = walk_loop n q w0"
  have c: "c = wk_chain w" "st' = wk_store w"
    by (simp_all add: c_def st'_def walk_influence_chain_def w_def w0_def Let_def)
  have "walk_sound n q st t w0"
    by (simp add: walk_sound_def w0_def same_poison_refl poisoned_entry_ids_def influenced_trigger [simplified])
  moreover have "walk_level n st t 1 [t] [] w0"
    by (auto simp: walk_level_def w0_def dest: influenced_one influenced_pos)
  ultimately obtain d where sound: "walk_sound n q st t w" and level: "walk_level n st t d [] [] w"
    using walk_loop_inv unfolding w_def by blast
  have "set (poisoned_entry_ids c) = poisoned_within n st t"
  proof
    show "set (poisoned_entry_ids c) \<subseteq> poisoned_within n st t"
      using sound by (fastforce simp: walk_sound_def c poisoned_entry_ids_def good_link_def poisoned_within_def tagged_entry_def)
    show "poisoned_within n st t \<subseteq> set (poisoned_entry_ids c)"
      using sound level walk_level_end [OF level]
      by (fastforce simp: walk_sound_def walk_level_def c poisoned_within_def)
  qed
  with sound show ?thesis by (auto simp: walk_sound_def c list_all_iff split: if_splits)
qed

section \<open>Properties\<close>

text \<open>C18. Walking back from a run ends on every store. It reports, each once and as a correct link, exactly
  the tagged entries that some run on a chain of at most \<^verbatim>\<open>max_hops\<close> poisoned reads from the trigger has
  read; with quarantine on, exactly these entries end up quarantined, and nothing else of the store
  changes.\<close>

theorem influence_chain_exact:
  fixes n :: nat and q :: bool and st :: provenance and t :: uuid
  defines "c \<equiv> fst (walk_influence_chain n q st t)" and "st' \<equiv> snd (walk_influence_chain n q st t)"
  shows "set (poisoned_entry_ids c) = poisoned_within n st t \<and> distinct (poisoned_entry_ids c) \<and>
    list_all (good_link n st t) (ic_links c) \<and>
    ic_quarantined_entry_ids c = (if q then poisoned_entry_ids c else []) \<and>
    same_poison st st' (if q then poisoned_within n st t else {})"
  unfolding c_def st'_def by (rule walk_influence_chain_spec)

end
