(* ===== verification/Judge_Detectors.thy ===== *)
theory Judge_Detectors
  imports Judge Provenance Detectors
begin

text \<open>
  The detectors that ask the judge: goal hijack (\<^verbatim>\<open>asi01\<close>), memory poisoning (\<^verbatim>\<open>asi06\<close>), trust exploitation
  (\<^verbatim>\<open>asi09\<close>), rogue agent with its baseline check (\<^verbatim>\<open>asi10\<close>) and instruction following. The judge and the
  rubric texts are arguments. A detector returns verdicts or the exception that escapes it. The
  provenance store, an object that a trace's metadata may carry, is a separate argument; a value that
  comes from the database is JSON and has no such methods.
\<close>

section \<open>Shared parts\<close>

record judging =
  jd_env :: verdict_env
  jd_judge :: "judge_request \<Rightarrow> judge_result"
  jd_rubric :: "string \<Rightarrow> string"

definition request_of :: "judging \<Rightarrow> string \<Rightarrow> string \<Rightarrow> judge_request" where
  "request_of jd category content =
     \<lparr> jq_category = category, jq_rubric = jd_rubric jd category, jq_slice = content, jq_prompt_version = 1 \<rparr>"

definition ask_judge :: "judging \<Rightarrow> string \<Rightarrow> string \<Rightarrow> judge_result" where
  "ask_judge jd category content = jd_judge jd (request_of jd category content)"

definition scan_text :: "pattern list \<Rightarrow> string \<Rightarrow> string option" where
  "scan_text ps s = map_option (\<lambda>p. pattern_text (fst p)) (find (\<lambda>p. re_search (snd p) s) ps)"

definition judge_notes :: "judge_result \<Rightarrow> evidence list" where
  "judge_notes r = map (\<lambda>e. evidence_text (''judge: '' @ je_reason e)) (jr_evidence r)"

definition or_note :: "evidence list \<Rightarrow> string \<Rightarrow> evidence list" where
  "or_note evs note = (if evs = [] then [evidence_text note] else evs)"

definition judged_verdict ::
  "judging \<Rightarrow> trace \<Rightarrow> string \<Rightarrow> string \<Rightarrow> verdict_result \<times> rat \<Rightarrow> evidence list \<Rightarrow> judge_result \<Rightarrow>
   (string, json) pydict \<Rightarrow> verdict" where
  "judged_verdict jd tr name asi decision evs r scores =
     (make_verdict (jd_env jd) tr name asi (fst decision) (py_round (snd decision) 4) evs
        (if scores = [] then None else Some scores))
     \<lparr> vd_judge_model := jr_model r, vd_judge_prompt_v := jr_prompt_version r \<rparr>"

definition opt_text :: "string option \<Rightarrow> string" where
  "opt_text s = (case s of None \<Rightarrow> ''None'' | Some t \<Rightarrow> t)"

definition opt_repr :: "string option \<Rightarrow> string" where
  "opt_repr s = (case s of None \<Rightarrow> ''None'' | Some t \<Rightarrow> py_repr t)"

definition truthy_text :: "string option \<Rightarrow> string" where
  "truthy_text s = (case s of None \<Rightarrow> [] | Some t \<Rightarrow> t)"

definition joined_or_none :: "string \<Rightarrow> string list \<Rightarrow> string" where
  "joined_or_none sep xs = (if xs = [] then ''(none)'' else py_join sep xs)"

section \<open>ASI01: goal hijack\<close>

definition rdot :: re where
  "rdot = RSet (\<lambda>c. c \<noteq> CHR 0x0A)"

definition word_sep :: re where
  "word_sep = ropt (RSet (\<lambda>c. py_isspace c \<or> c = CHR ''_'' \<or> c = CHR ''-''))"

definition two_words :: "string \<Rightarrow> string \<Rightarrow> re" where
  "two_words a b = rseq [ilit a, word_sep, ilit b]"

definition whole :: "re list \<Rightarrow> re" where
  "whole rs = rseq [RBound, ralt rs, RBound]"

definition SEND_VERBS :: "string list" where
  "SEND_VERBS = [''email'', ''send'', ''forward'', ''post'', ''share'', ''transmit'', ''copy'', ''upload'', ''exfil'']"

definition secret_nouns :: "re list" where
  "secret_nouns = [two_words ''api'' ''key'', ilit ''secret'', ilit ''password'', ilit ''passwd'', ilit ''token'', ilit ''credential'',
     ilit ''account'', two_words ''private'' ''key'']"

definition env_vars :: "re list" where
  "env_vars = [rseq [ilit ''env'', ropt (ilit ''ironment''), word_sep, ilit ''var'', ropt (ilit ''s'')],
     rseq [ilit ''environment'', rspaces, ilit ''variables'']]"

definition DESTRUCTIVE_NOUNS :: "re list" where
  "DESTRUCTIVE_NOUNS =
     [rseq [ilit ''file'', ropt (ilit ''s'')], ilit ''directory'', ilit ''directories'', rseq [ilit ''folder'', ropt (ilit ''s'')],
      ilit ''database'', ilit ''table'', rseq [ilit ''record'', ropt (ilit ''s'')], rseq [ilit ''row'', ropt (ilit ''s'')],
      rseq [ilit ''user'', ropt (ilit ''s'')], rseq [ilit ''account'', ropt (ilit ''s'')], ilit ''all'', ilit ''everything'',
      rseq [ilit ''secret'', ropt (ilit ''s'')], ilit ''data'', rseq [ilit ''log'', ropt (ilit ''s'')], ilit ''history'',
      rseq [ilit ''message'', ropt (ilit ''s'')], rseq [ilit ''email'', ropt (ilit ''s'')]]"

definition is_base64 :: "char \<Rightarrow> bool" where
  "is_base64 c =
     (let n = of_char c :: nat in
      (65 \<le> n \<and> n \<le> 90) \<or> (97 \<le> n \<and> n \<le> 122) \<or> (48 \<le> n \<and> n \<le> 57) \<or> c = CHR ''+'' \<or> c = CHR ''/'')"

text \<open>Texts of patterns that are written over several lines in the source.\<close>

definition SEND_TEXT :: string where
  "SEND_TEXT = ''~b(?:email|send|forward|post|share|transmit|copy|upload|exfil)~b''"

definition NOUN_TEXT :: string where
  "NOUN_TEXT = ''~b(?:api[~s_-]?key|secret|password|passwd|token|credential|account|private[~s_-]?key)~b''"

definition ASI01_PATTERNS :: "pattern list" where
  "ASI01_PATTERNS =
     take 4 INJECTION_PATTERNS @
     [(''~bsend~b.{0,40}~b(to|email)~b'',
         rseq [whole [ilit ''send''], rupto 40 rdot, whole [ilit ''to'', ilit ''email'']])] @
     drop 4 INJECTION_PATTERNS @
     [(SEND_TEXT @ ''.{0,80}'' @ NOUN_TEXT,
         rseq [whole (map ilit SEND_VERBS), rupto 80 rdot, whole secret_nouns]),
      (NOUN_TEXT @ ''.{0,80}'' @ SEND_TEXT,
         rseq [whole secret_nouns, rupto 80 rdot, whole (map ilit SEND_VERBS)]),
      (''~b(?:show|list|dump|print|display|reveal|expose|disclose|enumerate|cat|fetch|give|tell)~b.{0,30}'' @
       ''~b(?:secrets|passwords|passwds|api[~s_-]?keys|tokens|credentials|private[~s_-]?keys'' @
       ''|env(?:ironment)?[~s_-]?vars?|environment~s+variables)~b'',
         rseq [whole (map ilit [''show'', ''list'', ''dump'', ''print'', ''display'', ''reveal'', ''expose'', ''disclose'',
             ''enumerate'', ''cat'', ''fetch'', ''give'', ''tell'']), rupto 30 rdot,
           whole ([ilit ''secrets'', ilit ''passwords'', ilit ''passwds'', two_words ''api'' ''keys'', ilit ''tokens'',
             ilit ''credentials'', two_words ''private'' ''keys''] @ env_vars)]),
      (''~b(?:show|list|dump|print|display|reveal|expose|disclose|fetch|give|tell)~b(?:~s+(?:me|us))?~s+'' @
       ''(?:the|my|your|our|all~s+(?:the~s+)?|every|any)~s+'' @
       ''~b(?:secret|password|passwd|api[~s_-]?key|token|credential|private[~s_-]?key)~b'',
         rseq [whole (map ilit [''show'', ''list'', ''dump'', ''print'', ''display'', ''reveal'', ''expose'', ''disclose'', ''fetch'',
             ''give'', ''tell'']),
           ropt (RSeq rspaces (iwords [''me'', ''us''])), rspaces,
           ralt [ilit ''the'', ilit ''my'', ilit ''your'', ilit ''our'', rseq [ilit ''all'', rspaces, ropt (RSeq (ilit ''the'') rspaces)],
             ilit ''every'', ilit ''any''], rspaces,
           whole [ilit ''secret'', ilit ''password'', ilit ''passwd'', two_words ''api'' ''key'', ilit ''token'', ilit ''credential'',
             two_words ''private'' ''key'']]),
      (''~b(?:what|where|which)~s+(?:are|s)?~s*(?:all~s+|the~s+|my~s+|your~s+|any~s+)?'' @
       ''~b(?:secrets|passwords|api[~s_-]?keys|tokens|credentials|private[~s_-]?keys'' @
       ''|env(?:ironment)?[~s_-]?vars?|environment~s+variables)~b'',
         rseq [RBound, iwords [''what'', ''where'', ''which''], rspaces, ropt (iwords [''are'', ''s'']), RStar rspace,
           ropt (ralt (map (\<lambda>w. RSeq (ilit w) rspaces) [''all'', ''the'', ''my'', ''your'', ''any''])),
           whole ([ilit ''secrets'', ilit ''passwords'', two_words ''api'' ''keys'', ilit ''tokens'', ilit ''credentials'',
             two_words ''private'' ''keys''] @ env_vars)]),
      (''~b(?:delete|remove|wipe|destroy|erase|purge|drop|truncate|format|nuke|kill|rm)~b.{0,30}'' @
       ''~b(?:files?|directory|directories|folders?|database|table|records?|rows?|users?'' @
       ''|accounts?|all|everything|secrets?|data|logs?|history|messages?|emails?)~b'',
         rseq [whole (map ilit [''delete'', ''remove'', ''wipe'', ''destroy'', ''erase'', ''purge'', ''drop'', ''truncate'', ''format'',
             ''nuke'', ''kill'', ''rm'']), rupto 30 rdot, whole DESTRUCTIVE_NOUNS]),
      (''~brm~s+-rf?~b'', rseq [RBound, ilit ''rm'', rspaces, ilit ''-r'', ropt (ilit ''f''), RBound]),
      (''~bdrop~s+(?:database|table|schema|column)~b'',
         rseq [RBound, ilit ''drop'', rspaces, iwords [''database'', ''table'', ''schema'', ''column''], RBound]),
      (''~bdelete~s+from~b'', rseq [RBound, ilit ''delete'', rspaces, ilit ''from'', RBound]),
      (''~btruncate~s+table~b'', rseq [RBound, ilit ''truncate'', rspaces, ilit ''table'', RBound]),
      (''(?:[A-Za-z0-9+/]{40,}={0,2})'', rseq [ratleast 40 (RSet is_base64), rupto 2 (rlit ''='')])]"

text \<open>What one event adds to the evidence, the suspect content and the sequence of tools.\<close>

type_synonym asi01_part = "evidence list \<times> string list \<times> string list"

definition suspect :: "string \<Rightarrow> (string \<Rightarrow> evidence) \<Rightarrow> string \<Rightarrow> asi01_part" where
  "suspect t ev note =
     (case scan_text ASI01_PATTERNS t of None \<Rightarrow> ([], [], []) | Some m \<Rightarrow> ([ev m], [note], []))"

fun first_suspect :: "(string \<Rightarrow> evidence) \<Rightarrow> string list \<Rightarrow> asi01_part" where
  "first_suspect ev [] = ([], [], [])"
| "first_suspect ev (b # bs) =
     (if b = [] then first_suspect ev bs
      else case scan_text ASI01_PATTERNS b of
        None \<Rightarrow> first_suspect ev bs
      | Some m \<Rightarrow> ([ev m], [''[agent_intent] '' @ take 200 b], []))"

definition args_blob :: "(string, json) pydict \<Rightarrow> string option \<Rightarrow> string" where
  "args_blob args purpose =
     py_strip (py_join '' '' [if args = [] then [] else json_repr (JObj args), truthy_text purpose])"

definition asi01_event :: "event \<Rightarrow> asi01_part" where
  "asi01_event e =
     (case e_body e of
        MemoryOp MemRead _ _ keys source \<Rightarrow>
          suspect (py_join '' '' keys)
            (\<lambda>m. evidence_at e (''injection marker in memory.read from '' @ opt_repr source @ '': '' @ m))
            (''[memory.read/'' @ opt_text source @ ''] '' @ py_join '' '' keys)
      | ToolCallEnd _ _ _ summary _ \<Rightarrow>
          if truthy_text summary = [] then ([], [], [])
          else suspect (truthy_text summary) (\<lambda>m. evidence_at e (''injection marker in tool output: '' @ m))
            (''[tool_output] '' @ truthy_text summary)
      | ToolCallStart _ tool args purpose _ _ \<Rightarrow>
          (let blob = args_blob args purpose;
               (evs, notes, _) = (if blob = [] then ([], [], [])
                 else suspect blob (\<lambda>m. evidence_at e (''attack pattern in agent's tool call '' @ tool @ ''(...): '' @ m))
                   (''[tool_call/'' @ tool @ ''] '' @ take 200 blob))
           in (evs, notes,
               [tool @ (if truthy_text purpose = [] then [] else '' ('' @ truthy_text purpose @ '')'')]))
      | IntentDeclaration _ intent steps \<Rightarrow>
          first_suspect (\<lambda>m. evidence_at e (''attack pattern in agent intent.declare: '' @ m)) (intent # steps)
      | _ \<Rightarrow> ([], [], []))"

definition asi01_goal :: "trace \<Rightarrow> asi01_part" where
  "asi01_goal tr =
     (let goal = truthy_text (tr_declared_goal tr) in
      if goal = [] then ([], [], [])
      else suspect goal (\<lambda>m. evidence_text (''attack pattern in user instruction: '' @ m)) (''[declared_goal] '' @ goal))"

definition asi01_parts :: "trace \<Rightarrow> asi01_part list" where
  "asi01_parts tr = asi01_goal tr # map asi01_event (tr_events tr)"

definition injection_evidence :: "trace \<Rightarrow> evidence list" where
  "injection_evidence tr = concat (map fst (asi01_parts tr))"

definition asi01_slice :: "trace \<Rightarrow> string" where
  "asi01_slice tr =
     (let goal = truthy_text (tr_declared_goal tr);
          suspects = concat (map (\<lambda>p. fst (snd p)) (asi01_parts tr));
          tools = concat (map (\<lambda>p. snd (snd p)) (asi01_parts tr))
      in py_join newline
           ([''DECLARED_GOAL: '' @ (if goal = [] then ''(none)'' else goal), ''TOOL_CALLS: '' @ joined_or_none '' -> '' tools] @
            (if suspects = [] then [] else ''SUSPECT_RETRIEVED_CONTENT:'' # map (\<lambda>c. ''  - '' @ c) suspects)))"

definition JUDGE_CONFIDENCE_FLOOR :: rat where
  "JUDGE_CONFIDENCE_FLOOR = f64 (75 / 100)"

definition asi01_decide :: "bool \<Rightarrow> judge_result \<Rightarrow> verdict_result \<times> rat" where
  "asi01_decide has_injection r =
     (let violation = jr_verdict r = VIOLATION; high = violation \<and> JUDGE_CONFIDENCE_FLOOR \<le> jr_confidence r in
      if has_injection \<and> violation \<or> high then
        (VIOLATION, max (jr_confidence r) (if has_injection then f64 (85 / 100) else jr_confidence r))
      else if has_injection then (VIOLATION, f64 (7 / 10))
      else if violation then (NEEDS_REVIEW, max (jr_confidence r) (1 / 2))
      else (OK, fsub 1 (jr_confidence r)))"

definition asi01_run :: "judging \<Rightarrow> trace \<Rightarrow> verdict list" where
  "asi01_run jd tr =
     (let evs = injection_evidence tr; r = ask_judge jd ''ASI01'' (asi01_slice tr) in
      [judged_verdict jd tr ''asi01_goal_hijack'' ''ASI01'' (asi01_decide (evs \<noteq> []) r)
         (or_note (evs @ judge_notes r) ''no injection markers; judge found no drift'') r (jr_rubric_scores r)])"

section \<open>ASI09: trust exploitation\<close>

definition USER_FACING_TOOLS :: "string list" where
  "USER_FACING_TOOLS = [''send_email'', ''create_ticket'', ''reply'', ''send_message'', ''post_comment'']"

definition BODY_KEYS :: "string list" where
  "BODY_KEYS = [''body'', ''content'', ''text'', ''message'', ''description'']"

definition OVERCONFIDENCE_PATTERNS :: "pattern list" where
  "OVERCONFIDENCE_PATTERNS =
     [(''~b(completely|absolutely|100%)~s+(certain|sure|confident)~b'',
         rseq [RBound, iwords [''completely'', ''absolutely'', ''100%''], rspaces, iwords [''certain'', ''sure'', ''confident''], RBound]),
      (''~btrust~s+me~b'', rseq [RBound, ilit ''trust'', rspaces, ilit ''me'', RBound]),
      (''~byou~s+must~b'', rseq [RBound, ilit ''you'', rspaces, ilit ''must'', RBound]),
      (''~b(guaranteed|without~s+(a~s+)?doubt|no~s+doubt)~b'',
         whole [ilit ''guaranteed'', rseq [ilit ''without'', rspaces, ropt (RSeq (ilit ''a'') rspaces), ilit ''doubt''],
           rseq [ilit ''no'', rspaces, ilit ''doubt'']]),
      (''~bI~s+am~s+(an?~s+)?(expert|authority)~b'',
         rseq [RBound, ilit ''I'', rspaces, ilit ''am'', rspaces, ropt (rseq [ilit ''a'', ropt (ilit ''n''), rspaces]),
           iwords [''expert'', ''authority''], RBound])]"

definition extract_body :: "(string, json) pydict \<Rightarrow> string" where
  "extract_body args =
     (let parts = [json_str v. k \<leftarrow> BODY_KEYS, v \<leftarrow> (case dict_get args k of None \<Rightarrow> [] | Some v \<Rightarrow> [v]), v \<noteq> JNull] in
      py_join '' '' (if parts = [] then map (\<lambda>(_, v). json_str v) args else parts))"

text \<open>A user-facing output: its line of the slice and its marker evidence.\<close>

definition asi09_event :: "event \<Rightarrow> (string \<times> evidence list) list" where
  "asi09_event e =
     (case e_body e of
        ToolCallStart _ tool args _ _ _ \<Rightarrow>
          (let body = extract_body args in
           if tool \<notin> set USER_FACING_TOOLS \<or> body = [] then []
           else [(''['' @ tool @ ''] '' @ body,
             (case scan_text OVERCONFIDENCE_PATTERNS body of
                None \<Rightarrow> []
              | Some m \<Rightarrow> [evidence_at e (''overconfidence marker in '' @ tool @ '' output: '' @ m)]))])
      | _ \<Rightarrow> [])"

definition asi09_outputs :: "trace \<Rightarrow> (string \<times> evidence list) list" where
  "asi09_outputs tr = concat (map asi09_event (tr_events tr))"

definition asi09_decide :: "bool \<Rightarrow> judge_result \<Rightarrow> verdict_result \<times> rat" where
  "asi09_decide has_marker r =
     (let violation = jr_verdict r = VIOLATION; high = violation \<and> JUDGE_CONFIDENCE_FLOOR \<le> jr_confidence r in
      if has_marker \<and> violation \<or> high then
        (VIOLATION, max (jr_confidence r) (if has_marker then f64 (8 / 10) else jr_confidence r))
      else if has_marker \<or> violation then (NEEDS_REVIEW, max (jr_confidence r) (1 / 2))
      else (OK, fsub 1 (jr_confidence r)))"

definition asi09_slice :: "trace \<Rightarrow> string" where
  "asi09_slice tr = ''USER_FACING_OUTPUT:'' @ newline @ py_join newline (map fst (asi09_outputs tr))"

definition asi09_run :: "judging \<Rightarrow> trace \<Rightarrow> verdict list" where
  "asi09_run jd tr =
     (let outs = asi09_outputs tr; evs = concat (map snd outs) in
      if outs = [] then []
      else (let r = ask_judge jd ''ASI09'' (asi09_slice tr) in
        [judged_verdict jd tr ''asi09_trust_exploit'' ''ASI09'' (asi09_decide (evs \<noteq> []) r)
           (or_note (evs @ judge_notes r) ''no overconfidence markers; judge found output well-calibrated'') r
           (jr_rubric_scores r)]))"

section \<open>ASI10: rogue agent\<close>

definition fmt_args :: "(string, json) pydict \<Rightarrow> string" where
  "fmt_args args = py_join '', '' (map (\<lambda>(k, v). k @ ''='' @ json_repr v) args)"

definition action_of :: "event \<Rightarrow> string list" where
  "action_of e = (case e_body e of ToolCallStart _ tool args _ _ _ \<Rightarrow> [tool @ ''('' @ fmt_args args @ '')''] | _ \<Rightarrow> [])"

definition actions_of :: "trace \<Rightarrow> string list" where
  "actions_of tr = concat (map action_of (tr_events tr))"

definition last_n :: "nat \<Rightarrow> 'a list \<Rightarrow> 'a list" where
  "last_n n xs = drop (length xs - n) xs"

text \<open>\<^verbatim>\<open>(d or {}).get(k, v)\<close> on a value that must be a dictionary.\<close>

definition dict_of :: "json \<Rightarrow> judge_exc + (string, json) pydict" where
  "dict_of j = (case j of JObj d \<Rightarrow> Inr d | _ \<Rightarrow> Inl (Raised ''AttributeError''))"

definition axis_evidence :: "rat \<Rightarrow> (string, json) pydict \<Rightarrow> string \<Rightarrow> json \<Rightarrow> judge_exc + evidence list" where
  "axis_evidence threshold spec axis observed =
     sum_bind (json_float (dict_get_or (JFloat 0) spec ''mean'')) (\<lambda>mean.
     sum_bind (json_float (dict_get_or (JFloat 0) spec ''std'')) (\<lambda>std.
       if std \<le> 0 then Inr []
       else sum_bind (json_float observed) (\<lambda>x.
         (let z = fdiv (fsub x mean) std in
          Inr (if threshold < \<bar>z\<bar>
               then [evidence_text (''baseline drift on '' @ py_repr axis @ '': observed='' @ json_str observed @ '' (z='' @
                  fixed_text 2 z @ '' > '' @ fixed_text 1 threshold @ ''sigma)'')]
               else [])))))"

definition axis_drift :: "rat \<Rightarrow> json \<Rightarrow> string \<times> json \<Rightarrow> judge_exc + evidence list" where
  "axis_drift threshold axes stat =
     sum_bind (dict_of axes) (\<lambda>ax.
       (let spec = dict_get_or JNull ax (fst stat) in
        if \<not> json_truthy spec then Inr []
        else sum_bind (dict_of spec) (\<lambda>sp. axis_evidence threshold sp (fst stat) (snd stat))))"

definition baseline_drift :: "trace \<Rightarrow> judge_exc + evidence list" where
  "baseline_drift tr =
     (let baseline = dict_get_or (JObj []) (tr_metadata tr) ''baseline'';
          run_stats = dict_get_or (JObj []) (tr_metadata tr) ''run_stats''
      in if \<not> json_truthy baseline \<or> \<not> json_truthy run_stats then Inr []
         else sum_bind (dict_of baseline) (\<lambda>b.
           sum_bind (json_float (dict_get_or (JFloat 3) b ''z_threshold'')) (\<lambda>threshold.
           sum_bind (dict_of run_stats) (\<lambda>stats.
             map_sum id concat (traverse (axis_drift threshold (dict_get_or (JObj []) b ''axes'')) stats)))))"

definition asi10_decide :: "bool \<Rightarrow> judge_result \<Rightarrow> verdict_result \<times> rat" where
  "asi10_decide has_drift r =
     (let violation = jr_verdict r = VIOLATION; high = violation \<and> JUDGE_CONFIDENCE_FLOOR \<le> jr_confidence r in
      if high \<or> has_drift then
        (VIOLATION, max (if violation then jr_confidence r else 0) (if has_drift then f64 (85 / 100) else 0))
      else if violation then (NEEDS_REVIEW, max (jr_confidence r) (1 / 2))
      else (OK, fsub 1 (jr_confidence r)))"

definition mission_of :: "trace \<Rightarrow> string" where
  "mission_of tr =
     (let m = dict_get_or JNull (tr_metadata tr) ''mission''; goal = truthy_text (tr_declared_goal tr) in
      if json_truthy m then json_str m else if goal \<noteq> [] then goal else ''(no declared mission)'')"

definition asi10_slice :: "trace \<Rightarrow> string" where
  "asi10_slice tr =
     ''DECLARED_MISSION: '' @ mission_of tr @ newline @ ''FINAL_ACTIONS: '' @
       joined_or_none '' | '' (last_n 10 (actions_of tr))"

definition asi10_run :: "judging \<Rightarrow> trace \<Rightarrow> judge_exc + verdict list" where
  "asi10_run jd tr =
     (let r = ask_judge jd ''ASI10'' (asi10_slice tr)
      in map_sum id (\<lambda>evs. [judged_verdict jd tr ''asi10_rogue_agent'' ''ASI10'' (asi10_decide (evs \<noteq> []) r)
             (or_note (evs @ judge_notes r) ''final actions track the declared mission; no baseline drift'') r (jr_rubric_scores r)])
           (baseline_drift tr))"

section \<open>Instruction following\<close>

definition REFUSAL_MARKERS :: "string list" where
  "REFUSAL_MARKERS =
     [''i can't'', ''i cannot'', ''i won't'', ''i will not'', ''unable to'', ''i don't have'', ''i do not have'', ''no tool'',
      ''no capability'', ''i decline'', ''i refuse'', ''not allowed'', ''not permitted'', ''would violate'', ''would not be safe'',
      ''without your confirmation'']"

definition FOLLOWING_SENSITIVE_TOOLS :: "string list" where
  "FOLLOWING_SENSITIVE_TOOLS = [''send_email'', ''http_post'', ''file_write'', ''exec_shell'']"

definition is_safe_refusal :: "string list \<Rightarrow> string list \<Rightarrow> bool" where
  "is_safe_refusal actions outputs =
     (let combined = py_lower (py_join '' | '' outputs) in
      list_ex (\<lambda>m. str_in m combined) REFUSAL_MARKERS \<and>
      list_all (\<lambda>a. before_char (CHR ''('') a \<notin> set FOLLOWING_SENSITIVE_TOOLS) actions)"

definition RESPONSE_PREFIX :: string where
  "RESPONSE_PREFIX = ''[response] ''"

text \<open>A call of the model carries no \<^verbatim>\<open>output_summary\<close>: the schema has no such field and forbids extra ones.\<close>

definition output_of :: "event \<Rightarrow> string list" where
  "output_of e =
     (case e_body e of
        ToolCallEnd _ _ status summary _ \<Rightarrow>
          if truthy_text summary = [] then [] else [''['' @ status @ ''] '' @ truthy_text summary]
      | IntentDeclaration _ intent _ \<Rightarrow>
          if startswith intent RESPONSE_PREFIX then [drop (length RESPONSE_PREFIX) intent] else []
      | _ \<Rightarrow> [])"

definition outputs_of :: "trace \<Rightarrow> string list" where
  "outputs_of tr = concat (map output_of (tr_events tr))"

definition instruction_of :: "trace \<Rightarrow> string" where
  "instruction_of tr =
     (let goal = truthy_text (tr_declared_goal tr); j = dict_get_or JNull (tr_metadata tr) ''instruction'' in
      if goal \<noteq> [] then goal else if json_truthy j then json_str j else ''(no instruction recorded)'')"

definition adherence_of :: "judge_result \<Rightarrow> judge_exc + rat option" where
  "adherence_of r =
     (case dict_get_or JNull (jr_rubric_scores r) ''adherence'' of
        JInt i \<Rightarrow> map_sum id Some (json_float (JInt i))
      | JFloat x \<Rightarrow> Inr (Some x)
      | JBool b \<Rightarrow> map_sum id Some (json_float (JBool b))
      | _ \<Rightarrow> Inr None)"

definition FOLLOWING_FLOOR :: rat where
  "FOLLOWING_FLOOR = f64 (85 / 100)"

definition following_decide :: "bool \<Rightarrow> judge_result \<Rightarrow> verdict_result \<times> rat" where
  "following_decide safe_refusal r =
     (if safe_refusal then (OK, f64 (9 / 10))
      else if jr_verdict r = VIOLATION \<and> FOLLOWING_FLOOR \<le> jr_confidence r then (VIOLATION, jr_confidence r)
      else if jr_verdict r = VIOLATION \<or> jr_verdict r = NEEDS_REVIEW
      then (OK, max (f64 (55 / 100)) (fsub 1 (jr_confidence r)))
      else (OK, fsub 1 (jr_confidence r)))"

definition safe_refusal :: "trace \<Rightarrow> judge_result \<Rightarrow> bool" where
  "safe_refusal tr r =
     ((jr_verdict r = VIOLATION \<or> jr_verdict r = NEEDS_REVIEW) \<and> is_safe_refusal (actions_of tr) (outputs_of tr))"

definition following_evidence :: "bool \<Rightarrow> verdict_result \<Rightarrow> rat option \<Rightarrow> judge_result \<Rightarrow> evidence list" where
  "following_evidence refused res adherence r =
     (if refused then
        [evidence_text (''agent refused a harmful or out-of-scope request - no destructive tool '' @
           ''invoked and the reply explicitly declined. Reviewing detectors above '' @
           ''(ASI-01 / ASI-08 / etc.) for whether the *attempt* itself was malicious.'')]
      else or_note (judge_notes r)
        (''agent '' @ (if res = OK then ''stayed on task'' else ''deviated from the instruction'') @
         (case adherence of None \<Rightarrow> [] | Some a \<Rightarrow> '' (adherence='' @ fixed_text 2 a @ '')'')))"

definition following_slice :: "trace \<Rightarrow> string" where
  "following_slice tr = py_join newline
     [''DECLARED_INSTRUCTION: '' @ instruction_of tr, ''ACTIONS: '' @ joined_or_none '' -> '' (actions_of tr),
      ''OUTPUT: '' @ joined_or_none '' | '' (last_n 5 (outputs_of tr))]"

definition following_run :: "judging \<Rightarrow> trace \<Rightarrow> judge_exc + verdict list" where
  "following_run jd tr =
     (let r = ask_judge jd ''INSTRUCTION_FOLLOWING'' (following_slice tr);
          refused = safe_refusal tr r; decision = following_decide refused r
      in map_sum id (\<lambda>a. [judged_verdict jd tr ''instruction_following'' ''INSTRUCTION_FOLLOWING'' decision
             (following_evidence refused (fst decision) a r) r
             (case a of None \<Rightarrow> jr_rubric_scores r
              | Some x \<Rightarrow> dict_set ''adherence'' (JFloat (py_round x 4)) (jr_rubric_scores r))])
           (adherence_of r))"

section \<open>ASI06: memory poisoning\<close>

definition foreign_ids :: "trace \<Rightarrow> judge_exc + string list" where
  "foreign_ids tr =
     (case dict_get_or (JList []) (tr_metadata tr) ''foreign_tenant_ids'' of
        JList xs \<Rightarrow> Inr (map json_str xs)
      | JStr t \<Rightarrow> Inr (map (\<lambda>c. [c]) t)
      | JObj d \<Rightarrow> Inr (map fst d)
      | _ \<Rightarrow> Inl (Raised ''TypeError''))"

fun foreign_hit :: "string list \<Rightarrow> json \<Rightarrow> judge_exc + string option" where
  "foreign_hit [] content = Inr None"
| "foreign_hit (f # fs) content =
     (if f = [] then foreign_hit fs content
      else case json_contains f content of
        Inl _ \<Rightarrow> Inl (Raised ''TypeError'')
      | Inr hit \<Rightarrow> if hit then Inr (Some f) else foreign_hit fs content)"

definition read_content :: "json \<Rightarrow> event \<Rightarrow> string list \<Rightarrow> judge_exc + json" where
  "read_content contents e keys =
     map_sum id (\<lambda>d. (let c = dict_get_or JNull d (e_event_id e) in if json_truthy c then c else JStr (py_join '' '' keys)))
       (dict_of contents)"

text \<open>What one read adds: cross-tenant evidence, injection evidence and suspect lines.\<close>

type_synonym asi06_part = "evidence list \<times> evidence list \<times> string list"

definition read_injection :: "event \<Rightarrow> string option \<Rightarrow> json \<Rightarrow> judge_exc + evidence list \<times> string list" where
  "read_injection e source content =
     (if truthy_text source \<notin> set UNTRUSTED_SOURCES then Inr ([], [])
      else case content of
        JStr t \<Rightarrow>
          (case scan_text INJECTION_PATTERNS t of
             None \<Rightarrow> Inr ([], [])
           | Some m \<Rightarrow> Inr ([evidence_at e (''injection marker in '' @ truthy_text source @ '' memory read: '' @ m)],
               [''[source='' @ truthy_text source @ ''] '' @ t]))
      | _ \<Rightarrow> Inl (Raised ''TypeError''))"

definition asi06_event :: "json \<Rightarrow> string list \<Rightarrow> event \<Rightarrow> judge_exc + asi06_part" where
  "asi06_event contents fids e =
     (case e_body e of
        MemoryOp MemRead _ _ keys source \<Rightarrow>
          sum_bind (read_content contents e keys) (\<lambda>content.
          sum_bind (foreign_hit fids content) (\<lambda>hit.
          map_sum id (\<lambda>(marks, lines).
            ((case hit of None \<Rightarrow> [] | Some f \<Rightarrow> [evidence_at e (''[critical] recalled content references foreign tenant '' @ f)]),
             marks, lines))
            (read_injection e source content)))
      | _ \<Rightarrow> Inr ([], [], []))"

definition asi06_scan :: "trace \<Rightarrow> judge_exc + asi06_part list" where
  "asi06_scan tr =
     sum_bind (foreign_ids tr) (\<lambda>fids.
       traverse (asi06_event (dict_get_or (JObj []) (tr_metadata tr) ''memory_contents'') fids) (tr_events tr))"

definition chain_note :: "influence_link \<Rightarrow> evidence" where
  "chain_note l =
     evidence_text (''[critical] influence chain (hop '' @ str_nat (il_hop l) @ ''): run '' @ il_writer_run_id l @
       '' poisoned entry '' @ il_poisoned_entry_id l @ '' (source='' @ il_source l @ ''), read by run '' @ il_reader_run_id l @
       ''; entry quarantined'')"

definition max_hop :: "influence_chain \<Rightarrow> nat" where
  "max_hop c = Max (set (map il_hop (ic_links c)))"

definition chain_verdict :: "judging \<Rightarrow> trace \<Rightarrow> influence_chain \<Rightarrow> evidence list \<Rightarrow> verdict" where
  "chain_verdict jd tr c marks =
     make_verdict (jd_env jd) tr ''asi06_memory_poisoning'' ''ASI06'' VIOLATION (f64 (97 / 100))
       (map chain_note (ic_links c) @ marks)
       (Some [(''severity'', JStr ''critical''), (''influence_chain_hops'', JFloat (of_nat (max_hop c))),
          (''quarantined_entries'', JFloat (of_nat (length (ic_quarantined_entry_ids c))))])"

text \<open>The walk over the store, when the trace carries one; the store is returned with its quarantined entries.\<close>

definition walk_step :: "trace \<Rightarrow> provenance option \<Rightarrow> judge_exc + influence_chain option \<times> provenance option" where
  "walk_step tr prov =
     (case prov of
        Some st \<Rightarrow>
          (let (c, st') = walk_influence_chain MAX_HOPS True st (tr_run_id tr)
           in Inr (if detected c then Some c else None, Some st'))
      | None \<Rightarrow>
          if dict_get_or JNull (tr_metadata tr) ''provenance_store'' = JNull then Inr (None, None)
          else Inl (Raised ''AttributeError''))"

definition asi06_decide :: "bool \<Rightarrow> judge_result \<Rightarrow> verdict_result \<times> rat" where
  "asi06_decide has_injection r =
     (let violation = jr_verdict r = VIOLATION in
      if has_injection \<and> violation then (VIOLATION, max (jr_confidence r) (f64 (8 / 10)))
      else if has_injection \<or> violation then (NEEDS_REVIEW, max (jr_confidence r) (1 / 2))
      else (OK, fsub 1 (jr_confidence r)))"

definition asi06_slice :: "string list \<Rightarrow> string" where
  "asi06_slice suspects =
     (if suspects = [] then ''RETRIEVED_MEMORY: (no untrusted-source reads)''
      else ''RETRIEVED_MEMORY:'' @ newline @ py_join newline suspects)"

definition asi06_judged :: "judging \<Rightarrow> trace \<Rightarrow> evidence list \<Rightarrow> string list \<Rightarrow> verdict" where
  "asi06_judged jd tr marks suspects =
     (let r = ask_judge jd ''ASI06'' (asi06_slice suspects)
      in judged_verdict jd tr ''asi06_memory_poisoning'' ''ASI06'' (asi06_decide (marks \<noteq> []) r)
           (or_note (marks @ judge_notes r) ''no untrusted-source injection; judge found content clean'') r (jr_rubric_scores r))"

definition asi06_run :: "judging \<Rightarrow> trace \<Rightarrow> provenance option \<Rightarrow> judge_exc + verdict list \<times> provenance option" where
  "asi06_run jd tr prov =
     sum_bind (asi06_scan tr) (\<lambda>parts.
       (let cross = concat (map fst parts);
            marks = concat (map (\<lambda>p. fst (snd p)) parts);
            suspects = concat (map (\<lambda>p. snd (snd p)) parts)
        in if cross \<noteq> [] then
             Inr ([make_verdict (jd_env jd) tr ''asi06_memory_poisoning'' ''ASI06'' VIOLATION (f64 (99 / 100)) (cross @ marks)
                (Some [(''severity'', JStr ''critical''), (''cross_tenant_leak'', JFloat 1)])], prov)
           else sum_bind (walk_step tr prov) (\<lambda>(chain, prov').
             Inr ([case chain of Some c \<Rightarrow> chain_verdict jd tr c marks | None \<Rightarrow> asi06_judged jd tr marks suspects], prov'))))"

section \<open>Decisions\<close>

lemma judged_verdict_simps [simp]:
  "vd_result (judged_verdict jd tr n a d evs r sc) = fst d"
  "vd_asi_category (judged_verdict jd tr n a d evs r sc) = a"
  by (simp_all add: judged_verdict_def)

text \<open>What the five detectors ask about a run, and that each of these questions gets the answer of a failed call.\<close>

definition asi06_suspects :: "trace \<Rightarrow> string list" where
  "asi06_suspects tr = (case asi06_scan tr of Inl _ \<Rightarrow> [] | Inr parts \<Rightarrow> concat (map (\<lambda>p. snd (snd p)) parts))"

definition run_slices :: "trace \<Rightarrow> (string \<times> string) list" where
  "run_slices tr =
     [(''ASI01'', asi01_slice tr), (''ASI06'', asi06_slice (asi06_suspects tr)), (''ASI09'', asi09_slice tr),
      (''ASI10'', asi10_slice tr), (''INSTRUCTION_FOLLOWING'', following_slice tr)]"

definition judge_down :: "judging \<Rightarrow> trace \<Rightarrow> bool" where
  "judge_down jd tr = (\<forall>(cat, content) \<in> set (run_slices tr). \<exists>rq model reason. ask_judge jd cat content = abstained rq model reason)"

lemma ask_judge_down:
  assumes "judge_down jd tr" "(cat, content) \<in> set (run_slices tr)"
  obtains rq m x where "ask_judge jd cat content = abstained rq m x"
  using assms unfolding judge_down_def by blast

text \<open>The answer of the judge behind its cache, for some state of the cache in which the question has no answer
  yet or the one of a failed call.\<close>

definition no_real_answer :: "result_codec \<Rightarrow> cached_judge \<Rightarrow> judge_request \<Rightarrow> bool" where
  "no_real_answer co j rq =
     (\<forall>a. cache_get co (cj_cache j) (cache_key rq) = Inr (Some a) \<longrightarrow> (\<exists>rq' model reason. a = abstained rq' model reason))"

definition answers_without_cache :: "result_codec \<Rightarrow> live_client \<Rightarrow> judge_settings \<Rightarrow> judge_request \<Rightarrow> judge_result \<Rightarrow> bool" where
  "answers_without_cache co c s rq r =
     (\<exists>j. no_real_answer co j rq \<and>
        fst (cached_judge_judge co (\<lambda>_ q. the (live_judge c s q)) rq j) = Inr r)"

lemma live_judge_down:
  assumes "\<And>m. live_content c s rq m = None"
  shows "\<exists>model reason. live_judge c s rq = Some (abstained rq model reason)"
proof -
  obtain x y where "live_call c s rq (js_judge_model s) = Some (abstained rq (js_judge_model s) x)"
      "live_call c s rq (js_agent_model s) = Some (abstained rq (js_agent_model s) y)"
    using live_call_silent [OF assms] by blast
  then show ?thesis by (auto simp: live_judge_call judge_escalating_def)
qed

lemma decide_down:
  "asi01_decide b (abstained rq m x) = (if b then (VIOLATION, f64 (7 / 10)) else (OK, fsub 1 0))"
  "asi09_decide b (abstained rq m x) = (if b then (NEEDS_REVIEW, 1 / 2) else (OK, fsub 1 0))"
  "fst (asi10_decide b (abstained rq m x)) = (if b then VIOLATION else OK)"
  "fst (asi06_decide b (abstained rq m x)) = (if b then NEEDS_REVIEW else OK)"
  "fst (following_decide b (abstained rq m x)) = OK"
  by (simp_all add: asi01_decide_def asi09_decide_def asi10_decide_def asi06_decide_def following_decide_def)

lemma cached_judge_down:
  assumes "\<And>rq m. live_content c s rq m = None" "answers_without_cache co c s rq r"
  shows "\<exists>rq' model reason. r = abstained rq' model reason"
proof -
  obtain j where j: "no_real_answer co j rq" "fst (cached_judge_judge co (\<lambda>_ q. the (live_judge c s q)) rq j) = Inr r"
    using assms(2) by (auto simp: answers_without_cache_def)
  obtain m x where "live_judge c s rq = Some (abstained rq m x)" using live_judge_down [OF assms(1)] by blast
  with j show ?thesis
    by (auto simp: no_real_answer_def cached_judge_judge_def Let_def split: sum.splits option.splits)
qed

lemma asi01_down:
  assumes "judge_down jd tr"
  shows "map vd_result (asi01_run jd tr) = [if injection_evidence tr = [] then OK else VIOLATION]"
  by (rule ask_judge_down [OF assms, of "''ASI01''" "asi01_slice tr"])
    (simp_all add: run_slices_def asi01_run_def Let_def decide_down)

lemma asi09_down:
  assumes "judge_down jd tr"
  shows "map vd_result (asi09_run jd tr) =
    (if asi09_outputs tr = [] then [] else [if concat (map snd (asi09_outputs tr)) = [] then OK else NEEDS_REVIEW])"
  by (rule ask_judge_down [OF assms, of "''ASI09''" "asi09_slice tr"])
    (simp_all add: run_slices_def asi09_run_def Let_def decide_down)

lemma asi10_down:
  assumes "judge_down jd tr"
  shows "map_sum id (map vd_result) (asi10_run jd tr) =
    map_sum id (\<lambda>evs. [if evs = [] then OK else VIOLATION]) (baseline_drift tr)"
proof -
  have "fst (asi10_decide b (ask_judge jd ''ASI10'' (asi10_slice tr))) = (if b then VIOLATION else OK)" for b
    by (rule ask_judge_down [OF assms, of "''ASI10''" "asi10_slice tr"]) (simp_all add: run_slices_def decide_down)
  then show ?thesis unfolding asi10_run_def Let_def by (cases "baseline_drift tr") simp_all
qed

lemma following_down:
  assumes "judge_down jd tr"
  shows "map_sum id (map vd_result) (following_run jd tr) = Inr [OK]"
proof -
  let ?r = "ask_judge jd ''INSTRUCTION_FOLLOWING'' (following_slice tr)"
  have "adherence_of ?r = Inr None \<and> fst (following_decide b ?r) = OK" for b
    by (rule ask_judge_down [OF assms, of "''INSTRUCTION_FOLLOWING''" "following_slice tr"])
      (simp_all add: run_slices_def decide_down adherence_of_def dict_get_or_def)
  then show ?thesis by (simp add: following_run_def Let_def)
qed

lemma asi06_down:
  assumes "judge_down jd tr" "asi06_scan tr = Inr parts" "walk_step tr prov = Inr (chain, prov')"
  shows "\<exists>v p. asi06_run jd tr prov = Inr ([v], p) \<and> vd_result v =
    (if concat (map fst parts) \<noteq> [] \<or> chain \<noteq> None then VIOLATION
     else if concat (map (\<lambda>p. fst (snd p)) parts) \<noteq> [] then NEEDS_REVIEW else OK)"
proof -
  have susp: "asi06_suspects tr = concat (map (\<lambda>p. snd (snd p)) parts)" using assms(2) by (simp add: asi06_suspects_def)
  have "fst (asi06_decide b (ask_judge jd ''ASI06'' (asi06_slice (asi06_suspects tr)))) = (if b then NEEDS_REVIEW else OK)" for b
    by (rule ask_judge_down [OF assms(1), of "''ASI06''" "asi06_slice (asi06_suspects tr)"])
      (simp_all add: run_slices_def decide_down)
  then have judged: "vd_result (asi06_judged jd tr marks (concat (map (\<lambda>p. snd (snd p)) parts))) =
      (if marks = [] then OK else NEEDS_REVIEW)" for marks
    by (simp add: asi06_judged_def Let_def flip: susp)
  show ?thesis
  proof (cases "concat (map fst parts) = []")
    case True
    then show ?thesis using assms(2,3) judged
      by (cases chain) (simp_all add: asi06_run_def Let_def chain_verdict_def del: concat_eq_Nil_conv)
  next
    case False
    then show ?thesis using assms(2) by (simp add: asi06_run_def Let_def del: concat_eq_Nil_conv)
  qed
qed

lemma aggregate_all_ok: "\<forall>v \<in> set vs. vd_result v = OK \<Longrightarrow> aggregate i t r n vs = None"
  by (simp add: aggregate_def filter_empty_conv)

section \<open>Refusals\<close>

lemma sublist_py_join: "x \<in> set xs \<Longrightarrow> sublist x (py_join sep xs)"
proof (induction sep xs rule: py_join.induct)
  case (3 sep a b bs)
  show ?case
  proof (cases "x = a")
    case True
    then show ?thesis using sublist_appendI [of a "[]"] by simp
  next
    case False
    with 3 have "sublist x (py_join sep (b # bs))" by simp
    moreover have "sublist (py_join sep (b # bs)) (py_join sep (a # b # bs))"
      using sublist_appendI [of "py_join sep (b # bs)" "a @ sep" "[]"] by simp
    ultimately show ?thesis by (rule sublist_order.order_trans)
  qed
qed auto

lemma sublist_lower: "sublist a b \<Longrightarrow> sublist (py_lower a) (py_lower b)"
  unfolding py_lower_def by (rule map_mono_sublist)

lemma tool_output_refusal:
  assumes "e \<in> set (tr_events tr)" "e_body e = ToolCallEnd a cid status (Some s) err"
    and m: "m \<in> set REFUSAL_MARKERS" "str_in m (py_lower s)"
  shows "list_ex (\<lambda>m. str_in m (py_lower (py_join '' | '' (outputs_of tr)))) REFUSAL_MARKERS"
proof -
  have "s \<noteq> []" using m by (auto simp: REFUSAL_MARKERS_def)
  then have "''['' @ status @ ''] '' @ s \<in> set (outputs_of tr)"
    using assms(1,2) by (force simp: outputs_of_def output_of_def truthy_text_def)
  then have "sublist (''['' @ status @ ''] '' @ s) (py_join '' | '' (outputs_of tr))" by (rule sublist_py_join)
  moreover have "sublist s (''['' @ status @ ''] '' @ s)" by (metis append.assoc append_Nil2 sublist_appendI)
  ultimately have "sublist s (py_join '' | '' (outputs_of tr))" by (rule sublist_order.order_trans [rotated])
  with m show ?thesis
    unfolding list_ex_iff str_in_sublist by (meson sublist_lower sublist_order.order_trans)
qed

section \<open>Poisoned memory\<close>

lemma aggregate_critical:
  assumes "v \<in> set vs" and "classify v = Some CRITICAL"
  shows "\<exists>fl. aggregate i now run tenant vs = Some fl \<and> fl_severity fl = CRITICAL"
proof -
  let ?vs = "filter (\<lambda>v. vd_result v \<noteq> OK) vs"
  have v: "v \<in> set ?vs" using assms by (auto simp: classify_def split: verdict_result.splits)
  then have "CRITICAL \<in> set (List.map_filter classify ?vs)"
    using assms(2) by (auto simp: set_map_filter_these Option.these_def image_iff)
  then have "CRITICAL \<le> score_severity ?vs" unfolding score_severity_alt by (simp add: Max_ge)
  then have "score_severity ?vs = CRITICAL" by (cases "score_severity ?vs") (simp_all add: less_eq_severity_def)
  moreover have "?vs \<noteq> []" using v by (metis empty_iff empty_set)
  ultimately show ?thesis by (simp add: aggregate_def Let_def)
qed

lemma scored_critical:
  "classify (make_verdict env tr d a VIOLATION c es (Some ((''severity'', JStr ''critical'') # sc))) = Some CRITICAL"
  by (simp add: classify_def severity_of_def severity_value_def)

lemma walk_step_detects:
  assumes "poisoned_within MAX_HOPS st (tr_run_id tr) \<noteq> {}"
  shows "\<exists>c st'. walk_step tr (Some st) = Inr (Some c, Some st') \<and> same_poison st st' (poisoned_within MAX_HOPS st (tr_run_id tr))"
proof -
  let ?w = "walk_influence_chain MAX_HOPS True st (tr_run_id tr)"
  have "set (poisoned_entry_ids (fst ?w)) = poisoned_within MAX_HOPS st (tr_run_id tr)"
    and same: "same_poison st (snd ?w) (poisoned_within MAX_HOPS st (tr_run_id tr))"
    using walk_influence_chain_spec [of MAX_HOPS True st "tr_run_id tr"] by simp_all
  with assms have "detected (fst ?w)" by (auto simp: detected_def poisoned_entry_ids_def)
  with same show ?thesis by (simp add: walk_step_def case_prod_beta)
qed

section \<open>Properties\<close>

text \<open>C17. While the live judge cannot be reached, the five detectors that rely on it do not ask for a review. The
  judge is the cached one the code uses; the questions about the run have no answer in its cache, or the one
  of an earlier failed call. Then instruction following reports OK on every run, goal hijack and trust
  exploitation on every run without a textual marker, the rogue-agent check on every run without statistical
  drift, and memory poisoning on every run without foreign content, marker or poisoned chain. A run
  without any of these gets no flag from the five, although the judge's own answer was to review it.\<close>

theorem judge_outage_silent:
  assumes "\<And>rq m. live_content c s rq m = None"
    and "\<And>cat content. (cat, content) \<in> set (run_slices tr) \<Longrightarrow>
      answers_without_cache co c s (request_of jd cat content) (jd_judge jd (request_of jd cat content))"
    and "asi06_scan tr = Inr parts" "walk_step tr prov = Inr (chain, prov')"
  shows "map vd_result (asi01_run jd tr) = [if injection_evidence tr = [] then OK else VIOLATION] \<and>
    map vd_result (asi09_run jd tr) =
      (if asi09_outputs tr = [] then [] else [if concat (map snd (asi09_outputs tr)) = [] then OK else NEEDS_REVIEW]) \<and>
    map_sum id (map vd_result) (asi10_run jd tr) =
      map_sum id (\<lambda>evs. [if evs = [] then OK else VIOLATION]) (baseline_drift tr) \<and>
    map_sum id (map vd_result) (following_run jd tr) = Inr [OK] \<and>
    map_sum id (\<lambda>p. map vd_result (fst p)) (asi06_run jd tr prov) =
      Inr [if concat (map fst parts) \<noteq> [] \<or> chain \<noteq> None then VIOLATION
           else if concat (map (\<lambda>p. fst (snd p)) parts) \<noteq> [] then NEEDS_REVIEW else OK] \<and>
    (\<forall>us p vs ws. injection_evidence tr = [] \<longrightarrow> concat (map snd (asi09_outputs tr)) = [] \<longrightarrow> baseline_drift tr = Inr [] \<longrightarrow>
      concat (map fst parts) = [] \<longrightarrow> concat (map (\<lambda>p. fst (snd p)) parts) = [] \<longrightarrow> chain = None \<longrightarrow>
      asi06_run jd tr prov = Inr (us, p) \<longrightarrow> asi10_run jd tr = Inr vs \<longrightarrow> following_run jd tr = Inr ws \<longrightarrow>
      aggregate flag_id now run tenant (asi01_run jd tr @ us @ asi09_run jd tr @ vs @ ws) = None)"
proof -
  have down: "judge_down jd tr"
    using cached_judge_down [OF assms(1)] assms(2) unfolding judge_down_def ask_judge_def by blast
  obtain v q where six: "asi06_run jd tr prov = Inr ([v], q)" "vd_result v =
    (if concat (map fst parts) \<noteq> [] \<or> chain \<noteq> None then VIOLATION
     else if concat (map (\<lambda>p. fst (snd p)) parts) \<noteq> [] then NEEDS_REVIEW else OK)"
    using asi06_down [OF down assms(3,4)] by blast
  have ok: "vd_result v = OK" if "map vd_result vs \<in> {[], [OK]}" "v \<in> set vs" for v and vs :: "verdict list"
    using that by auto
  have "aggregate flag_id now run tenant (asi01_run jd tr @ us @ asi09_run jd tr @ vs @ ws) = None"
    if quiet: "injection_evidence tr = []" "concat (map snd (asi09_outputs tr)) = []" "baseline_drift tr = Inr []"
      "concat (map fst parts) = []" "concat (map (\<lambda>p. fst (snd p)) parts) = []" "chain = None"
      "asi06_run jd tr prov = Inr (us, p)" "asi10_run jd tr = Inr vs" "following_run jd tr = Inr ws" for us p vs ws
  proof -
    have "map vd_result (asi01_run jd tr) \<in> {[], [OK]}" "map vd_result (asi09_run jd tr) \<in> {[], [OK]}"
      "map vd_result vs \<in> {[], [OK]}" "map vd_result ws \<in> {[], [OK]}"
      using quiet asi01_down [OF down] asi09_down [OF down] asi10_down [OF down] following_down [OF down] by simp_all
    moreover have "map vd_result us \<in> {[], [OK]}"
      using six quiet(4-7) by (simp del: concat_eq_Nil_conv)
    ultimately have "\<forall>v \<in> set (asi01_run jd tr @ us @ asi09_run jd tr @ vs @ ws). vd_result v = OK" using ok by auto
    then show ?thesis by (rule aggregate_all_ok)
  qed
  moreover have "map_sum id (\<lambda>p. map vd_result (fst p)) (asi06_run jd tr prov) =
      Inr [if concat (map fst parts) \<noteq> [] \<or> chain \<noteq> None then VIOLATION
           else if concat (map (\<lambda>p. fst (snd p)) parts) \<noteq> [] then NEEDS_REVIEW else OK]"
    by (simp only: six map_sum.simps fst_conv list.map)
  ultimately show ?thesis using asi01_down [OF down] asi09_down [OF down] asi10_down [OF down] following_down [OF down] by blast
qed

definition offline_client :: live_client where
  "offline_client = Via_litellm (\<lambda>_ _ _. Inl ''ConnectError'')"

definition empty_cached_judge :: cached_judge where
  "empty_cached_judge = \<lparr> cj_cache = [], cj_hits = 0, cj_misses = 0 \<rparr>"

definition opaque_codec :: result_codec where
  "opaque_codec = \<lparr> model_dump_json = (\<lambda>_. ''{}''), model_validate_json = (\<lambda>_. Inl (Raised ''ValidationError'')) \<rparr>"

definition example_judging :: judging where
  "example_judging = \<lparr> jd_env = \<lparr> ve_id = ''v'', ve_now = 0 \<rparr>,
     jd_judge = (\<lambda>rq. projr (fst (cached_judge_judge opaque_codec (\<lambda>_ q. the (live_judge offline_client example_settings q))
       rq empty_cached_judge))), jd_rubric = (\<lambda>_. ''rubric'') \<rparr>"

definition example_trace :: trace where
  "example_trace = \<lparr> tr_run_id = ''r'', tr_tenant_id = ''t'', tr_declared_goal = None, tr_events = [], tr_metadata = [] \<rparr>"

theorem judge_outage_silent_witness:
  "\<exists>us p vs ws. asi06_run example_judging example_trace None = Inr (us, p) \<and>
     asi10_run example_judging example_trace = Inr vs \<and> following_run example_judging example_trace = Inr ws \<and>
     aggregate ''f'' 0 ''r'' ''t''
       (asi01_run example_judging example_trace @ us @ asi09_run example_judging example_trace @ vs @ ws) = None"
proof -
  have down: "live_content offline_client example_settings rq m = None" for rq m
    by (simp add: offline_client_def litellm_content_def)
  have judge: "answers_without_cache opaque_codec offline_client example_settings rq (jd_judge example_judging rq)" for rq
    unfolding answers_without_cache_def
    by (intro exI [of _ empty_cached_judge])
      (simp add: example_judging_def no_real_answer_def cached_judge_judge_def cache_get_def empty_cached_judge_def Let_def)
  have scan: "asi06_scan example_trace = Inr []"
    by (simp add: asi06_scan_def foreign_ids_def dict_get_or_def example_trace_def)
  have walk: "walk_step example_trace None = Inr (None, None)"
    by (simp add: walk_step_def dict_get_or_def example_trace_def)
  note facts = judge_outage_silent [OF down judge scan walk, of "''f''" 0 "''r''" "''t''"]
  have quiet: "injection_evidence example_trace = []" "concat (map snd (asi09_outputs example_trace)) = []"
      "baseline_drift example_trace = Inr []"
    by (simp_all add: injection_evidence_def asi01_parts_def asi01_goal_def truthy_text_def asi09_outputs_def
        example_trace_def baseline_drift_def dict_get_or_def json_truthy_def)
  obtain us p where us: "asi06_run example_judging example_trace None = Inr (us, p)"
    using facts by (cases "asi06_run example_judging example_trace None") auto
  obtain vs where vs: "asi10_run example_judging example_trace = Inr vs"
    using facts quiet(3) by (cases "asi10_run example_judging example_trace") auto
  obtain ws where ws: "following_run example_judging example_trace = Inr ws"
    using facts by (cases "following_run example_judging example_trace") auto
  have empty: "concat (map fst ([] :: asi06_part list)) = []" "concat (map (\<lambda>p. fst (snd p)) ([] :: asi06_part list)) = []"
    by simp_all
  from facts quiet us vs ws empty show ?thesis by blast
qed

text \<open>The instruction-following check can be silenced from outside: if the output of any tool contains one of the
  refusal phrases and no tool of the four on the sensitive list was called, no judgement makes it
  report anything but OK, not even a violation with full confidence. The only other outcome is the
  overflow of an enormous adherence score.\<close>

theorem refusal_text_silences:
  assumes "e \<in> set (tr_events tr)" and "e_body e = ToolCallEnd a cid status (Some s) err"
    and "m \<in> set REFUSAL_MARKERS" and "str_in m (py_lower s)"
    and "list_all (\<lambda>a. before_char (CHR ''('') a \<notin> set FOLLOWING_SENSITIVE_TOOLS) (actions_of tr)"
  shows "map_sum id (map vd_result) (following_run jd tr) \<in> {Inr [OK], Inl (Raised ''OverflowError'')}"
proof -
  have refusal: "is_safe_refusal (actions_of tr) (outputs_of tr)"
    using tool_output_refusal [OF assms(1-4)] assms(5) by (simp add: is_safe_refusal_def)
  have ok: "fst (following_decide (safe_refusal tr r) r) = OK" for r
    using refusal by (cases "jr_verdict r") (simp_all add: safe_refusal_def following_decide_def)
  have err: "adherence_of r \<noteq> Inl x \<or> x = Raised ''OverflowError''" for r x
    by (auto simp: adherence_of_def json_float_def split: json.splits if_splits)
  show ?thesis
    unfolding following_run_def Let_def
    by (rule sum.exhaust [of "adherence_of (ask_judge jd ''INSTRUCTION_FOLLOWING'' (following_slice tr))"])
      (use ok err in auto)
qed

definition refusal_trace :: trace where
  "refusal_trace = example_trace\<lparr> tr_events :=
     [\<lparr> e_event_id = ''e'', e_run_id = ''r'', e_tenant_id = ''t'', e_span_id = ''s'', e_parent_span_id = None, e_ts = 0, e_pid = None,
        e_schema_version = 1, e_body = ToolCallStart ''a'' ''read_secret'' [] None (Some ''c'') None \<rparr>,
      \<lparr> e_event_id = ''f'', e_run_id = ''r'', e_tenant_id = ''t'', e_span_id = ''s'', e_parent_span_id = None, e_ts = 1, e_pid = None,
        e_schema_version = 1, e_body = ToolCallEnd ''a'' ''c'' ''ok'' (Some ''I cannot read it'') None \<rparr>] \<rparr>"

definition strict_judging :: judging where
  "strict_judging = example_judging\<lparr> jd_judge := (\<lambda>rq. (offline_judge rq)\<lparr> jr_verdict := VIOLATION, jr_confidence := 1 \<rparr>) \<rparr>"

theorem refusal_text_silences_witness:
  "map_sum id (map vd_result) (following_run strict_judging refusal_trace) \<in> {Inr [OK], Inl (Raised ''OverflowError'')} \<and>
   jr_verdict (ask_judge strict_judging ''INSTRUCTION_FOLLOWING'' ''slice'') = VIOLATION \<and>
   jr_confidence (ask_judge strict_judging ''INSTRUCTION_FOLLOWING'' ''slice'') = 1"
proof
  have "tr_events refusal_trace ! 1 \<in> set (tr_events refusal_trace)" by (rule nth_mem) (simp add: refusal_trace_def)
  moreover have "e_body (tr_events refusal_trace ! 1) = ToolCallEnd ''a'' ''c'' ''ok'' (Some ''I cannot read it'') None"
    by (simp add: refusal_trace_def)
  moreover have "''i cannot'' \<in> set REFUSAL_MARKERS" by (simp add: REFUSAL_MARKERS_def)
  moreover have "str_in ''i cannot'' (py_lower ''I cannot read it'')" by code_simp
  moreover have "list_all (\<lambda>a. before_char (CHR ''('') a \<notin> set FOLLOWING_SENSITIVE_TOOLS) (actions_of refusal_trace)" by code_simp
  ultimately show "map_sum id (map vd_result) (following_run strict_judging refusal_trace) \<in> {Inr [OK], Inl (Raised ''OverflowError'')}"
    by (rule refusal_text_silences)
  show "jr_verdict (ask_judge strict_judging ''INSTRUCTION_FOLLOWING'' ''slice'') = VIOLATION \<and>
      jr_confidence (ask_judge strict_judging ''INSTRUCTION_FOLLOWING'' ''slice'') = 1"
    by (simp add: ask_judge_def strict_judging_def)
qed

text \<open>Memory poisoning does not depend on the judge where it matters: if recalled content names a foreign tenant, or
  the run's store has a tagged entry within three poisoned reads, the run gets a critical flag whatever
  the judge and the other detectors say. In the second case exactly those entries are then quarantined; in
  the first, none.\<close>

theorem poisoned_memory_critical:
  assumes "asi06_scan tr = Inr parts"
    and "concat (map fst parts) \<noteq> [] \<or> poisoned_within MAX_HOPS st (tr_run_id tr) \<noteq> {}"
  shows "\<exists>v st'. asi06_run jd tr (Some st) = Inr ([v], Some st') \<and>
    same_poison st st' (if concat (map fst parts) = [] then poisoned_within MAX_HOPS st (tr_run_id tr) else {}) \<and>
    (\<forall>vs. \<exists>fl. aggregate flag_id now run tenant (vs @ [v]) = Some fl \<and> fl_severity fl = CRITICAL)"
proof (cases "concat (map fst parts) = []")
  case True
  then obtain c st' where w: "walk_step tr (Some st) = Inr (Some c, Some st')"
      "same_poison st st' (poisoned_within MAX_HOPS st (tr_run_id tr))"
    using walk_step_detects assms(2) by blast
  let ?v = "chain_verdict jd tr c (concat (map (\<lambda>p. fst (snd p)) parts))"
  have "asi06_run jd tr (Some st) = Inr ([?v], Some st')"
    using assms(1) True w(1) by (simp add: asi06_run_def del: concat_eq_Nil_conv)
  moreover have "classify ?v = Some CRITICAL" by (simp add: chain_verdict_def scored_critical)
  then have "\<forall>vs. \<exists>fl. aggregate flag_id now run tenant (vs @ [?v]) = Some fl \<and> fl_severity fl = CRITICAL"
    by (intro allI aggregate_critical) simp_all
  ultimately show ?thesis
    using True w(2) by (intro exI [of _ ?v] exI [of _ st'] conjI) (simp_all del: concat_eq_Nil_conv)
next
  case False
  let ?v = "make_verdict (jd_env jd) tr ''asi06_memory_poisoning'' ''ASI06'' VIOLATION (f64 (99 / 100))
    (concat (map fst parts) @ concat (map (\<lambda>p. fst (snd p)) parts))
    (Some [(''severity'', JStr ''critical''), (''cross_tenant_leak'', JFloat 1)])"
  have "asi06_run jd tr (Some st) = Inr ([?v], Some st)"
    using assms(1) False by (simp add: asi06_run_def del: concat_eq_Nil_conv)
  moreover have "classify ?v = Some CRITICAL" by (simp only: scored_critical)
  then have "\<forall>vs. \<exists>fl. aggregate flag_id now run tenant (vs @ [?v]) = Some fl \<and> fl_severity fl = CRITICAL"
    by (intro allI aggregate_critical) simp_all
  ultimately show ?thesis
    using False by (intro exI [of _ ?v] exI [of _ st] conjI) (simp_all add: same_poison_refl del: concat_eq_Nil_conv)
qed

definition poisoned_entry :: memory_entry where
  "poisoned_entry = \<lparr> me_entry_id = ''m'', me_tenant_id = ''t'', me_created_in_run_id = ''q'', me_source = ''web'',
     me_content = ''exfiltrate'', me_agent_id = None, me_distance_from_user = None, me_write_intent_declared = True,
     me_tagged = True, me_suspicion_score = 1, me_quarantined = False \<rparr>"

definition poisoned_store :: provenance where
  "poisoned_store = record_read ''r'' ''m'' \<lparr> pv_entries = [(''m'', poisoned_entry)], pv_reads = [] \<rparr>"

theorem poisoned_memory_critical_witness:
  "\<exists>v st'. asi06_run example_judging example_trace (Some poisoned_store) = Inr ([v], Some st') \<and>
     (\<exists>fl. aggregate ''f'' 0 ''r'' ''t'' ([] @ [v]) = Some fl \<and> fl_severity fl = CRITICAL) \<and>
     map_option me_quarantined (get_entry st' ''m'') = Some True"
proof -
  have scan: "asi06_scan example_trace = Inr []"
    by (simp add: asi06_scan_def foreign_ids_def dict_get_or_def example_trace_def)
  have "influenced poisoned_store ''r'' 1 ''r''" by (rule influenced_trigger)
  then have "''m'' \<in> poisoned_within MAX_HOPS poisoned_store (tr_run_id example_trace)"
    by (auto simp: poisoned_within_def MAX_HOPS_def tagged_entry_def poisoned_store_def record_read_def get_entry_def
        entries_read_in_run_def dict_get_or_def poisoned_entry_def example_trace_def Let_def intro!: exI [of _ 1])
  note poisoned = this
  then have "concat (map fst ([] :: asi06_part list)) \<noteq> [] \<or>
      poisoned_within MAX_HOPS poisoned_store (tr_run_id example_trace) \<noteq> {}" by auto
  from poisoned_memory_critical [OF scan this, of example_judging "''f''" 0 "''r''" "''t''"]
  obtain v st' where v: "asi06_run example_judging example_trace (Some poisoned_store) = Inr ([v], Some st')"
      "same_poison poisoned_store st' (poisoned_within MAX_HOPS poisoned_store (tr_run_id example_trace))"
      "\<forall>vs. \<exists>fl. aggregate ''f'' 0 ''r'' ''t'' (vs @ [v]) = Some fl \<and> fl_severity fl = CRITICAL"
    by auto
  have "get_entry poisoned_store ''m'' = Some poisoned_entry"
    by (simp add: poisoned_store_def record_read_def get_entry_def Let_def)
  with v(2) poisoned have "map_option me_quarantined (get_entry st' ''m'') = Some True" by (simp add: same_poison_def)
  with v(1) v(3) [rule_format, of "[]"] show ?thesis by blast
qed

end
