(* ===== verification/Redactor.thy ===== *)
theory Redactor
  imports Py_Regex
begin

text \<open>
  The redactor of \<^verbatim>\<open>auditor/audit_log/redactor.py\<close>: the five regular expressions of the fallback backend and
  their sequential substitution, the choice between that backend and the analyzer package, the deep walk
  over structured values, the list of entity types found, and the process-wide instances. The analyzer
  and the anonymizer of the package are arguments. The main results are that, with the regular
  expressions, an empty list of entities is the same as an unchanged text or value, and that structure
  and non-text values are never touched.
\<close>

section \<open>The regular expressions\<close>

definition rdigit :: re where
  "rdigit = RSet is_digit"

definition rone_of :: "char list \<Rightarrow> re" where
  "rone_of cs = RSet (\<lambda>c. c \<in> set cs)"

definition is_alpha :: "char \<Rightarrow> bool" where
  "is_alpha c = (let n = of_char c :: nat in (65 \<le> n \<and> n \<le> 90) \<or> (97 \<le> n \<and> n \<le> 122))"

definition ralnum_or :: "char list \<Rightarrow> re" where
  "ralnum_or cs = RSet (\<lambda>c. is_alpha c \<or> is_digit c \<or> c \<in> set cs)"

definition not_after_digit :: re where
  "not_after_digit = RTest (\<lambda>p. case fst p of None \<Rightarrow> True | Some c \<Rightarrow> \<not> is_digit c)"

definition not_before_digit :: re where
  "not_before_digit = RTest (\<lambda>p. case snd p of [] \<Rightarrow> True | c # _ \<Rightarrow> \<not> is_digit c)"

definition rquote :: re where
  "rquote = rone_of [CHR 0x27, CHR 0x22]"

definition phone_sep :: re where
  "phone_sep = ropt (RSet (\<lambda>c. py_isspace c \<or> c = CHR ''.'' \<or> c = CHR ''-''))"

definition GENERIC_API_KEY :: re where
  "GENERIC_API_KEY =
     rseq [ralt [rseq [ilit ''api'', ropt (rone_of ''_-''), ilit ''key''], ilit ''secret'', ilit ''token'', ilit ''password''],
       RStar rspace, rone_of ''=:'', RStar rspace, ropt rquote, ratleast 20 (ralnum_or ''_-''), ropt rquote]"

definition US_SSN :: re where
  "US_SSN = rseq [RBound, rtimes 3 rdigit, rlit ''-'', rtimes 2 rdigit, rlit ''-'', rtimes 4 rdigit, RBound]"

definition CREDIT_CARD :: re where
  "CREDIT_CARD =
     (let group = RSeq rdigit (ropt (rone_of '' -'')) in
      rseq [RBound, rtimes 13 group, rupto 5 group, rdigit, RBound])"

definition EMAIL_ADDRESS :: re where
  "EMAIL_ADDRESS =
     rseq [rplus (ralnum_or ''._%+-''), rlit ''@'', rplus (ralnum_or ''.-''), rlit ''.'', ratleast 2 (RSet is_alpha)]"

definition PHONE_NUMBER :: re where
  "PHONE_NUMBER =
     rseq [not_after_digit, ropt (rseq [ropt (rlit ''+''), rlit ''1'', phone_sep]),
       ropt (rlit ''(''), rtimes 3 rdigit, ropt (rlit '')''), phone_sep,
       rtimes 3 rdigit, phone_sep, rtimes 4 rdigit, not_before_digit]"

definition REGEX_PATTERNS :: "(re \<times> string) list" where
  "REGEX_PATTERNS =
     [(GENERIC_API_KEY, ''<GENERIC_API_KEY>''), (US_SSN, ''<US_SSN>''), (CREDIT_CARD, ''<CREDIT_CARD>''),
      (EMAIL_ADDRESS, ''<EMAIL_ADDRESS>''), (PHONE_NUMBER, ''<PHONE_NUMBER>'')]"

definition regex_redact :: "string \<Rightarrow> string" where
  "regex_redact s = foldl (\<lambda>t (r, tag). re_sub r tag t) s REGEX_PATTERNS"

text \<open>\<^verbatim>\<open>tag.strip("<>")\<close>.\<close>

definition strip_angles :: "string \<Rightarrow> string" where
  "strip_angles s =
     (let b = (\<lambda>c. c = CHR ''<'' \<or> c = CHR ''>'') in rev (dropWhile b (rev (dropWhile b s))))"

definition regex_entities :: "string \<Rightarrow> string list" where
  "regex_entities s = sort (remdups [strip_angles tag. (r, tag) \<leftarrow> REGEX_PATTERNS, re_search r s])"

section \<open>Backends\<close>

text \<open>The analyzer package: \<^verbatim>\<open>analyze\<close> gives the entity type and the span of each finding, or an exception;
  \<^verbatim>\<open>anonymize\<close> replaces spans by the text chosen for their type.\<close>

type_synonym span_finding = "string \<times> nat \<times> nat"

record presidio =
  pr_analyze :: "string \<Rightarrow> string + span_finding list"
  pr_anonymize :: "string \<Rightarrow> span_finding list \<Rightarrow> (string, string) pydict \<Rightarrow> string"

text \<open>The module's globals: whether the package was probed and is available, and the two instances (each
  represented by its \<^verbatim>\<open>force_regex\<close>).\<close>

record redactor_globals =
  rg_available :: "bool option"
  rg_singleton :: "bool option"
  rg_log_singleton :: "bool option"

definition try_init_presidio :: "bool \<Rightarrow> redactor_globals \<Rightarrow> bool \<times> redactor_globals" where
  "try_init_presidio loads g =
     (case rg_available g of Some b \<Rightarrow> (b, g) | None \<Rightarrow> (loads, g\<lparr> rg_available := Some loads \<rparr>))"

definition new_redactor :: "bool \<Rightarrow> bool \<Rightarrow> redactor_globals \<Rightarrow> bool \<times> redactor_globals" where
  "new_redactor loads force_regex g =
     (force_regex, if force_regex then g else snd (try_init_presidio loads g))"

definition backend :: "redactor_globals \<Rightarrow> bool \<Rightarrow> string" where
  "backend g force_regex =
     (if force_regex then ''regex'' else if rg_available g = Some True then ''presidio'' else ''regex'')"

definition replace_operators :: "span_finding list \<Rightarrow> (string, string) pydict" where
  "replace_operators results =
     foldl (\<lambda>ops (entity, _). if entity \<in> fst ` set ops then ops else dict_set entity (''<'' @ entity @ ''>'') ops) [] results"

definition presidio_redact :: "presidio \<Rightarrow> string \<Rightarrow> string + string" where
  "presidio_redact P t =
     map_sum id (\<lambda>results. if results = [] then t else pr_anonymize P t results (replace_operators results))
       (pr_analyze P t)"

definition redact_text :: "presidio \<Rightarrow> redactor_globals \<Rightarrow> bool \<Rightarrow> string \<Rightarrow> string + string" where
  "redact_text P g force_regex t =
     (if t = [] then Inr t
      else if backend g force_regex = ''presidio'' then presidio_redact P t
      else Inr (regex_redact t))"

fun redact_value :: "(string \<Rightarrow> string + string) \<Rightarrow> json \<Rightarrow> string + json" where
  "redact_value f (JStr s) = map_sum id JStr (f s)"
| "redact_value f (JObj kvs) =
     map_sum id JObj (traverse (\<lambda>(k, r). map_sum id (\<lambda>v. (k, v)) r) (map (\<lambda>(k, v). (k, redact_value f v)) kvs))"
| "redact_value f (JList xs) = map_sum id JList (traverse id (map (redact_value f) xs))"
| "redact_value f v = Inr v"

definition redact_dict :: "presidio \<Rightarrow> redactor_globals \<Rightarrow> bool \<Rightarrow> (string, json) pydict \<Rightarrow> string + json" where
  "redact_dict P g force_regex payload = redact_value (redact_text P g force_regex) (JObj payload)"

definition get_redactor :: "bool \<Rightarrow> bool \<Rightarrow> redactor_globals \<Rightarrow> bool \<times> redactor_globals" where
  "get_redactor loads force_regex g =
     (case rg_singleton g of
        Some r \<Rightarrow> (r, g)
      | None \<Rightarrow> (let (r, g') = new_redactor loads force_regex g in (r, g'\<lparr> rg_singleton := Some r \<rparr>)))"

definition get_log_redactor :: "redactor_globals \<Rightarrow> bool \<times> redactor_globals" where
  "get_log_redactor g =
     (case rg_log_singleton g of
        Some r \<Rightarrow> (r, g)
      | None \<Rightarrow> (True, g\<lparr> rg_log_singleton := Some True \<rparr>))"

definition reset_redactor :: "redactor_globals \<Rightarrow> redactor_globals" where
  "reset_redactor g = g\<lparr> rg_singleton := None, rg_log_singleton := None \<rparr>"

text \<open>\<^verbatim>\<open>detect_entities\<close>: an exception of the analyzer falls through to the regular expressions.\<close>

definition detect_entities :: "presidio \<Rightarrow> bool \<Rightarrow> redactor_globals \<Rightarrow> string \<Rightarrow> string list \<times> redactor_globals" where
  "detect_entities P loads g t =
     (if t = [] then ([], g)
      else (let (r, g') = get_redactor loads False g in
        ((if backend g' r = ''presidio''
          then (case pr_analyze P t of Inr results \<Rightarrow> sort (remdups (map fst results)) | Inl _ \<Rightarrow> regex_entities t)
          else regex_entities t), g')))"

text \<open>\<^verbatim>\<open>detect_entities_in_value\<close>, over the detection of one text.\<close>

fun entities_walk :: "(string \<Rightarrow> string list) \<Rightarrow> json \<Rightarrow> string list" where
  "entities_walk f (JStr s) = f s"
| "entities_walk f (JObj kvs) = concat (map (\<lambda>(k, v). entities_walk f v) kvs)"
| "entities_walk f (JList xs) = concat (map (entities_walk f) xs)"
| "entities_walk f v = []"

definition detect_entities_in_value :: "(string \<Rightarrow> string list) \<Rightarrow> json \<Rightarrow> string list" where
  "detect_entities_in_value detect v = sort (remdups (entities_walk detect v))"

section \<open>Redaction and detection agree\<close>

lemma patterns_wf:
  "\<forall>(r, tag) \<in> set REGEX_PATTERNS. re_proper r \<and> re_avoids (CHR ''<'') r \<and> CHR ''<'' \<in> set tag"
  by code_simp

lemma re_sub_search:
  assumes "(r, tag) \<in> set REGEX_PATTERNS"
  shows "\<not> re_search r s \<Longrightarrow> re_sub r tag s = s"
    and "count_list s (CHR ''<'') \<le> count_list (re_sub r tag s) (CHR ''<'')"
    and "re_search r s \<Longrightarrow> count_list s (CHR ''<'') < count_list (re_sub r tag s) (CHR ''<'')"
  using assms patterns_wf re_sub_none [of r None s tag] re_sub_count [of "CHR ''<''" r tag "(None, s)"]
    re_sub_counts_more [of r "CHR ''<''" tag None s]
  by (auto simp: re_sub_def re_search_def)

text \<open>The fold, for any part of the list of patterns.\<close>

abbreviation redact_with :: "(re \<times> string) list \<Rightarrow> string \<Rightarrow> string" where
  "redact_with ps s \<equiv> foldl (\<lambda>t (r, tag). re_sub r tag t) s ps"

lemma redact_with_count:
  "set ps \<subseteq> set REGEX_PATTERNS \<Longrightarrow> count_list s (CHR ''<'') \<le> count_list (redact_with ps s) (CHR ''<'')"
proof (induction ps arbitrary: s)
  case (Cons p ps)
  obtain r tag where p: "p = (r, tag)" by (cases p)
  have "count_list s (CHR ''<'') \<le> count_list (re_sub r tag s) (CHR ''<'')"
    by (rule re_sub_search(2)) (use Cons.prems p in simp)
  also have "\<dots> \<le> count_list (redact_with ps (re_sub r tag s)) (CHR ''<'')" by (rule Cons.IH) (use Cons.prems in simp)
  finally show ?case by (simp add: p)
qed simp

lemma redact_with_more:
  assumes "set ps \<subseteq> set REGEX_PATTERNS" "\<exists>(r, tag) \<in> set ps. re_search r s"
  shows "count_list s (CHR ''<'') < count_list (redact_with ps s) (CHR ''<'')"
  using assms
proof (induction ps)
  case (Cons p ps)
  obtain r tag where p: "p = (r, tag)" by (cases p)
  have mem: "(r, tag) \<in> set REGEX_PATTERNS" using Cons.prems p by simp
  show ?case
  proof (cases "re_search r s")
    case True
    have "count_list s (CHR ''<'') < count_list (re_sub r tag s) (CHR ''<'')" using re_sub_search(3) [OF mem True] .
    also have "\<dots> \<le> count_list (redact_with ps (re_sub r tag s)) (CHR ''<'')" by (rule redact_with_count) (use Cons.prems in simp)
    finally show ?thesis by (simp add: p)
  next
    case False
    with Cons show ?thesis by (simp add: p re_sub_search(1) [OF mem False])
  qed
qed simp

lemma redact_with_none:
  "set ps \<subseteq> set REGEX_PATTERNS \<Longrightarrow> \<forall>(r, tag) \<in> set ps. \<not> re_search r s \<Longrightarrow> redact_with ps s = s"
  by (induction ps) (auto simp: re_sub_search(1))

lemma sort_remdups_Nil [simp]: "sort (remdups xs) = [] \<longleftrightarrow> xs = []"
  by (metis set_empty set_remdups set_sort)

lemma regex_entities_Nil: "regex_entities s = [] \<longleftrightarrow> (\<forall>(r, tag) \<in> set REGEX_PATTERNS. \<not> re_search r s)"
  by (auto simp: regex_entities_def)

lemma regex_redact_same: "regex_redact s = s \<longleftrightarrow> regex_entities s = []"
proof (cases "regex_entities s = []")
  case True
  then show ?thesis unfolding regex_entities_Nil regex_redact_def by (simp add: redact_with_none)
next
  case False
  then have "count_list s (CHR ''<'') < count_list (regex_redact s) (CHR ''<'')"
    unfolding regex_entities_Nil regex_redact_def by (intro redact_with_more) auto
  with False show ?thesis by auto
qed

lemma regex_redact_chars: "set (regex_redact s) \<subseteq> set s \<union> \<Union> (set ` snd ` set REGEX_PATTERNS)"
proof -
  have "set (redact_with ps s) \<subseteq> set s \<union> \<Union> (set ` snd ` set ps)" for ps
  proof (induction ps arbitrary: s)
    case (Cons p ps)
    show ?case using Cons.IH [of "re_sub (fst p) (snd p) s"] re_sub_chars [of "fst p" "snd p" "(None, s)"]
      by (cases p) (auto simp: re_sub_def)
  qed simp
  then show ?thesis by (simp add: regex_redact_def)
qed

lemma regex_redact_ne: "s \<noteq> [] \<Longrightarrow> regex_redact s \<noteq> []"
proof (cases "regex_entities s = []")
  case False
  then have "count_list s (CHR ''<'') < count_list (regex_redact s) (CHR ''<'')"
    unfolding regex_entities_Nil regex_redact_def by (intro redact_with_more) auto
  then show ?thesis by auto
qed (metis regex_redact_same)

text \<open>Values: the walk maps the texts and keeps everything else.\<close>

fun value_map :: "(string \<Rightarrow> string) \<Rightarrow> json \<Rightarrow> json" where
  "value_map g (JStr s) = JStr (g s)"
| "value_map g (JObj kvs) = JObj (map (\<lambda>(k, v). (k, value_map g v)) kvs)"
| "value_map g (JList xs) = JList (map (value_map g) xs)"
| "value_map g v = v"

lemma redact_value_total:
  assumes "\<And>s. f s = Inr (g s)"
  shows "redact_value f v = Inr (value_map g v)"
proof (induction v)
  case (JList xs)
  then have "map (redact_value f) xs = map (\<lambda>x. Inr (value_map g x)) xs" by simp
  moreover have "traverse id (map (\<lambda>x. Inr (value_map g x) :: string + json) xs) = Inr (map (value_map g) xs)"
    by (induction xs) auto
  ultimately show ?case by (simp only: redact_value.simps value_map.simps map_sum.simps)
next
  case (JObj kvs)
  have "map (\<lambda>(k, v). (k, redact_value f v)) kvs = map (\<lambda>(k, v). (k, Inr (value_map g v))) kvs"
    by (rule map_cong [OF refl]) (use JObj in force)
  moreover have "traverse (\<lambda>(k, r). map_sum id (\<lambda>v. (k, v)) r) (map (\<lambda>(k, v). (k, Inr (value_map g v) :: string + json)) kvs) =
      Inr (map (\<lambda>(k, v). (k, value_map g v)) kvs)"
    by (induction kvs) auto
  ultimately show ?case by (simp only: redact_value.simps value_map.simps map_sum.simps)
qed (simp_all add: assms)

lemma value_map_same:
  assumes "\<And>s. g s = s \<longleftrightarrow> d s = []"
  shows "value_map g v = v \<longleftrightarrow> entities_walk d v = []"
proof (induction v)
  case (JList xs)
  have "map (value_map g) xs = xs \<longleftrightarrow> (\<forall>x \<in> set xs. value_map g x = x)" by (simp add: map_idI list_eq_iff_nth_eq all_set_conv_all_nth)
  with JList show ?case by simp
next
  case (JObj kvs)
  have "map (\<lambda>(k, v). (k, value_map g v)) kvs = kvs \<longleftrightarrow> (\<forall>(k, v) \<in> set kvs. value_map g v = v)"
    by (induction kvs) auto
  with JObj show ?case by force
qed (simp_all add: assms)

lemma redact_text_regex:
  assumes "backend g force_regex = ''regex''"
  shows "redact_text P g force_regex t = Inr (regex_redact t)"
proof -
  have "regex_redact [] = []" by code_simp
  with assms show ?thesis by (simp add: redact_text_def)
qed

section \<open>Properties\<close>

text \<open>C27. With the regular-expression backend, redaction of a value and detection in it agree: redaction always
  returns, maps every text of the value and keeps keys, order and all other values, and the value comes
  back unchanged exactly when no entity is detected in it.\<close>

theorem redaction_reported:
  assumes "backend g force_regex = ''regex''"
  shows "redact_value (redact_text P g force_regex) v = Inr (value_map regex_redact v) \<and>
    (value_map regex_redact v = v \<longleftrightarrow> detect_entities_in_value regex_entities v = [])"
proof
  show "redact_value (redact_text P g force_regex) v = Inr (value_map regex_redact v)"
    by (rule redact_value_total) (rule redact_text_regex [OF assms])
  show "value_map regex_redact v = v \<longleftrightarrow> detect_entities_in_value regex_entities v = []"
    unfolding detect_entities_in_value_def sort_remdups_Nil by (rule value_map_same) (rule regex_redact_same)
qed

definition no_package :: presidio where
  "no_package = \<lparr> pr_analyze = (\<lambda>_. Inl ''RuntimeError''), pr_anonymize = (\<lambda>t _ _. t) \<rparr>"

definition fresh_globals :: redactor_globals where
  "fresh_globals = \<lparr> rg_available = None, rg_singleton = None, rg_log_singleton = None \<rparr>"

definition leaky_value :: json where
  "leaky_value = JObj [(''msg'', JStr ''ssn 123-45-6789''), (''n'', JInt 5)]"

theorem redaction_reported_witness:
  "redact_value (redact_text no_package fresh_globals True) leaky_value = Inr (value_map regex_redact leaky_value) \<and>
   value_map regex_redact leaky_value \<noteq> leaky_value"
proof -
  have b: "backend fresh_globals True = ''regex''" by (simp add: backend_def)
  have "detect_entities_in_value regex_entities leaky_value \<noteq> []" by code_simp
  with redaction_reported [OF b, of no_package leaky_value] show ?thesis by simp
qed

end
