(* ===== verification/Scanner.thy ===== *)
theory Scanner
  imports Event_Store Redactor Py_Datetime
begin

text \<open>
  The scanner for personal data at rest, \<^verbatim>\<open>auditor/scanner/memory_log_scan.py\<close>: it walks the stored payloads of a
  tenant, collects what it finds by run, and persists one verdict and flag for each run. The detection of
  entities in a text is an argument, as are the identifiers and the clock; a table that does not exist is
  \<open>None\<close>. The clock is read once for a scan here; no property is about the times it writes. The last section relates the scanner and the redaction at rest of the event store.
\<close>

section \<open>Findings\<close>

definition HIGH_SEVERITY_ENTITIES :: "string list" where
  "HIGH_SEVERITY_ENTITIES = [''US_SSN'', ''CREDIT_CARD'', ''PRIVATE_KEY'', ''GENERIC_API_KEY'']"

record run_finding =
  rf_run_id :: uuid
  rf_tenant_id :: uuid
  rf_counts :: "(string, nat) pydict"
  rf_event_ids :: "uuid list"
  rf_memory_hits :: nat

definition rf_total :: "run_finding \<Rightarrow> nat" where
  "rf_total f = sum_list (map snd (rf_counts f))"

definition entity_types :: "run_finding \<Rightarrow> string list" where
  "entity_types f = sort (map fst (rf_counts f))"

definition severity_hint :: "run_finding \<Rightarrow> string" where
  "severity_hint f =
     (if list_ex (\<lambda>(e, _). e \<in> set HIGH_SEVERITY_ENTITIES) (rf_counts f) then ''high''
      else if 5 \<le> rf_total f then ''medium'' else ''low'')"

text \<open>\<^verbatim>\<open>_parse_since\<close>. \<open>fromiso\<close> is \<^verbatim>\<open>datetime.fromisoformat\<close>.\<close>

definition parse_since :: "(string \<Rightarrow> timestamp option) \<Rightarrow> timestamp \<Rightarrow> string option \<Rightarrow> time_error + timestamp option" where
  "parse_since fromiso now v =
     (case v of
        None \<Rightarrow> Inr None
      | Some s \<Rightarrow>
          if s = [] then Inr None
          else (let t = py_lower (py_strip s); ds = takeWhile is_digit t; u = dropWhile is_digit t in
            if ds \<noteq> [] \<and> (u = ''h'' \<or> u = ''d'') then map_sum id Some (time_back now ds (unit_micros (hd u)))
            else (case fromiso s of None \<Rightarrow> Inl Time_ValueError | Some x \<Rightarrow> Inr (Some x))))"

definition extract_entities :: "(string \<Rightarrow> string list) \<Rightarrow> (string, json) pydict \<Rightarrow> string list" where
  "extract_entities detect payload =
     (if ''_pii_redacted'' \<in> fst ` set payload then [] else detect_entities_in_value detect (JObj payload))"

definition new_finding :: "uuid \<Rightarrow> uuid \<Rightarrow> run_finding" where
  "new_finding run tenant = \<lparr> rf_run_id = run, rf_tenant_id = tenant, rf_counts = [], rf_event_ids = [], rf_memory_hits = 0 \<rparr>"

definition count_entity :: "(string, nat) pydict \<Rightarrow> string \<Rightarrow> (string, nat) pydict" where
  "count_entity cs e = dict_set e (dict_get_or 0 cs e + 1) cs"

definition add_entities :: "string list \<Rightarrow> run_finding \<Rightarrow> run_finding" where
  "add_entities es f = f\<lparr> rf_counts := foldl count_entity (rf_counts f) es \<rparr>"

type_synonym findings = "(uuid, run_finding) pydict"

section \<open>The scans\<close>

definition scan_event :: "(string \<Rightarrow> string list) \<Rightarrow> findings \<Rightarrow> event_row \<Rightarrow> findings" where
  "scan_event detect fs r =
     (let es = extract_entities detect (er_payload r) in
      if es = [] then fs
      else (let f = dict_get_or (new_finding (er_run_id r) (er_tenant_id r)) fs (er_run_id r) in
        dict_set (er_run_id r) ((add_entities es f)\<lparr> rf_event_ids := rf_event_ids f @ [er_event_id r] \<rparr>) fs))"

definition in_window :: "uuid \<Rightarrow> timestamp option \<Rightarrow> event_row \<Rightarrow> bool" where
  "in_window tenant since r =
     (er_tenant_id r = tenant \<and> (case since of None \<Rightarrow> True | Some t \<Rightarrow> t \<le> er_ts r))"

definition scan_events :: "(string \<Rightarrow> string list) \<Rightarrow> uuid \<Rightarrow> timestamp option \<Rightarrow> db \<Rightarrow> findings" where
  "scan_events detect tenant since d = foldl (scan_event detect) [] (filter (in_window tenant since) (db_events d))"

record memory_row =
  mr_tenant_id :: uuid
  mr_created_in_run_id :: "uuid option"
  mr_flags :: "(string, json) pydict"

definition scan_memory_row :: "(string \<Rightarrow> string list) \<Rightarrow> findings \<Rightarrow> memory_row \<Rightarrow> findings" where
  "scan_memory_row detect fs r =
     (let es = extract_entities detect (mr_flags r) in
      if es = [] then fs
      else case mr_created_in_run_id r of
        None \<Rightarrow> fs
      | Some run \<Rightarrow>
          (let f = dict_get_or (new_finding run (mr_tenant_id r)) fs run in
           dict_set run ((add_entities es f)\<lparr> rf_memory_hits := rf_memory_hits f + 1 \<rparr>) fs))"

definition scan_memory :: "(string \<Rightarrow> string list) \<Rightarrow> uuid \<Rightarrow> memory_row list option \<Rightarrow> findings \<Rightarrow> findings" where
  "scan_memory detect tenant table fs =
     (case table of
        None \<Rightarrow> fs
      | Some rows \<Rightarrow> foldl (scan_memory_row detect) fs (filter (\<lambda>r. mr_tenant_id r = tenant) rows))"

definition finding_to_verdict :: "uuid \<Rightarrow> timestamp \<Rightarrow> run_finding \<Rightarrow> verdict" where
  "finding_to_verdict vid now f =
     (let breakdown = py_join '', '' (map (\<lambda>e. e @ ''x'' @ str_nat (dict_get_or 0 (rf_counts f) e)) (entity_types f)) in
      \<lparr> vd_verdict_id = vid, vd_run_id = rf_run_id f, vd_tenant_id = rf_tenant_id f, vd_detector = ''pii_at_rest'',
        vd_asi_category = ''PII_AT_REST'', vd_result = VIOLATION, vd_confidence = f64 (95 / 100),
        vd_evidence =
          evidence_text (''PII at rest detected across '' @ str_nat (length (rf_event_ids f)) @ '' event(s)'' @
            (if rf_memory_hits f = 0 then [] else '' + '' @ str_nat (rf_memory_hits f) @ '' memory entrie(s)'') @ '': '' @ breakdown) #
          map (\<lambda>e. \<lparr> ev_event_id = Some e, ev_reason = ''contained PII at rest'' \<rparr>) (take 5 (rf_event_ids f)),
        vd_judge_model = None, vd_judge_prompt_v = None,
        vd_rubric_scores = Some [(''severity'', JStr (severity_hint f)),
          (''entity_counts'', JObj (map (\<lambda>(e, n). (e, JInt (int n))) (rf_counts f))),
          (''events_scanned'', JInt (int (length (rf_event_ids f)))), (''memory_hits'', JInt (int (rf_memory_hits f)))],
        vd_ts = now \<rparr>)"

text \<open>Fresh identifiers of a finding: verdict, flag, incident.\<close>

type_synonym scan_ids = "uuid \<Rightarrow> uuid \<times> uuid \<times> uuid"

definition persist_finding :: "scan_ids \<Rightarrow> timestamp \<Rightarrow> nat \<times> db \<Rightarrow> run_finding \<Rightarrow> nat \<times> db" where
  "persist_finding ids now st f =
     (let (vid, fid, iid) = ids (rf_run_id f);
          v = finding_to_verdict vid now f;
          flag = aggregate fid now (rf_run_id f) (rf_tenant_id f) [v]
      in case store_run_result iid now [v] flag (snd st) of
           Inl _ \<Rightarrow> st
         | Inr d \<Rightarrow> (fst st + 1, d))"

record scan_summary =
  ss_events_findings :: nat
  ss_memory_findings :: nat
  ss_runs_flagged :: nat
  ss_verdicts_persisted :: nat

definition run_scan ::
  "(string \<Rightarrow> string list) \<Rightarrow> scan_ids \<Rightarrow> timestamp \<Rightarrow> uuid \<Rightarrow> timestamp option \<Rightarrow> memory_row list option \<Rightarrow> db \<Rightarrow>
   scan_summary \<times> db" where
  "run_scan detect ids now tenant since table d =
     (let fs = scan_events detect tenant since d;
          fs' = scan_memory detect tenant table fs;
          fresh = length (filter (\<lambda>(k, _). k \<notin> fst ` set fs) fs');
          (n, d') = foldl (persist_finding ids now) (0, d) (map snd fs')
      in (\<lparr> ss_events_findings = length fs,
            ss_memory_findings = fresh + length (filter (\<lambda>(k, f). k \<in> fst ` set fs \<and> 0 < rf_memory_hits f) fs'),
            ss_runs_flagged = length fs', ss_verdicts_persisted = n \<rparr>, d'))"

section \<open>What a scan collects\<close>

definition row_entities :: "(string \<Rightarrow> string list) \<Rightarrow> event_row \<Rightarrow> string list" where
  "row_entities detect r = extract_entities detect (er_payload r)"

text \<open>The leaking rows of a run, and the leaking memory entries it created.\<close>

definition leaks :: "(string \<Rightarrow> string list) \<Rightarrow> uuid \<Rightarrow> timestamp option \<Rightarrow> db \<Rightarrow> uuid \<Rightarrow> event_row list" where
  "leaks detect tenant since d run =
     filter (\<lambda>r. in_window tenant since r \<and> er_run_id r = run \<and> row_entities detect r \<noteq> []) (db_events d)"

definition memory_leaks :: "(string \<Rightarrow> string list) \<Rightarrow> uuid \<Rightarrow> memory_row list option \<Rightarrow> uuid \<Rightarrow> memory_row list" where
  "memory_leaks detect tenant table run =
     (case table of None \<Rightarrow> []
      | Some rows \<Rightarrow> filter (\<lambda>r. mr_tenant_id r = tenant \<and> mr_created_in_run_id r = Some run \<and>
          extract_entities detect (mr_flags r) \<noteq> []) rows)"

definition found_entities ::
  "(string \<Rightarrow> string list) \<Rightarrow> uuid \<Rightarrow> timestamp option \<Rightarrow> memory_row list option \<Rightarrow> db \<Rightarrow> uuid \<Rightarrow> string list" where
  "found_entities detect tenant since table d run =
     concat (map (row_entities detect) (leaks detect tenant since d run)) @
     concat (map (extract_entities detect \<circ> mr_flags) (memory_leaks detect tenant table run))"

definition event_hit :: "(string \<Rightarrow> string list) \<Rightarrow> run_finding \<Rightarrow> event_row \<Rightarrow> run_finding" where
  "event_hit detect f r = (add_entities (row_entities detect r) f)\<lparr> rf_event_ids := rf_event_ids f @ [er_event_id r] \<rparr>"

definition memory_hit :: "(string \<Rightarrow> string list) \<Rightarrow> run_finding \<Rightarrow> memory_row \<Rightarrow> run_finding" where
  "memory_hit detect f r = (add_entities (extract_entities detect (mr_flags r)) f)\<lparr> rf_memory_hits := rf_memory_hits f + 1 \<rparr>"

lemma scan_event_get:
  "dict_get (scan_event detect fs r) run =
     (if er_run_id r = run \<and> row_entities detect r \<noteq> []
      then Some (event_hit detect (dict_get_or (new_finding run (er_tenant_id r)) fs run) r) else dict_get fs run)"
  by (auto simp: scan_event_def Let_def row_entities_def event_hit_def dict_get_set)

lemma scan_events_get:
  assumes "\<forall>r \<in> set rows. er_tenant_id r = tenant"
  shows "dict_get (foldl (scan_event detect) fs rows) run =
     (let hits = filter (\<lambda>r. er_run_id r = run \<and> row_entities detect r \<noteq> []) rows in
      if hits = [] then dict_get fs run
      else Some (foldl (event_hit detect) (dict_get_or (new_finding run tenant) fs run) hits))"
  using assms
proof (induction rows arbitrary: fs)
  case (Cons r rows)
  have "\<forall>r \<in> set rows. er_tenant_id r = tenant" using Cons.prems by simp
  note IH = Cons.IH [OF this, of "scan_event detect fs r", unfolded Let_def]
  show ?case
    unfolding foldl.simps IH using Cons.prems by (auto simp: Let_def scan_event_get dict_get_or_def)
qed simp

lemma event_hits:
  "foldl (event_hit detect) f hits = f\<lparr>
     rf_counts := foldl count_entity (rf_counts f) (concat (map (row_entities detect) hits)),
     rf_event_ids := rf_event_ids f @ map er_event_id hits \<rparr>"
  by (induction hits arbitrary: f) (simp_all add: event_hit_def add_entities_def)

lemma scan_memory_row_get:
  "dict_get (scan_memory_row detect fs r) run =
     (if mr_created_in_run_id r = Some run \<and> extract_entities detect (mr_flags r) \<noteq> []
      then Some (memory_hit detect (dict_get_or (new_finding run (mr_tenant_id r)) fs run) r) else dict_get fs run)"
  by (auto simp: scan_memory_row_def Let_def memory_hit_def dict_get_set split: option.split)

lemma scan_memory_rows_get:
  assumes "\<forall>r \<in> set rows. mr_tenant_id r = tenant"
  shows "dict_get (foldl (scan_memory_row detect) fs rows) run =
     (let hits = filter (\<lambda>r. mr_created_in_run_id r = Some run \<and> extract_entities detect (mr_flags r) \<noteq> []) rows in
      if hits = [] then dict_get fs run
      else Some (foldl (memory_hit detect) (dict_get_or (new_finding run tenant) fs run) hits))"
  using assms
proof (induction rows arbitrary: fs)
  case (Cons r rows)
  have "\<forall>r \<in> set rows. mr_tenant_id r = tenant" using Cons.prems by simp
  note IH = Cons.IH [OF this, of "scan_memory_row detect fs r", unfolded Let_def]
  show ?case
    unfolding foldl.simps IH using Cons.prems by (auto simp: Let_def scan_memory_row_get dict_get_or_def)
qed simp

lemma memory_hits:
  "foldl (memory_hit detect) f hits = f\<lparr>
     rf_counts := foldl count_entity (rf_counts f) (concat (map (extract_entities detect \<circ> mr_flags) hits)),
     rf_memory_hits := rf_memory_hits f + length hits \<rparr>"
  by (induction hits arbitrary: f) (simp_all add: memory_hit_def add_entities_def)

lemma scan_events_finding:
  "dict_get (scan_events detect tenant since d) run =
     (let hits = leaks detect tenant since d run in
      if hits = [] then None else Some (foldl (event_hit detect) (new_finding run tenant) hits))"
proof -
  have "\<forall>r \<in> set (filter (in_window tenant since) (db_events d)). er_tenant_id r = tenant" by (auto simp: in_window_def)
  note get = scan_events_get [OF this, of detect "[]" run]
  have hits: "filter (\<lambda>r. er_run_id r = run \<and> row_entities detect r \<noteq> []) (filter (in_window tenant since) (db_events d)) =
      leaks detect tenant since d run"
    unfolding leaks_def filter_filter by (rule filter_cong) auto
  show ?thesis unfolding scan_events_def get hits by (simp add: Let_def dict_get_or_def)
qed

definition scan_result ::
  "(string \<Rightarrow> string list) \<Rightarrow> uuid \<Rightarrow> timestamp option \<Rightarrow> memory_row list option \<Rightarrow> db \<Rightarrow> findings" where
  "scan_result detect tenant since table d = scan_memory detect tenant table (scan_events detect tenant since d)"

definition rollup ::
  "(string \<Rightarrow> string list) \<Rightarrow> uuid \<Rightarrow> timestamp option \<Rightarrow> memory_row list option \<Rightarrow> db \<Rightarrow> uuid \<Rightarrow> run_finding" where
  "rollup detect tenant since table d run =
     \<lparr> rf_run_id = run, rf_tenant_id = tenant,
       rf_counts = foldl count_entity [] (found_entities detect tenant since table d run),
       rf_event_ids = map er_event_id (leaks detect tenant since d run),
       rf_memory_hits = length (memory_leaks detect tenant table run) \<rparr>"

lemma scan_memory_get:
  "dict_get (scan_memory detect tenant table fs) run =
     (let hits = memory_leaks detect tenant table run in
      if hits = [] then dict_get fs run
      else Some (foldl (memory_hit detect) (dict_get_or (new_finding run tenant) fs run) hits))"
proof (cases table)
  case (Some rows)
  have "\<forall>r \<in> set (filter (\<lambda>r. mr_tenant_id r = tenant) rows). mr_tenant_id r = tenant" by simp
  note get = scan_memory_rows_get [OF this, of detect fs run]
  have hits: "filter (\<lambda>r. mr_created_in_run_id r = Some run \<and> extract_entities detect (mr_flags r) \<noteq> [])
      (filter (\<lambda>r. mr_tenant_id r = tenant) rows) = memory_leaks detect tenant table run"
    unfolding memory_leaks_def Some option.case filter_filter by (rule filter_cong) auto
  show ?thesis unfolding scan_memory_def Some option.case get hits [unfolded Some] ..
qed (simp add: scan_memory_def memory_leaks_def)

lemma scan_result_get:
  "dict_get (scan_result detect tenant since table d) run =
     (if leaks detect tenant since d run = [] \<and> memory_leaks detect tenant table run = [] then None
      else Some (rollup detect tenant since table d run))"
  unfolding scan_result_def scan_memory_get dict_get_or_def scan_events_finding
  by (simp add: Let_def event_hits memory_hits rollup_def new_finding_def found_entities_def foldl_append
      del: concat_append)

lemma wf_scan: "wf_dict fs \<Longrightarrow> wf_dict (foldl (scan_event detect) fs rows)"
  by (induction rows arbitrary: fs) (auto simp: scan_event_def Let_def)

lemma wf_scan_memory: "wf_dict fs \<Longrightarrow> wf_dict (foldl (scan_memory_row detect) fs rows)"
  by (induction rows arbitrary: fs) (auto simp: scan_memory_row_def Let_def split: option.split)

lemma scan_result_wf: "wf_dict (scan_result detect tenant since table d)"
proof -
  have "wf_dict ([] :: findings)" by (simp add: wf_dict_def)
  then show ?thesis
    by (simp add: scan_result_def scan_memory_def scan_events_def wf_scan wf_scan_memory split: option.split)
qed

lemma count_entities: "dict_get_or 0 (foldl count_entity cs es) e = dict_get_or 0 cs e + count_list es e"
  by (induction es arbitrary: cs) (simp_all add: count_entity_def dict_get_or_def dict_get_set)

lemma count_entity_keys: "fst ` set (foldl count_entity cs es) = fst ` set cs \<union> set es"
proof (induction es arbitrary: cs)
  case (Cons e es)
  have "fst ` set (count_entity cs e) = insert e (fst ` set cs)"
    using keys_dict_set [of e "dict_get_or 0 cs e + 1" cs] by (simp add: count_entity_def)
  with Cons show ?case by simp
qed simp

lemma rf_total_count: "sum_list (map snd (foldl count_entity cs es)) = sum_list (map snd cs) + length es"
proof (induction es arbitrary: cs)
  case (Cons e es)
  have "sum_list (map snd (dict_set e (dict_get_or 0 cs e + 1) cs)) = sum_list (map snd cs) + 1"
    by (induction cs) (auto simp: dict_get_or_def)
  with Cons show ?case by (simp add: count_entity_def)
qed simp

text \<open>The severity of a run, from the entities found in it.\<close>

definition leak_severity :: "string list \<Rightarrow> severity" where
  "leak_severity es =
     (if \<exists>e \<in> set es. e \<in> set HIGH_SEVERITY_ENTITIES then HIGH else if 5 \<le> length es then MEDIUM else LOW)"

lemma severity_hint_rollup:
  "severity_hint (rollup detect tenant since table d run) =
     severity_value (leak_severity (found_entities detect tenant since table d run))"
proof -
  let ?es = "found_entities detect tenant since table d run"
  have "list_ex (\<lambda>(e, _). e \<in> set HIGH_SEVERITY_ENTITIES) (foldl count_entity [] ?es) \<longleftrightarrow>
      (\<exists>e \<in> fst ` set (foldl count_entity [] ?es). e \<in> set HIGH_SEVERITY_ENTITIES)"
    by (force simp: list_ex_iff)
  then show ?thesis
    by (simp add: severity_hint_def rollup_def rf_total_def rf_total_count leak_severity_def severity_value_def count_entity_keys)
qed

section \<open>What a scan persists\<close>

declare severity_of_value [simp]

lemma finding_classified:
  "severity_hint f = severity_value s \<Longrightarrow> score_severity [finding_to_verdict vid now f] = s"
  by (simp add: score_severity_def classify_def finding_to_verdict_def Let_def map_filter_simps)

text \<open>The rows of one finding.\<close>

definition scan_flag :: "scan_ids \<Rightarrow> timestamp \<Rightarrow> run_finding \<Rightarrow> flag" where
  "scan_flag ids now f =
     (let (vid, fid, iid) = ids (rf_run_id f) in
      the (aggregate fid now (rf_run_id f) (rf_tenant_id f) [finding_to_verdict vid now f]))"

lemma finding_verdict_fields:
  "vd_result (finding_to_verdict vid now f) = VIOLATION" "vd_verdict_id (finding_to_verdict vid now f) = vid"
  "vd_run_id (finding_to_verdict vid now f) = rf_run_id f" "vd_tenant_id (finding_to_verdict vid now f) = rf_tenant_id f"
  "vd_asi_category (finding_to_verdict vid now f) = ''PII_AT_REST''"
  by (simp_all add: finding_to_verdict_def Let_def)

lemma aggregate_finding:
  assumes "ids (rf_run_id f) = (vid, fid, iid)"
  shows "aggregate fid now (rf_run_id f) (rf_tenant_id f) [finding_to_verdict vid now f] = Some (scan_flag ids now f)"
    "fl_flag_id (scan_flag ids now f) = fid" "fl_run_id (scan_flag ids now f) = rf_run_id f"
    "fl_tenant_id (scan_flag ids now f) = rf_tenant_id f"
    "fl_severity (scan_flag ids now f) = score_severity [finding_to_verdict vid now f]"
    "fl_asi_categories (scan_flag ids now f) = [''PII_AT_REST'']" "fl_verdict_ids (scan_flag ids now f) = [vid]"
  by (simp_all add: scan_flag_def assms aggregate_def Let_def finding_verdict_fields)

text \<open>The identifiers a scan draws are new.\<close>

definition ids_fresh :: "scan_ids \<Rightarrow> db \<Rightarrow> bool" where
  "ids_fresh ids d \<longleftrightarrow>
     inj (fst \<circ> ids) \<and> inj (fst \<circ> snd \<circ> ids) \<and> inj (snd \<circ> snd \<circ> ids) \<and>
     (\<forall>run. fst (ids run) \<notin> vr_verdict_id ` set (db_verdicts d) \<and> fst (snd (ids run)) \<notin> fr_flag_id ` set (db_flags d) \<and>
        snd (snd (ids run)) \<notin> ic_incident_id ` set (db_incidents d)) \<and>
     distinct (map vr_verdict_id (db_verdicts d)) \<and> distinct (map fr_flag_id (db_flags d)) \<and>
     distinct (map ic_incident_id (db_incidents d))"

definition ids_unused :: "scan_ids \<Rightarrow> uuid set \<Rightarrow> db \<Rightarrow> bool" where
  "ids_unused ids runs d \<longleftrightarrow>
     (\<forall>run \<in> runs. fst (ids run) \<notin> vr_verdict_id ` set (db_verdicts d) \<and> fst (snd (ids run)) \<notin> fr_flag_id ` set (db_flags d) \<and>
        snd (snd (ids run)) \<notin> ic_incident_id ` set (db_incidents d)) \<and>
     distinct (map vr_verdict_id (db_verdicts d)) \<and> distinct (map fr_flag_id (db_flags d)) \<and>
     distinct (map ic_incident_id (db_incidents d))"

lemma persist_one:
  assumes unused: "ids_unused ids (insert (rf_run_id f) runs) d" and run: "rf_run_id f \<in> fst ` set (db_runs d)"
    and new: "rf_run_id f \<notin> runs"
    and inj: "inj (fst \<circ> ids)" "inj (fst \<circ> snd \<circ> ids)" "inj (snd \<circ> snd \<circ> ids)"
  shows "\<exists>d'. persist_finding ids now (n, d) f = (n + 1, d') \<and> db_flags d' = db_flags d @ [flag_row_of (scan_flag ids now f)] \<and>
    db_runs d' = db_runs d \<and> ids_unused ids runs d'"
proof -
  obtain vid fid iid where i: "ids (rf_run_id f) = (vid, fid, iid)" by (cases "ids (rf_run_id f)") auto
  have other: "fst (ids r) \<noteq> vid \<and> fst (snd (ids r)) \<noteq> fid \<and> snd (snd (ids r)) \<noteq> iid" if "r \<in> runs" for r
    using that new injD [OF inj(1), of r "rf_run_id f"] injD [OF inj(2), of r "rf_run_id f"] injD [OF inj(3), of r "rf_run_id f"]
    by (auto simp: i)
  show ?thesis
    using unused run other unfolding persist_finding_def store_run_result_def i Let_def split_conv aggregate_finding(1) [of ids f vid fid iid now, OF i]
    by (auto simp: ids_unused_def i verdict_row_of_def flag_row_of_def aggregate_finding(2-) [of ids f vid fid iid, OF i] finding_verdict_fields
        open_incident_for_flag_def Let_def)
qed

text \<open>A finding about a run without a row in the table of runs violates the foreign key of the verdicts and is left out.\<close>

lemma persist_unknown_run: "rf_run_id f \<notin> fst ` set (db_runs d) \<Longrightarrow> persist_finding ids now (n, d) f = (n, d)"
  by (simp add: persist_finding_def store_run_result_def verdict_row_of_def finding_verdict_fields Let_def split: prod.split)

definition known_runs :: "db \<Rightarrow> run_finding list \<Rightarrow> run_finding list" where
  "known_runs d fs = filter (\<lambda>f. rf_run_id f \<in> fst ` set (db_runs d)) fs"

lemma persist_all:
  assumes inj: "inj (fst \<circ> ids)" "inj (fst \<circ> snd \<circ> ids)" "inj (snd \<circ> snd \<circ> ids)"
  shows "ids_unused ids (rf_run_id ` set fs) d \<Longrightarrow> distinct (map rf_run_id fs) \<Longrightarrow>
    \<exists>d'. foldl (persist_finding ids now) (n, d) fs = (n + length (known_runs d fs), d') \<and>
      db_flags d' = db_flags d @ map (flag_row_of \<circ> scan_flag ids now) (known_runs d fs)"
proof (induction fs arbitrary: n d)
  case (Cons f fs)
  have new: "rf_run_id f \<notin> rf_run_id ` set fs" using Cons.prems by auto
  have un: "ids_unused ids (insert (rf_run_id f) (rf_run_id ` set fs)) d" using Cons.prems by auto
  show ?case
  proof (cases "rf_run_id f \<in> fst ` set (db_runs d)")
    case run: True
    obtain d' where d': "persist_finding ids now (n, d) f = (n + 1, d')" "db_flags d' = db_flags d @ [flag_row_of (scan_flag ids now f)]"
        "db_runs d' = db_runs d" "ids_unused ids (rf_run_id ` set fs) d'"
      using persist_one [OF un run new inj] by blast
    have "\<exists>d''. foldl (persist_finding ids now) (n + 1, d') fs = (n + 1 + length (known_runs d' fs), d'') \<and>
        db_flags d'' = db_flags d' @ map (flag_row_of \<circ> scan_flag ids now) (known_runs d' fs)"
      by (rule Cons.IH) (use Cons.prems d' in auto)
    then show ?thesis using d' run by (auto simp: known_runs_def)
  next
    case False
    have "ids_unused ids (rf_run_id ` set fs) d" using un by (simp add: ids_unused_def)
    then show ?thesis
      using Cons.IH [of d n] Cons.prems(2) persist_unknown_run [OF False] False by (simp add: known_runs_def)
  qed
qed (simp add: known_runs_def)

lemma persist_results:
  assumes "ids_fresh ids d" "distinct (map rf_run_id fs)"
  shows "\<exists>d'. foldl (persist_finding ids now) (0, d) fs = (length (known_runs d fs), d') \<and>
    db_flags d' = db_flags d @ map (flag_row_of \<circ> scan_flag ids now) (known_runs d fs)"
  using assms persist_all [of ids fs d now 0] by (simp add: ids_fresh_def ids_unused_def)

lemma scan_result_members:
  assumes "(run, f) \<in> set (scan_result detect tenant since table d)"
  shows "f = rollup detect tenant since table d run" "rf_run_id f = run"
    "leaks detect tenant since d run \<noteq> [] \<or> memory_leaks detect tenant table run \<noteq> []"
proof -
  have "dict_get (scan_result detect tenant since table d) run = Some f"
    using assms scan_result_wf unfolding wf_dict_def by (rule map_of_is_SomeI [rotated])
  then show f: "f = rollup detect tenant since table d run"
      and "leaks detect tenant since d run \<noteq> [] \<or> memory_leaks detect tenant table run \<noteq> []"
    by (auto simp: scan_result_get split: if_splits)
  show "rf_run_id f = run" by (simp add: f rollup_def)
qed

lemma scan_result_keys:
  "fst ` set (scan_result detect tenant since table d) =
     {run. leaks detect tenant since d run \<noteq> [] \<or> memory_leaks detect tenant table run \<noteq> []}"
proof -
  have "fst ` set (scan_result detect tenant since table d) = dom (dict_get (scan_result detect tenant since table d))"
    by (simp add: dom_map_of_conv_image_fst)
  then show ?thesis by (auto simp: dom_def scan_result_get split: if_splits)
qed

lemma scan_result_runs:
  "map rf_run_id (map snd (scan_result detect tenant since table d)) = map fst (scan_result detect tenant since table d)"
  using scan_result_members(2) by (auto intro!: map_cong)

definition leaking_runs :: "(string \<Rightarrow> string list) \<Rightarrow> uuid \<Rightarrow> timestamp option \<Rightarrow> memory_row list option \<Rightarrow> db \<Rightarrow> uuid set" where
  "leaking_runs detect tenant since table d =
     {run. leaks detect tenant since d run \<noteq> [] \<or> memory_leaks detect tenant table run \<noteq> []}"

section \<open>Properties\<close>


definition leaky_row :: event_row where
  "leaky_row = \<lparr> er_event_id = ''e1'', er_run_id = ''r1'', er_tenant_id = ''t1'', er_span_id = ''s1'', er_parent_span_id = None,
     er_channel = ''VOLUNTARY'', er_event_type = ''llm.call'', er_ts = 3, er_pid = JNull,
     er_payload = [(''msg'', JStr ''ssn 123-45-6789'')], er_payload_hash = [] \<rparr>"

definition clean_row :: event_row where
  "clean_row = leaky_row\<lparr> er_event_id := ''e2'', er_run_id := ''r2'', er_payload := [(''msg'', JStr ''hello'')] \<rparr>"

definition leaky_db :: db where
  "leaky_db = \<lparr> db_runs = map (\<lambda>r. (r, \<lparr> rr_tenant_id = ''t1'', rr_status = ''completed'', rr_ended_at = Some 4,
       rr_declared_goal = None, rr_metadata = [] \<rparr>)) [''r1'', ''r2''],
     db_events = [leaky_row, clean_row], db_gate_decisions = [], db_verdicts = [], db_flags = [], db_incidents = [] \<rparr>"

definition tagged_ids :: scan_ids where
  "tagged_ids run = (CHR ''v'' # run, CHR ''f'' # run, CHR ''i'' # run)"

text \<open>One leaking run with a row, and a leaking memory entry whose run has none.\<close>

definition stray_memory :: "memory_row list" where
  "stray_memory = [\<lparr> mr_tenant_id = ''t1'', mr_created_in_run_id = Some ''r9'', mr_flags = [(''note'', JStr ''ssn 123-45-6789'')] \<rparr>]"


section \<open>The redactor and stored messages\<close>

lemma hex_chars: "c \<in> set (hex bs) \<Longrightarrow> \<not> hex_space c"
proof (induction bs)
  case (Cons b bs)
  have "unat b < 256" using unsigned_less [of b, where ?'a = nat] by simp
  then have "unat b div 16 < 16" by simp
  moreover have "hex (b # bs) = hex_digit (unat b div 16) # hex_digit (unat b mod 16) # hex bs" by (simp add: hex_def hex_byte_def)
  ultimately show ?case using Cons hex_digit_value by auto
qed (simp add: hex_def)

text \<open>The regular-expression redactor satisfies the condition on which the invisibility of unsigned
  messages rests.\<close>

lemma regex_redaction_visible:
  "redaction_visible \<lparr> rx_at_rest = at_rest, rx_detect = regex_entities, rx_redact = regex_redact, rx_jsonb = jb \<rparr>"
proof -
  have tags: "\<forall>t \<in> snd ` set REGEX_PATTERNS. \<forall>c \<in> set t. \<not> hex_space c" by code_simp
  have "\<not> list_all hex_space (regex_redact (hex bs))" if "bs \<noteq> []" for bs
  proof -
    have ne: "regex_redact (hex bs) \<noteq> []" using that by (intro regex_redact_ne hex_ne)
    have "\<forall>c \<in> set (regex_redact (hex bs)). \<not> hex_space c"
      using hex_chars tags regex_redact_chars [of "hex bs"] by fastforce
    then show ?thesis using ne by (cases "regex_redact (hex bs)") auto
  qed
  then show ?thesis by (simp add: redaction_visible_def)
qed

text \<open>A hash is left alone by the redaction at rest, which skips its key, and is then reported by the scanner when ten of its
  hexadecimal digits in a row are decimal.\<close>

lemma hash_reported:
  fixes payload defines "payload \<equiv> [(''model'', JStr ''m''), (''messages_hash'', JStr ''a0fb2345678901bc'')]"
  shows "redact_payload \<lparr> rx_at_rest = True, rx_detect = regex_entities, rx_redact = regex_redact, rx_jsonb = example_jsonb \<rparr> payload = (payload, [])"
    and "extract_entities regex_entities payload = [''PHONE_NUMBER'']"
  unfolding payload_def by code_simp+

end
