(* ===== verification/Catalog.thy ===== *)
theory Catalog
  imports Events
begin

text \<open>
  The start-up check of tool files, \<^verbatim>\<open>auditor/detectors/asi04_catalog_integrity.py\<close>: the manifest of hashes made
  when a catalog is published and the comparison with the files when a run starts. Reading a file is an
  argument, since the file system changes between the two, and so is the order in which a set of names is
  iterated. The main result is that the check raises one critical violation for each tool that differs and
  passes otherwise, where differing means by contents unless two contents have the same hash.
\<close>

section \<open>Publishing and verifying\<close>

datatype file_error = FileNotFoundError | OSError string

type_synonym files = "string \<Rightarrow> file_error + bytes"

definition hash_tool_file :: "files \<Rightarrow> string \<Rightarrow> file_error + string" where
  "hash_tool_file fs path = map_sum id (\<lambda>b. hex (sha256 b)) (fs path)"

type_synonym manifest = "(string, string) pydict"

definition publish_catalog :: "files \<Rightarrow> (string, string) pydict \<Rightarrow> file_error + manifest" where
  "publish_catalog fs tool_files =
     traverse (\<lambda>(name, path). map_sum id (\<lambda>h. (name, h)) (hash_tool_file fs path)) tool_files"

text \<open>The evidence about a tool that was published.\<close>

definition published_evidence :: "files \<Rightarrow> manifest \<Rightarrow> (string, string) pydict \<Rightarrow> string \<Rightarrow> evidence list" where
  "published_evidence fs published current_files tool =
     (case dict_get current_files tool of
        None \<Rightarrow> [evidence_text (''[critical] tool '' @ py_repr tool @ '' was present at catalog publish '' @
          ''but is missing from the current tool-file map (removed or unregistered)'')]
      | Some path \<Rightarrow>
          (case hash_tool_file fs path of
             Inl FileNotFoundError \<Rightarrow> [evidence_text (''[critical] tool '' @ py_repr tool @ '' implementation file '' @
               py_repr path @ '' no longer exists (file removed after catalog publish)'')]
           | Inl (OSError exc) \<Rightarrow> [evidence_text (''[critical] tool '' @ py_repr tool @ '' implementation file '' @
               py_repr path @ '' could not be read: '' @ exc)]
           | Inr current_hash \<Rightarrow>
               (let expected_hash = dict_get_or [] published tool in
                if current_hash \<noteq> expected_hash
                then [evidence_text (''[critical] tool '' @ py_repr tool @ '' implementation file modified: '' @
                  ''published hash '' @ take 12 expected_hash @ ''.. != current '' @ take 12 current_hash @ ''..'')]
                else [])))"

definition added_evidence :: "string \<Rightarrow> evidence" where
  "added_evidence tool =
     evidence_text (''[critical] tool '' @ py_repr tool @ '' was not present at catalog publish '' @
       ''but exists in the current tool-file map (tool injected after publish)'')"

text \<open>\<open>iter\<close> is the order of a set's elements; \<open>mk\<close> the identifier and time of the n-th verdict.\<close>

definition catalog_verdict ::
  "uuid \<times> timestamp \<Rightarrow> uuid \<Rightarrow> uuid \<Rightarrow> verdict_result \<Rightarrow> rat \<Rightarrow> evidence \<Rightarrow> (string, json) pydict option \<Rightarrow> verdict" where
  "catalog_verdict it run_id tenant_id result conf ev scores =
     \<lparr> vd_verdict_id = fst it, vd_run_id = run_id, vd_tenant_id = tenant_id, vd_detector = ''asi04_catalog_integrity'',
       vd_asi_category = ''ASI04'', vd_result = result, vd_confidence = conf, vd_evidence = [ev],
       vd_judge_model = None, vd_judge_prompt_v = None, vd_rubric_scores = scores, vd_ts = snd it \<rparr>"

definition verify_catalog_integrity ::
  "(string list \<Rightarrow> string list) \<Rightarrow> (nat \<Rightarrow> uuid \<times> timestamp) \<Rightarrow> files \<Rightarrow> manifest \<Rightarrow> (string, string) pydict \<Rightarrow>
   uuid \<Rightarrow> uuid \<Rightarrow> verdict list" where
  "verify_catalog_integrity iter mk fs published current_files run_id tenant_id =
     (let published_tools = map fst published;
          current_tools = map fst current_files;
          evidence = concat (map (published_evidence fs published current_files) (iter published_tools)) @
            map added_evidence (iter (filter (\<lambda>t. t \<notin> set published_tools) current_tools))
      in if evidence = [] then
           [catalog_verdict (mk 0) run_id tenant_id OK 1
              (evidence_text (''all '' @ str_nat (length published_tools) @ '' tool implementation file hashes match the published catalog'')) None]
         else map (\<lambda>(n, ev). catalog_verdict (mk n) run_id tenant_id VIOLATION (f64 (99 / 100)) ev (Some [(''severity'', JStr ''critical'')]))
                (enumerate 0 evidence))"

text \<open>\<^verbatim>\<open>CatalogIntegrityCheck\<close>, whose state is its manifest; a failed publication leaves it as it was.\<close>

record integrity_check =
  ci_manifest :: manifest

definition new_integrity_check :: integrity_check where
  "new_integrity_check = \<lparr> ci_manifest = [] \<rparr>"

definition integrity_publish :: "files \<Rightarrow> (string, string) pydict \<Rightarrow> integrity_check \<Rightarrow> (file_error + manifest) \<times> integrity_check" where
  "integrity_publish fs tool_files c =
     (case publish_catalog fs tool_files of
        Inl e \<Rightarrow> (Inl e, c)
      | Inr m \<Rightarrow> (Inr m, c\<lparr> ci_manifest := m \<rparr>))"

definition integrity_verify ::
  "(string list \<Rightarrow> string list) \<Rightarrow> (nat \<Rightarrow> uuid \<times> timestamp) \<Rightarrow> files \<Rightarrow> (string, string) pydict \<Rightarrow> uuid \<Rightarrow> uuid \<Rightarrow>
   integrity_check \<Rightarrow> verdict list" where
  "integrity_verify iter mk fs current_files run_id tenant_id c =
     verify_catalog_integrity iter mk fs (ci_manifest c) current_files run_id tenant_id"

section \<open>Discrepancies\<close>

text \<open>A tool is as published when it has a readable file now and then, with the same hash.\<close>

definition as_published :: "files \<Rightarrow> (string, string) pydict \<Rightarrow> files \<Rightarrow> (string, string) pydict \<Rightarrow> string \<Rightarrow> bool" where
  "as_published fs0 tools fs cur t \<longleftrightarrow>
     (\<exists>p p' b b'. dict_get tools t = Some p \<and> dict_get cur t = Some p' \<and> fs0 p = Inr b \<and> fs p' = Inr b' \<and> sha256 b = sha256 b')"

definition set_order :: "(string list \<Rightarrow> string list) \<Rightarrow> bool" where
  "set_order iter \<longleftrightarrow> (\<forall>xs. set (iter xs) = set xs \<and> distinct (iter xs))"

lemma as_published_known: "as_published fs0 tools fs cur t \<Longrightarrow> t \<in> fst ` set tools"
  by (force simp: as_published_def dest: map_of_SomeD)

lemma publish_get:
  assumes "publish_catalog fs tools = Inr m"
  shows "map fst m = map fst tools"
    and "dict_get m t = (case dict_get tools t of None \<Rightarrow> None | Some p \<Rightarrow> (case fs p of Inl _ \<Rightarrow> None | Inr b \<Rightarrow> Some (hex (sha256 b))))"
    and "dict_get tools t = Some p \<Longrightarrow> \<exists>b. fs p = Inr b"
  using assms
  by (induction tools arbitrary: m)
    (auto simp: publish_catalog_def hash_tool_file_def map_sum_Inr_iff split: sum.splits if_splits option.splits)

lemma published_evidence_length: "length (published_evidence fs m cur t) \<le> 1"
  by (simp add: published_evidence_def Let_def split: option.split sum.split file_error.split)

lemma published_evidence_Nil:
  assumes m: "publish_catalog fs0 tools = Inr m" and t: "t \<in> fst ` set tools"
  shows "published_evidence fs m cur t = [] \<longleftrightarrow> as_published fs0 tools fs cur t"
proof -
  obtain p where p: "dict_get tools t = Some p" using t by (metis map_of_eq_None_iff not_None_eq)
  obtain b where b: "fs0 p = Inr b" using publish_get(3) [OF m p] by auto
  have "dict_get_or [] m t = hex (sha256 b)" using publish_get(2) [OF m, of t] by (simp add: dict_get_or_def p b)
  then show ?thesis
    by (auto simp: published_evidence_def hash_tool_file_def as_published_def p b Let_def map_sum_Inr_iff dest: hex_inj
        split: option.split sum.split file_error.split)
qed

lemma length_concat_short:
  "(\<And>x. x \<in> set xs \<Longrightarrow> length (f x) \<le> 1) \<Longrightarrow> length (concat (map f xs)) = length (filter (\<lambda>x. f x \<noteq> []) xs)"
proof (induction xs)
  case (Cons x xs)
  have "length (f x) \<le> 1" by (rule Cons.prems) simp
  then show ?case using Cons by (cases "f x") auto
qed simp

definition critical_violation :: "verdict \<Rightarrow> bool" where
  "critical_violation v \<longleftrightarrow> vd_result v = VIOLATION \<and> classify v = Some CRITICAL"

lemma catalog_violation:
  "critical_violation (catalog_verdict it run tenant VIOLATION conf ev (Some [(''severity'', JStr ''critical'')]))"
proof -
  have "severity_of (JStr ''critical'') = Some CRITICAL" by code_simp
  then show ?thesis by (simp add: critical_violation_def catalog_verdict_def classify_def)
qed

section \<open>Properties\<close>

text \<open>C30. The start-up check against a published catalog gives one critical violation for each tool that is not
  as published (missing, unreadable, added, or with a file of another hash) and otherwise exactly one
  OK verdict. A tool counts as unchanged only if its contents are the same, or if the two contents are
  a collision of SHA-256.\<close>

theorem catalog_discrepancies:
  assumes pub: "integrity_publish fs0 tools c = (Inr m, c')" and ord: "set_order iter"
    and vs: "integrity_verify iter mk fs cur run tenant c' = vs"
    and D: "D = {t \<in> fst ` set tools \<union> fst ` set cur. \<not> as_published fs0 tools fs cur t}"
  shows "(if D = {} then map vd_result vs = [OK] else list_all critical_violation vs \<and> length vs = card D) \<and>
    (\<forall>t p p' b b'. t \<notin> D \<longrightarrow> dict_get tools t = Some p \<longrightarrow> dict_get cur t = Some p' \<longrightarrow> fs0 p = Inr b \<longrightarrow> fs p' = Inr b' \<longrightarrow>
       b = b' \<or> b \<noteq> b' \<and> sha256 b = sha256 b')"
proof -
  have m: "publish_catalog fs0 tools = Inr m" and c': "ci_manifest c' = m"
    using pub by (auto simp: integrity_publish_def split: sum.splits)
  have keys: "map fst m = map fst tools" by (rule publish_get(1) [OF m])
  have iter: "set (iter xs) = set xs" "distinct (iter xs)" for xs using ord by (simp_all add: set_order_def)
  define E where "E = concat (map (published_evidence fs m cur) (iter (map fst tools)))"
  define A where "A = iter (filter (\<lambda>t. t \<notin> set (map fst tools)) (map fst cur))"
  have v: "vs = (if E @ map added_evidence A = [] then [catalog_verdict (mk 0) run tenant OK 1
      (evidence_text (''all '' @ str_nat (length (map fst tools)) @ '' tool implementation file hashes match the published catalog'')) None]
    else map (\<lambda>(n, ev). catalog_verdict (mk n) run tenant VIOLATION (f64 (99 / 100)) ev (Some [(''severity'', JStr ''critical'')]))
      (enumerate 0 (E @ map added_evidence A)))"
    using vs unfolding integrity_verify_def verify_catalog_integrity_def c' keys E_def A_def Let_def by simp
  have "length E = length (filter (\<lambda>t. published_evidence fs m cur t \<noteq> []) (iter (map fst tools)))"
    unfolding E_def by (rule length_concat_short) (rule published_evidence_length)
  also have "filter (\<lambda>t. published_evidence fs m cur t \<noteq> []) (iter (map fst tools)) =
      filter (\<lambda>t. \<not> as_published fs0 tools fs cur t) (iter (map fst tools))"
    by (rule filter_cong [OF refl]) (use published_evidence_Nil [OF m] iter(1) [of "map fst tools"] in simp)
  finally have "length E = card {t \<in> fst ` set tools. \<not> as_published fs0 tools fs cur t}"
    using distinct_card [OF distinct_filter [OF iter(2) [of "map fst tools"]]] by (simp add: iter(1))
  moreover have "length A = card {t \<in> fst ` set cur. t \<notin> fst ` set tools}"
    using distinct_card [OF iter(2) [of "filter (\<lambda>t. t \<notin> set (map fst tools)) (map fst cur)"]] by (simp add: A_def iter(1))
  moreover have "D = {t \<in> fst ` set tools. \<not> as_published fs0 tools fs cur t} \<union> {t \<in> fst ` set cur. t \<notin> fst ` set tools}"
    unfolding D using as_published_known by blast
  ultimately have card: "length (E @ map added_evidence A) = card D"
    by (simp add: card_Un_disjoint disjoint_iff)
  moreover have "finite D" unfolding D by simp
  ultimately have "E @ map added_evidence A = [] \<longleftrightarrow> D = {}" by (metis card_0_eq length_0_conv)
  then have "if D = {} then map vd_result vs = [OK] else list_all critical_violation vs \<and> length vs = card D"
    using v card by (auto simp: catalog_verdict_def list_all_iff in_set_enumerate_eq intro!: catalog_violation [unfolded catalog_verdict_def])
  moreover have "\<forall>t p p' b b'. t \<notin> D \<longrightarrow> dict_get tools t = Some p \<longrightarrow> dict_get cur t = Some p' \<longrightarrow> fs0 p = Inr b \<longrightarrow> fs p' = Inr b' \<longrightarrow>
       b = b' \<or> b \<noteq> b' \<and> sha256 b = sha256 b'"
    unfolding D by (auto simp: as_published_def dest: map_of_SomeD intro: rev_image_eqI)
  ultimately show ?thesis by blast
qed

definition example_tools :: "(string, string) pydict" where
  "example_tools = [(''mail'', ''a.py'')]"

definition injected_tools :: "(string, string) pydict" where
  "injected_tools = [(''mail'', ''a.py''), (''search'', ''b.py'')]"

theorem catalog_discrepancies_witness:
  "\<exists>m c'. integrity_publish (\<lambda>_. Inr [1]) example_tools new_integrity_check = (Inr m, c') \<and>
     map vd_result (integrity_verify remdups (\<lambda>n. ([], 0)) (\<lambda>_. Inr [1]) injected_tools ''r'' ''t'' c') = [VIOLATION]"
proof -
  obtain m c' where c: "integrity_publish (\<lambda>_. Inr [1]) example_tools new_integrity_check = (Inr m, c')"
    unfolding integrity_publish_def publish_catalog_def hash_tool_file_def example_tools_def
    by (simp only: traverse.simps split_conv map_sum.simps sum.case that)
  have ord: "set_order remdups" by (simp add: set_order_def)
  let ?ok = "as_published (\<lambda>_. Inr [1]) example_tools (\<lambda>_. Inr [1]) injected_tools"
  have keys: "fst ` set example_tools \<union> fst ` set injected_tools = {''mail'', ''search''}"
    by (simp add: example_tools_def injected_tools_def) blast
  have "?ok ''mail''" "\<not> ?ok ''search''" by (simp_all add: as_published_def example_tools_def injected_tools_def)
  then have D: "{t \<in> fst ` set example_tools \<union> fst ` set injected_tools. \<not> ?ok t} = {''search''}"
    unfolding keys by blast
  define vs where "vs = integrity_verify remdups (\<lambda>n. ([], 0)) (\<lambda>_. Inr [1]) injected_tools ''r'' ''t'' c'"
  have "list_all critical_violation vs \<and> length vs = 1"
    using catalog_discrepancies [OF c ord vs_def [symmetric] D [symmetric]] by simp
  then have "map vd_result vs = [VIOLATION]" by (cases vs) (auto simp: critical_violation_def)
  with c show ?thesis unfolding vs_def by (intro exI conjI)
qed

end
