(* ===== verification/Iso_Order.thy ===== *)
theory Iso_Order
  imports Py_Datetime
begin

text \<open>
  The texts of \<^verbatim>\<open>datetime.isoformat()\<close> of UTC time stamps are ordered like the time stamps, over the whole range
  of the type and although the fraction is left out when it is zero. Code that sorts by the text relies on it.
\<close>

section \<open>Lexicographic pieces\<close>

lemma append_less:
  fixes a b x y :: string
  assumes "length a = length b"
  shows "a @ x < b @ y \<longleftrightarrow> a < b \<or> a = b \<and> x < y"
  using assms by (induction rule: list_induct2) auto

lemma div_less_cases:
  fixes a b n :: int
  assumes "a < b" "0 < n"
  shows "a div n < b div n \<or> a div n = b div n \<and> a mod n < b mod n"
proof (cases "a div n = b div n")
  case True
  have "n * (b div n) + a mod n = a" using mult_div_mod_eq [of n a] by (simp only: True)
  moreover have "n * (b div n) + b mod n = b" by (rule mult_div_mod_eq)
  ultimately show ?thesis using assms(1) True by linarith
next
  case False
  then show ?thesis using zdiv_mono1 [of a b n] assms by simp
qed

lemma digit_char_less: "i < j \<Longrightarrow> j < 10 \<Longrightarrow> digit_char i < digit_char j"
  by (simp add: less_char_def of_digit_char)

lemma pad_int_one: "0 \<le> i \<Longrightarrow> i < 10 \<Longrightarrow> pad_int 1 i = [digit_char (nat i)]"
  by (simp add: pad_int_def pad_zeros_def str_int_def str_nat_step)

lemma pad_int_Suc:
  assumes "0 < n" "0 \<le> i"
  shows "pad_int (Suc n) i = pad_int n (i div 10) @ [digit_char (nat (i mod 10))]"
proof (cases "i < 10")
  case True
  have "replicate (Suc (n - 1)) (CHR ''0'') = replicate (n - 1) (CHR ''0'') @ [CHR ''0'']" by (simp add: replicate_append_same)
  then have "replicate n (CHR ''0'') = replicate (n - 1) (CHR ''0'') @ [CHR ''0'']" using assms by simp
  moreover have "digit_char 0 = CHR ''0''" by code_simp
  ultimately show ?thesis using True assms by (simp add: pad_int_def pad_zeros_def str_int_def str_nat_step)
next
  case False
  with assms show ?thesis
    by (simp add: pad_int_def pad_zeros_def str_int_def str_nat_step(2) [of "nat i"] nat_div_distrib nat_mod_distrib)
qed

lemma pad_int_length: "0 < n \<Longrightarrow> 0 \<le> i \<Longrightarrow> i < 10 ^ n \<Longrightarrow> length (pad_int n i) = n"
proof (induction n arbitrary: i rule: nat_induct_non_zero)
  case 1
  then show ?case using pad_int_one [of i] by simp
next
  case (Suc n)
  then show ?case by (simp add: pad_int_Suc Suc.IH)
qed

lemma pad_int_less: "0 < n \<Longrightarrow> 0 \<le> i \<Longrightarrow> i < j \<Longrightarrow> j < 10 ^ n \<Longrightarrow> pad_int n i < pad_int n j"
proof (induction n arbitrary: i j rule: nat_induct_non_zero)
  case 1
  then show ?case using pad_int_one [of i] pad_int_one [of j] digit_char_less [of "nat i" "nat j"] by simp
next
  case (Suc n)
  have len: "length (pad_int n (i div 10)) = length (pad_int n (j div 10))"
    using Suc.prems Suc.hyps by (simp add: pad_int_length)
  have "0 \<le> i div 10" "j div 10 < 10 ^ n" using Suc.prems by simp_all
  then have hd: "i div 10 < j div 10 \<Longrightarrow> pad_int n (i div 10) < pad_int n (j div 10)" using Suc.IH by simp
  have tl: "i mod 10 < j mod 10 \<Longrightarrow> digit_char (nat (i mod 10)) < digit_char (nat (j mod 10))"
    by (rule digit_char_less) (simp_all add: nat_less_iff)
  have "0 \<le> j" using Suc.prems by simp
  with div_less_cases [OF Suc.prems(2), of 10] hd tl Suc.prems(1) Suc.hyps show ?case
    by (auto simp: pad_int_Suc append_less [OF len])
qed

text \<open>One field of a text, followed by the rest.\<close>

lemma field_less:
  assumes "0 < n" "0 \<le> i" "i < 10 ^ n" "0 \<le> j" "j < 10 ^ n" "i < j \<or> i = j \<and> x < y"
  shows "pad_int n i @ x < pad_int n j @ y"
proof -
  have "length (pad_int n i) = length (pad_int n j)" using assms by (simp add: pad_int_length)
  then show ?thesis using assms pad_int_less [of n i j] by (auto simp: append_less)
qed

lemma three_fields_less:
  assumes w: "0 < n" and a: "0 \<le> a" "a < 10 ^ n" "0 \<le> a'" "a' < 10 ^ n"
    and b: "0 \<le> b" "b < 10 ^ 2" "0 \<le> b'" "b' < 10 ^ 2" and c: "0 \<le> c" "c < 10 ^ 2" "0 \<le> c'" "c' < 10 ^ 2"
    and less: "a < a' \<or> a = a' \<and> (b < b' \<or> b = b' \<and> (c < c' \<or> c = c' \<and> x < y))"
  shows "pad_int n a @ [sep] @ pad_int 2 b @ [sep] @ pad_int 2 c @ x < pad_int n a' @ [sep] @ pad_int 2 b' @ [sep] @ pad_int 2 c' @ y"
proof -
  have 1: "pad_int 2 c @ x < pad_int 2 c' @ y" if "c < c' \<or> c = c' \<and> x < y"
    by (rule field_less [OF _ c that]) simp
  have 2: "pad_int 2 b @ sep # pad_int 2 c @ x < pad_int 2 b' @ sep # pad_int 2 c' @ y"
    if l: "b < b' \<or> b = b' \<and> (c < c' \<or> c = c' \<and> x < y)"
    by (rule field_less [OF _ b]) (use l 1 in auto)
  have "pad_int n a @ sep # pad_int 2 b @ sep # pad_int 2 c @ x < pad_int n a' @ sep # pad_int 2 b' @ sep # pad_int 2 c' @ y"
    by (rule field_less [OF w a]) (use less 2 in auto)
  then show ?thesis by simp
qed

section \<open>The calendar\<close>

definition year_start :: "int \<Rightarrow> int" where
  "year_start y = 365 * y + y div 4 - y div 100"

definition year_of_era :: "int \<Rightarrow> int" where
  "year_of_era doe = (doe - doe div 1460 + doe div 36524 - doe div 146096) div 365"

lemma year_of_era_step:
  assumes "0 \<le> x" "x < 146096"
  shows "year_of_era x \<le> year_of_era (x + 1)"
proof -
  have step: "c' = 0 \<Longrightarrow> c = 0 \<Longrightarrow> a' \<le> a + 1 \<Longrightarrow> b \<le> b' \<Longrightarrow> x - a + b - c \<le> x + 1 - a' + b' - c'"
    for a a' b b' c c' :: int by simp
  have "x - x div 1460 + x div 36524 - x div 146096 \<le> x + 1 - (x + 1) div 1460 + (x + 1) div 36524 - (x + 1) div 146096"
  proof (cases "x = 146095")
    case False
    then have "(x + 1) div 146096 = 0" "x div 146096 = 0" using assms by simp_all
    moreover have "(x + 1) div 1460 \<le> x div 1460 + 1" using zdiv_mono1 [of "x + 1" "x + 1460" 1460] by simp
    moreover have "x div 36524 \<le> (x + 1) div 36524" by (rule zdiv_mono1) simp_all
    ultimately show ?thesis by (rule step)
  qed simp
  then show ?thesis unfolding year_of_era_def by (rule zdiv_mono1) simp
qed

lemma year_of_era_mono:
  assumes "0 \<le> x" "x \<le> y" "y \<le> 146096"
  shows "year_of_era x \<le> year_of_era y"
  using assms(2,3)
proof (induction y rule: int_ge_induct)
  case (step y)
  then show ?case using year_of_era_step [of y] assms(1) by simp
qed simp

lemma year_boundaries:
  assumes "0 \<le> y" "y < 400"
  shows "year_of_era (year_start y) = y" "year_of_era (year_start (y + 1) - 1) = y"
    "0 \<le> year_start y" "year_start (y + 1) \<le> 146097" "year_start (y + 1) \<le> year_start y + 366" "year_start y < year_start (y + 1)"
proof -
  have "list_all (\<lambda>y. year_of_era (year_start y) = y \<and> year_of_era (year_start (y + 1) - 1) = y \<and> 0 \<le> year_start y \<and>
      year_start (y + 1) \<le> 146097 \<and> year_start (y + 1) \<le> year_start y + 366 \<and> year_start y < year_start (y + 1)) [0..399]"
    by code_simp
  then show "year_of_era (year_start y) = y" "year_of_era (year_start (y + 1) - 1) = y"
    "0 \<le> year_start y" "year_start (y + 1) \<le> 146097" "year_start (y + 1) \<le> year_start y + 366" "year_start y < year_start (y + 1)"
    using assms by (simp_all add: list_all_iff)
qed

lemma year_of_era_range:
  assumes "0 \<le> x" "x < 146097"
  shows "0 \<le> year_of_era x" "year_of_era x < 400"
    "year_start (year_of_era x) \<le> x" "x \<le> year_start (year_of_era x) + 365"
proof -
  have ends: "year_of_era 0 = 0" "year_of_era 146096 = 399" by code_simp+
  show lo: "0 \<le> year_of_era x" using year_of_era_mono [of 0 x] assms ends by simp
  show hi: "year_of_era x < 400" using year_of_era_mono [of x 146096] assms ends by simp
  let ?y = "year_of_era x"
  show "year_start ?y \<le> x"
  proof (rule ccontr)
    assume less: "\<not> ?thesis"
    show False
    proof (cases "?y = 0")
      case True
      then show False using less assms by (simp add: year_start_def)
    next
      case False
      then have "year_of_era x \<le> year_of_era (year_start (?y - 1 + 1) - 1)"
        using less assms lo hi year_boundaries(4) [of "?y - 1"] by (intro year_of_era_mono) auto
      then show False using year_boundaries(2) [of "?y - 1"] False lo hi by simp
    qed
  qed
  show "x \<le> year_start ?y + 365"
  proof (cases "?y = 399")
    case True
    have "year_start ?y = 145731" unfolding True by code_simp
    then show ?thesis using assms by simp
  next
    case False
    have "x < year_start (?y + 1)"
    proof (rule ccontr)
      assume "\<not> ?thesis"
      then have "year_of_era (year_start (?y + 1)) \<le> year_of_era x"
        using False assms lo hi year_boundaries(3) [of "?y + 1"] by (intro year_of_era_mono) auto
      then show False using year_boundaries(1) [of "?y + 1"] False lo hi by simp
    qed
    then show ?thesis using year_boundaries(5) [of ?y] lo hi by simp
  qed
qed

text \<open>Month and day from the day of the year that starts in March.\<close>

definition month_part :: "int \<Rightarrow> int" where
  "month_part doy = (5 * doy + 2) div 153"

definition day_part :: "int \<Rightarrow> int" where
  "day_part doy = doy - (153 * month_part doy + 2) div 5 + 1"

lemma month_day_range:
  assumes "0 \<le> doy" "doy \<le> 365"
  shows "0 \<le> month_part doy" "month_part doy \<le> 11" "1 \<le> day_part doy" "day_part doy \<le> 31"
proof -
  have "list_all (\<lambda>d. 0 \<le> month_part d \<and> month_part d \<le> 11 \<and> 1 \<le> day_part d \<and> day_part d \<le> 31) [0..365]" by code_simp
  then show "0 \<le> month_part doy" "month_part doy \<le> 11" "1 \<le> day_part doy" "day_part doy \<le> 31"
    using assms by (simp_all add: list_all_iff)
qed

lemma month_day_less:
  assumes "x < y"
  shows "month_part x < month_part y \<or> month_part x = month_part y \<and> day_part x < day_part y"
  using assms zdiv_mono1 [of "5 * x + 2" "5 * y + 2" 153] by (auto simp: month_part_def day_part_def)

text \<open>Years counted from March, over all eras.\<close>

definition march_year :: "int \<Rightarrow> int" where
  "march_year days = year_of_era ((days + 719468) mod 146097) + (days + 719468) div 146097 * 400"

definition march_day :: "int \<Rightarrow> int" where
  "march_day days = (let doe = (days + 719468) mod 146097 in doe - year_start (year_of_era doe))"

lemma civil_of_days_parts:
  "civil_of_days days =
     (let mp = month_part (march_day days); m = (if mp < 10 then mp + 3 else mp - 9)
      in (march_year days + (if m \<le> 2 then 1 else 0), m, day_part (march_day days)))"
  unfolding civil_of_days_def march_year_def march_day_def year_of_era_def year_start_def month_part_def day_part_def
    Let_def minus_div_mult_eq_mod ..

lemma march_day_range: "0 \<le> march_day days" "march_day days \<le> 365"
  using year_of_era_range [of "(days + 719468) mod 146097"] by (simp_all add: march_day_def Let_def)

lemma march_less:
  assumes "a < b"
  shows "march_year a < march_year b \<or> march_year a = march_year b \<and> march_day a < march_day b"
proof -
  let ?e = "\<lambda>x. (x + 719468) div 146097" and ?d = "\<lambda>x. (x + 719468) mod 146097"
  have r: "0 \<le> ?d x" "?d x < 146097" "0 \<le> year_of_era (?d x)" "year_of_era (?d x) < 400" for x
    using year_of_era_range(1,2) [of "?d x"] by simp_all
  consider "?e a < ?e b" | "?e a = ?e b" "?d a < ?d b"
    using div_less_cases [of "a + 719468" "b + 719468" 146097] assms by auto
  then show ?thesis
  proof cases
    case 1
    then show ?thesis using r(3,4) [of a] r(3,4) [of b] by (simp add: march_year_def)
  next
    case 2
    have "year_of_era (?d a) \<le> year_of_era (?d b)" using year_of_era_mono [of "?d a" "?d b"] 2 r [of a] r [of b] by simp
    with 2 show ?thesis by (auto simp: march_year_def march_day_def Let_def)
  qed
qed

lemma civil_less:
  assumes "a < b" "civil_of_days a = (y, m, d)" "civil_of_days b = (y', m', d')"
  shows "y < y' \<or> y = y' \<and> (m < m' \<or> m = m' \<and> d < d')"
proof -
  let ?m = "\<lambda>x. month_part (march_day x)"
  have r: "0 \<le> ?m x" "?m x \<le> 11" for x using month_day_range(1,2) [OF march_day_range, of x] .
  have "march_year a < march_year b \<or> march_year a = march_year b \<and>
      (?m a < ?m b \<or> ?m a = ?m b \<and> day_part (march_day a) < day_part (march_day b))"
    using march_less [OF assms(1)] month_day_less by blast
  then show ?thesis using r [of a] r [of b] assms(2,3) by (auto simp: civil_of_days_parts Let_def split: if_splits)
qed

lemma civil_range:
  assumes "civil_of_days days = (y, m, d)"
  shows "1 \<le> m" "m \<le> 12" "1 \<le> d" "d \<le> 31"
  using assms month_day_range [OF march_day_range, of days] by (auto simp: civil_of_days_parts Let_def split: if_splits)

lemma civil_year_mono:
  assumes "a \<le> b" "civil_of_days a = (y, m, d)" "civil_of_days b = (y', m', d')"
  shows "y \<le> y'"
  using civil_less [OF _ assms(2,3)] assms by (cases "a = b") auto

text \<open>\<^verbatim>\<open>datetime.min\<close> to \<^verbatim>\<open>datetime.max\<close>, as time stamps.\<close>

definition datetime_range :: "timestamp \<Rightarrow> bool" where
  "datetime_range ts \<longleftrightarrow> - 719162 \<le> ts div MICROS_PER_DAY \<and> ts div MICROS_PER_DAY \<le> 2932896"

lemma datetime_range_year:
  assumes "datetime_range ts" "civil_of_days (ts div MICROS_PER_DAY) = (y, m, d)"
  shows "0 \<le> y" "y < 10 ^ 4"
proof -
  have "civil_of_days (- 719162) = (1, 1, 1)" "civil_of_days 2932896 = (9999, 12, 31)" by code_simp+
  note ends = this
  have "1 \<le> y" "y \<le> 9999"
    using assms(1) civil_year_mono [OF _ ends(1) assms(2)] civil_year_mono [OF _ assms(2) ends(2)]
    by (simp_all add: datetime_range_def)
  then show "0 \<le> y" "y < 10 ^ 4" by simp_all
qed

section \<open>Texts\<close>

definition fraction_text :: "int \<Rightarrow> string" where
  "fraction_text f = (if f = 0 then [] else ''.'' @ pad_int 6 f) @ ''+00:00''"

lemma fraction_less:
  assumes "0 \<le> f" "f < g" "g < 1000000"
  shows "fraction_text f < fraction_text g"
proof (cases "f = 0")
  case True
  have "CHR ''+'' < CHR ''.''" by code_simp
  with True assms show ?thesis by (simp add: fraction_text_def)
next
  case False
  have "pad_int 6 f @ ''+00:00'' < pad_int 6 g @ ''+00:00''" by (rule field_less) (use assms in auto)
  with False assms show ?thesis by (simp add: fraction_text_def)
qed

definition time_text :: "int \<Rightarrow> string" where
  "time_text us =
     (let s = us div 1000000; f = us mod 1000000
      in pad_int 2 (s div 3600) @ '':'' @ pad_int 2 (s div 60 mod 60) @ '':'' @ pad_int 2 (s mod 60) @ fraction_text f)"

lemma time_less:
  assumes "0 \<le> a" "a < b" "b < MICROS_PER_DAY"
  shows "time_text a < time_text b"
proof -
  define s t where st: "s = a div 1000000" "t = b div 1000000"
  define f g where fg: "f = a mod 1000000" "g = b mod 1000000"
  have r: "0 \<le> s" "s < 86400" "0 \<le> t" "t < 86400" "0 \<le> f" "f < 1000000" "0 \<le> g" "g < 1000000"
    using assms by (simp_all add: st fg MICROS_PER_DAY_def)
  have q: "x div 3600 = x div 60 div 60" for x :: int using zdiv_zmult2_eq [of 60 x 60] by simp
  have top: "s < t \<or> s = t \<and> f < g" using div_less_cases [OF assms(2), of 1000000] by (simp add: st fg)
  have sec: "s div 60 < t div 60 \<or> s div 60 = t div 60 \<and> (s mod 60 < t mod 60 \<or> s mod 60 = t mod 60 \<and> f < g)"
    using top div_less_cases [of s t 60] by auto
  then have mins: "s div 3600 < t div 3600 \<or> s div 3600 = t div 3600 \<and>
      (s div 60 mod 60 < t div 60 mod 60 \<or> s div 60 mod 60 = t div 60 mod 60 \<and>
        (s mod 60 < t mod 60 \<or> s mod 60 = t mod 60 \<and> f < g))"
    using div_less_cases [of "s div 60" "t div 60" 60] by (auto simp: q)
  have bounds: "0 \<le> x div 3600 \<and> x div 3600 < 10 ^ 2 \<and> 0 \<le> x div 60 mod 60 \<and> x div 60 mod 60 < 10 ^ 2 \<and> 0 \<le> x mod 60 \<and> x mod 60 < 10 ^ 2"
    if "0 \<le> x" "x < 86400" for x :: int
    using that pos_mod_bound [of 60 x] pos_mod_bound [of 60 "x div 60"] zdiv_mono1 [of 0 x 3600] zdiv_mono1 [of x 86400 3600]
    by (simp del: pos_mod_bound)
  have "f < g \<Longrightarrow> fraction_text f < fraction_text g" using fraction_less r by simp
  then have less: "s div 3600 < t div 3600 \<or> s div 3600 = t div 3600 \<and>
      (s div 60 mod 60 < t div 60 mod 60 \<or> s div 60 mod 60 = t div 60 mod 60 \<and>
        (s mod 60 < t mod 60 \<or> s mod 60 = t mod 60 \<and> fraction_text f < fraction_text g))"
    using mins by blast
  show ?thesis
    unfolding time_text_def Let_def st [symmetric] fg [symmetric]
    by (rule three_fields_less [OF _ _ _ _ _ _ _ _ _ _ _ _ _ less]) (use bounds [OF r(1,2)] bounds [OF r(3,4)] in simp_all)
qed

lemma datetime_isoformat_text:
  "civil_of_days (ts div MICROS_PER_DAY) = (y, m, d) \<Longrightarrow>
   datetime_isoformat ts = pad_int 4 y @ ''-'' @ pad_int 2 m @ ''-'' @ pad_int 2 d @ ''T'' @ time_text (ts mod MICROS_PER_DAY)"
  by (simp add: datetime_isoformat_def date_isoformat_def time_text_def fraction_text_def Let_def)

lemma isoformat_less:
  assumes "datetime_range a" "datetime_range b" "a < b"
  shows "datetime_isoformat a < datetime_isoformat b"
proof -
  obtain y m d where a: "civil_of_days (a div MICROS_PER_DAY) = (y, m, d)" using prod_cases3 by blast
  obtain y' m' d' where b: "civil_of_days (b div MICROS_PER_DAY) = (y', m', d')" using prod_cases3 by blast
  have pos: "0 < MICROS_PER_DAY" by (simp add: MICROS_PER_DAY_def)
  have "y < y' \<or> y = y' \<and> (m < m' \<or> m = m' \<and> (d < d' \<or> d = d' \<and> a mod MICROS_PER_DAY < b mod MICROS_PER_DAY))"
    using div_less_cases [OF assms(3) pos] civil_less [OF _ a b] a b by auto
  then have less: "y < y' \<or> y = y' \<and> (m < m' \<or> m = m' \<and> (d < d' \<or> d = d' \<and>
      ''T'' @ time_text (a mod MICROS_PER_DAY) < ''T'' @ time_text (b mod MICROS_PER_DAY)))"
    using time_less [of "a mod MICROS_PER_DAY" "b mod MICROS_PER_DAY"] pos by auto
  show ?thesis
    unfolding datetime_isoformat_text [OF a] datetime_isoformat_text [OF b]
    by (rule three_fields_less [OF _ _ _ _ _ _ _ _ _ _ _ _ _ less])
      (use datetime_range_year [OF assms(1) a] datetime_range_year [OF assms(2) b] civil_range [OF a] civil_range [OF b] in simp_all)
qed

text \<open>Sorting by the text is sorting by time.\<close>

lemma isoformat_le:
  assumes "datetime_range a" "datetime_range b"
  shows "datetime_isoformat a \<le> datetime_isoformat b \<longleftrightarrow> a \<le> b"
  using isoformat_less [OF assms] isoformat_less [OF assms(2,1)] by (cases a b rule: linorder_cases) auto

lemma insort_isoformat:
  "datetime_range (f x) \<Longrightarrow> \<forall>y \<in> set ys. datetime_range (f y) \<Longrightarrow>
   insort_key (\<lambda>x. datetime_isoformat (f x)) x ys = insort_key f x ys"
  by (induction ys) (simp_all add: isoformat_le)

lemma sort_isoformat:
  "\<forall>x \<in> set xs. datetime_range (f x) \<Longrightarrow> sort_key (\<lambda>x. datetime_isoformat (f x)) xs = sort_key f xs"
  by (induction xs) (simp_all add: insort_isoformat)

end
