(* ===== verification/Query.thy ===== *)
theory Query
  imports Review Iso_Order Json_Loads "HOL-Library.Multiset"
begin

text \<open>
  The query language over the stored records, \<^verbatim>\<open>auditor/audit_log/query.py\<close>, with the routes that run and save
  queries, \<^verbatim>\<open>auditor/api/search_routes.py\<close>. A query is validated against an allowlist and compiled to a statement;
  the statement is data here. What the database server does with a condition, an order or a JSONB value is
  an argument, the row-level policy is the one of the review API. The report on a flag is assembled from the
  modelled tables.
\<close>

section \<open>Columns and aliases\<close>

definition DEFAULT_LIMIT :: int where
  "DEFAULT_LIMIT = 1000"

definition MAX_LIMIT :: int where
  "MAX_LIMIT = 100000"

datatype query_error = Q_ValueError | Q_OverflowError | Q_Other

definition of_time_error :: "time_error \<Rightarrow> query_error" where
  "of_time_error e = (case e of Time_ValueError \<Rightarrow> Q_ValueError | Time_OverflowError \<Rightarrow> Q_OverflowError)"

text \<open>\<^verbatim>\<open>_REL_TIME_RE\<close> is anchored with \<^verbatim>\<open>$\<close>, which also matches before a final newline.\<close>

definition parse_time_token :: "timestamp \<Rightarrow> string \<Rightarrow> query_error + timestamp" where
  "parse_time_token now s =
     (let t = drop 4 s; ds = takeWhile is_digit t; u = dropWhile is_digit t in
      if startswith s ''now-'' \<and> ds \<noteq> [] \<and> u \<in> set [''h'', ''d'', [CHR ''h'', CHR 0x0A], [CHR ''d'', CHR 0x0A]]
      then map_sum of_time_error id (time_back now ds (unit_micros (hd u)))
      else Inl Q_ValueError)"

datatype param = P_json json | P_time timestamp

definition coerce_time :: "timestamp \<Rightarrow> json \<Rightarrow> query_error + param" where
  "coerce_time now v =
     (case v of
        JStr s \<Rightarrow> if startswith s ''now-'' then map_sum id P_time (parse_time_token now s) else Inr (P_json v)
      | _ \<Rightarrow> Inr (P_json v))"

text \<open>Column expressions: a column, a path into a JSONB column (as text), the literal \<^verbatim>\<open>TRUE\<close>.\<close>

datatype col_expr = Col string | Jsonb_path string "string list" | Sql_true

definition jsonb_path :: "string \<Rightarrow> string list \<Rightarrow> col_expr" where
  "jsonb_path c ks = Jsonb_path c ks"

definition plain_columns :: "string list \<Rightarrow> (string, col_expr) pydict" where
  "plain_columns cs = map (\<lambda>c. (c, Col c)) cs"

definition ALLOWLIST :: "(string, (string, col_expr) pydict) pydict" where
  "ALLOWLIST =
     [(''events'', plain_columns [''event_id'', ''run_id'', ''tenant_id'', ''event_type'', ''channel'', ''ts''] @
        [(''payload__tool_name'', jsonb_path ''payload'' [''tool_name'']),
         (''evidence__event__tool_name'', jsonb_path ''payload'' [''tool_name''])]),
      (''verdicts'', plain_columns [''verdict_id'', ''run_id'', ''tenant_id'', ''detector'', ''asi_category'', ''result'', ''ts''] @
        [(''evidence__event__tool_name'', jsonb_path ''evidence'' [''event'', ''tool_name''])]),
      (''flags'', plain_columns [''flag_id'', ''run_id'', ''tenant_id'', ''severity'', ''status'', ''created_at''] @
        [(''evidence__event__tool_name'', Sql_true)]),
      (''audit_log'', plain_columns [''seq'', ''tenant_id'', ''actor_type'', ''action'', ''target_type'', ''ts''])]"

definition allowed :: "string \<Rightarrow> (string, col_expr) pydict" where
  "allowed resource = dict_get_or [] ALLOWLIST resource"

definition DOT_ALIAS :: "(string, (string, string) pydict) pydict" where
  "DOT_ALIAS =
     [(''flags'', [(''evidence.event.tool_name'', ''evidence__event__tool_name'')]),
      (''events'', [(''evidence.event.tool_name'', ''evidence__event__tool_name''), (''payload.tool_name'', ''payload__tool_name'')]),
      (''verdicts'', [(''evidence.event.tool_name'', ''evidence__event__tool_name'')]),
      (''audit_log'', [])]"

section \<open>Validation\<close>

text \<open>The fields after the schema library's coercions of the body, which is an argument of the routes.\<close>

record query =
  q_resource :: string
  q_filter :: "(string, json) pydict"
  q_limit :: int
  q_order_by :: "string option"
  q_desc :: bool

definition cap_limit :: "int \<Rightarrow> query_error + int" where
  "cap_limit v = (if v < 1 then Inl Q_ValueError else Inr (min v MAX_LIMIT))"

definition normalise_filter_keys :: "query \<Rightarrow> query" where
  "normalise_filter_keys q =
     (let aliases = dict_get_or [] DOT_ALIAS (q_resource q) in
      q\<lparr> q_filter := foldl (\<lambda>d (k, v). dict_set (dict_get_or k aliases k) v d) [] (q_filter q) \<rparr>)"

definition validate_filter_fields :: "query \<Rightarrow> query_error + query" where
  "validate_filter_fields q =
     (if fst ` set (q_filter q) \<subseteq> fst ` set (allowed (q_resource q)) then Inr q else Inl Q_ValueError)"

definition validate_query :: "query \<Rightarrow> query_error + query" where
  "validate_query q =
     (if q_resource q \<notin> fst ` set ALLOWLIST then Inl Q_ValueError
      else case cap_limit (q_limit q) of
        Inl e \<Rightarrow> Inl e
      | Inr n \<Rightarrow> validate_filter_fields (normalise_filter_keys (q\<lparr> q_limit := n \<rparr>)))"

section \<open>Compilation\<close>

datatype cmp_op = Op_gte | Op_lte | Op_eq | Op_in

type_synonym clause = "col_expr \<times> cmp_op \<times> param"

record statement =
  st_resource :: string
  st_where :: "clause list"
  st_order :: "(col_expr \<times> bool) option"
  st_limit :: int

definition operator_clause :: "timestamp \<Rightarrow> col_expr \<Rightarrow> string \<times> json \<Rightarrow> query_error + clause" where
  "operator_clause now col p =
     (case p of (op, raw) \<Rightarrow>
        sum_bind (coerce_time now raw) (\<lambda>val.
          if op = ''gte'' then Inr (col, Op_gte, val)
          else if op = ''lte'' then Inr (col, Op_lte, val)
          else if op = ''eq'' then Inr (col, Op_eq, val)
          else if op = ''in'' then (case val of P_json (JList _) \<Rightarrow> Inr (col, Op_in, val) | _ \<Rightarrow> Inl Q_ValueError)
          else Inl Q_ValueError))"

definition apply_operator :: "timestamp \<Rightarrow> col_expr \<Rightarrow> (string, json) pydict \<Rightarrow> query_error + clause list" where
  "apply_operator now col ops = traverse (operator_clause now col) ops"

definition field_clauses :: "timestamp \<Rightarrow> (string, col_expr) pydict \<Rightarrow> string \<times> json \<Rightarrow> query_error + clause list" where
  "field_clauses now allowlist p =
     (case p of (field, raw) \<Rightarrow>
        case dict_get allowlist field of
          None \<Rightarrow> Inl Q_Other
        | Some Sql_true \<Rightarrow> Inr []
        | Some col \<Rightarrow>
            (case raw of
               JObj ops \<Rightarrow> apply_operator now col ops
             | _ \<Rightarrow> map_sum id (\<lambda>v. [(col, Op_eq, v)]) (coerce_time now raw)))"

text \<open>\<open>order_true\<close> is what sorting by the literal \<^verbatim>\<open>TRUE\<close> does in the expression language.\<close>

definition build_select :: "query_error option \<Rightarrow> timestamp \<Rightarrow> query \<Rightarrow> query_error + statement" where
  "build_select order_true now q =
     (let allowlist = allowed (q_resource q) in
      sum_bind (traverse (field_clauses now allowlist) (q_filter q)) (\<lambda>cs.
        let stmt = \<lparr> st_resource = q_resource q, st_where = concat cs, st_order = None, st_limit = q_limit q \<rparr> in
        case q_order_by q of
          None \<Rightarrow> Inr stmt
        | Some f \<Rightarrow>
            (case dict_get allowlist f of
               None \<Rightarrow> Inl Q_ValueError
             | Some Sql_true \<Rightarrow> (case order_true of Some e \<Rightarrow> Inl e | None \<Rightarrow> Inr (stmt\<lparr> st_order := Some (Sql_true, q_desc q) \<rparr>))
             | Some c \<Rightarrow> Inr (stmt\<lparr> st_order := Some (c, q_desc q) \<rparr>))))"

section \<open>Execution\<close>

datatype col_value = C_uuid uuid | C_bytes bytes | C_time timestamp | C_plain json

type_synonym table_row = "(string, col_value) pydict"

definition row_tenant :: "table_row \<Rightarrow> uuid option" where
  "row_tenant r = (case dict_get r ''tenant_id'' of Some (C_uuid u) \<Rightarrow> Some u | _ \<Rightarrow> None)"

definition row_to_dict :: "table_row \<Rightarrow> (string, json) pydict" where
  "row_to_dict r =
     map (\<lambda>(c, v). (c, case v of C_uuid u \<Rightarrow> JStr u | C_bytes b \<Rightarrow> JStr (hex b) | C_time t \<Rightarrow> JStr (datetime_isoformat t) | C_plain j \<Rightarrow> j)) r"

text \<open>The server: whether it accepts a statement, when a condition holds of a row, how it orders, and how it returns a
  stored JSONB value.\<close>

record sql_server =
  sq_accepts :: "statement \<Rightarrow> bool"
  sq_holds :: "clause \<Rightarrow> table_row \<Rightarrow> bool"
  sq_sort :: "(col_expr \<times> bool) option \<Rightarrow> table_row list \<Rightarrow> table_row list"
  sq_jsonb :: "(string, json) pydict \<Rightarrow> (string, json) pydict"

definition satisfies :: "sql_server \<Rightarrow> statement \<Rightarrow> table_row \<Rightarrow> bool" where
  "satisfies srv s r = list_all (\<lambda>c. sq_holds srv c r) (st_where s)"

definition execute :: "sql_server \<Rightarrow> (uuid \<Rightarrow> bool) \<Rightarrow> statement \<Rightarrow> table_row list \<Rightarrow> nat + table_row list" where
  "execute srv visible s rows =
     (if sq_accepts srv s
      then Inr (take (nat (st_limit s)) (sq_sort srv (st_order s)
        (filter (\<lambda>r. (case row_tenant r of Some t \<Rightarrow> visible t | None \<Rightarrow> False) \<and> satisfies srv s r) rows)))
      else Inl 500)"

text \<open>A refused query is 422 when the refusal is a \<^verbatim>\<open>ValueError\<close>, and otherwise not handled.\<close>

definition query_status :: "query_error \<Rightarrow> nat" where
  "query_status e = (if e = Q_ValueError then 422 else 500)"

record search_env =
  se_api :: api_env
  se_server :: sql_server
  se_order_true :: "query_error option"

definition run_query :: "search_env \<Rightarrow> claims \<Rightarrow> query \<Rightarrow> (string \<Rightarrow> table_row list) \<Rightarrow> nat + (string, json) pydict list" where
  "run_query env claims q tables =
     (case build_select (se_order_true env) (ev_now (se_api env)) q of
        Inl e \<Rightarrow> Inl (query_status e)
      | Inr s \<Rightarrow> tenant_scope (se_api env) claims (\<lambda>visible.
          map_sum id (map row_to_dict) (execute (se_server env) visible s (tables (q_resource q)))))"

definition search :: "search_env \<Rightarrow> credentials \<Rightarrow> query \<Rightarrow> (string \<Rightarrow> table_row list) \<Rightarrow> nat + (string, json) pydict list" where
  "search env c body tables =
     sum_bind (get_current_user (cr_secret c) (cr_time c) (cr_bearer c) (cr_cookie c)) (\<lambda>claims.
       case validate_query body of
         Inl e \<Rightarrow> Inl 422
       | Inr q \<Rightarrow> if dict_get claims ''tenant_id'' = None then Inl 500 else run_query env claims q tables)"

section \<open>Saved queries\<close>

record saved_query =
  sa_id :: uuid
  sa_tenant_id :: uuid
  sa_name :: string
  sa_query :: "(string, json) pydict"
  sa_params :: "(string, json) pydict"
  sa_created_by :: "uuid option"
  sa_created_at :: timestamp

function py_replace :: "string \<Rightarrow> string \<Rightarrow> string \<Rightarrow> string" where
  "py_replace p r [] = []"
| "py_replace p r (c # s) =
     (if p \<noteq> [] \<and> startswith (c # s) p then r @ py_replace p r (drop (length p) (c # s)) else c # py_replace p r s)"
  by pat_completeness auto
termination by (relation "measure (\<lambda>(_, _, s). length s)") auto

definition bind_params :: "(string, json) pydict \<Rightarrow> (string, json) pydict \<Rightarrow> load_error + json" where
  "bind_params query_dict params =
     json_loads (foldl (\<lambda>raw (key, val). py_replace ([CHR 0x22, CHR ''$''] @ key @ [CHR 0x22]) (json_text_spaced val) raw)
       (json_text_spaced (JObj query_dict)) params)"

text \<open>\<open>parse\<close> is the schema library's reading of a body, before the validators.\<close>

type_synonym query_parser = "(string, json) pydict \<Rightarrow> query option"

definition model_validate_query :: "query_parser \<Rightarrow> (string, json) pydict \<Rightarrow> query_error + query" where
  "model_validate_query parse d = (case parse d of None \<Rightarrow> Inl Q_ValueError | Some q \<Rightarrow> validate_query q)"

definition insert_saved_query ::
  "search_env \<Rightarrow> uuid \<Rightarrow> string \<Rightarrow> (string, json) pydict \<Rightarrow> (string, json) pydict \<Rightarrow> uuid option \<Rightarrow> saved_query list \<Rightarrow>
   nat + saved_query \<times> saved_query list" where
  "insert_saved_query env tenant name query params created_by table =
     (let row = \<lparr> sa_id = ev_fresh (se_api env), sa_tenant_id = tenant, sa_name = name, sa_query = query, sa_params = params,
            sa_created_by = created_by, sa_created_at = ev_now (se_api env) \<rparr> in
      if list_ex (\<lambda>r. sa_id r = sa_id row \<or> (sa_tenant_id r = tenant \<and> sa_name r = name)) table then Inl 500
      else Inr (row, table @ [row\<lparr> sa_query := sq_jsonb (se_server env) query, sa_params := sq_jsonb (se_server env) params \<rparr>]))"

definition sq_to_dict :: "saved_query \<Rightarrow> (string, json) pydict" where
  "sq_to_dict r =
     [(''id'', JStr (sa_id r)), (''tenant_id'', JStr (sa_tenant_id r)), (''name'', JStr (sa_name r)), (''query'', JObj (sa_query r)),
      (''params'', JObj (sa_params r)), (''created_by'', opt_json (sa_created_by r)), (''created_at'', JStr (datetime_isoformat (sa_created_at r)))]"

definition optional_uuid :: "api_env \<Rightarrow> claims \<Rightarrow> string \<Rightarrow> nat + uuid option" where
  "optional_uuid env claims k =
     (case dict_get claims k of
        None \<Rightarrow> Inr None
      | Some j \<Rightarrow> (case ev_uuid env (json_str j) of None \<Rightarrow> Inl 500 | Some u \<Rightarrow> Inr (Some u)))"

definition tenant_uuid :: "api_env \<Rightarrow> claims \<Rightarrow> nat + uuid" where
  "tenant_uuid env claims =
     sum_bind (optional_uuid env claims ''tenant_id'') (\<lambda>t. case t of None \<Rightarrow> Inl 500 | Some u \<Rightarrow> Inr u)"

definition create_saved_query ::
  "search_env \<Rightarrow> query_parser \<Rightarrow> credentials \<Rightarrow> string \<Rightarrow> (string, json) pydict \<Rightarrow> (string, json) pydict \<Rightarrow> saved_query list \<Rightarrow>
   nat + (string, json) pydict \<times> saved_query list" where
  "create_saved_query env parse c name query params table =
     sum_bind (authorised c [''admin'']) (\<lambda>claims.
       if dict_get claims ''tenant_id'' = None then Inl 500
       else case model_validate_query parse query of
         Inl _ \<Rightarrow> Inl 422
       | Inr _ \<Rightarrow>
           tenant_scope (se_api env) claims (\<lambda>visible.
             sum_bind (tenant_uuid (se_api env) claims) (\<lambda>t.
             sum_bind (optional_uuid (se_api env) claims ''sub'') (\<lambda>by_user.
               if \<not> visible t then Inl 500
               else map_sum id (\<lambda>(row, table'). (sq_to_dict row, table')) (insert_saved_query env t name query params by_user table)))))"

text \<open>\<open>collate\<close> is the sort key of the database's collation.\<close>

definition list_saved_queries ::
  "search_env \<Rightarrow> (string \<Rightarrow> string) \<Rightarrow> credentials \<Rightarrow> saved_query list \<Rightarrow> nat + (string, json) pydict list" where
  "list_saved_queries env collate c table =
     sum_bind (get_current_user (cr_secret c) (cr_time c) (cr_bearer c) (cr_cookie c)) (\<lambda>claims.
       tenant_scope (se_api env) claims (\<lambda>visible.
         sum_bind (tenant_uuid (se_api env) claims) (\<lambda>t.
           Inr (map sq_to_dict (sort_key (collate \<circ> sa_name)
             (filter (\<lambda>r. visible (sa_tenant_id r) \<and> sa_tenant_id r = t) table))))))"

definition get_saved_query :: "api_env \<Rightarrow> (uuid \<Rightarrow> bool) \<Rightarrow> string \<Rightarrow> saved_query list \<Rightarrow> nat + saved_query option" where
  "get_saved_query env visible query_id table =
     (case ev_uuid env query_id of
        None \<Rightarrow> Inl 500
      | Some u \<Rightarrow> Inr (find (\<lambda>r. sa_id r = u \<and> visible (sa_tenant_id r)) table))"

text \<open>A malformed text after binding is an unhandled exception, since binding is outside the \<^verbatim>\<open>try\<close>.\<close>

definition run_saved_query ::
  "search_env \<Rightarrow> query_parser \<Rightarrow> credentials \<Rightarrow> string \<Rightarrow> (string, json) pydict \<Rightarrow> saved_query list \<Rightarrow> (string \<Rightarrow> table_row list) \<Rightarrow>
   nat + (string, json) pydict list" where
  "run_saved_query env parse c query_id params table tables =
     sum_bind (get_current_user (cr_secret c) (cr_time c) (cr_bearer c) (cr_cookie c)) (\<lambda>claims.
     sum_bind (tenant_scope (se_api env) claims (\<lambda>visible. get_saved_query (se_api env) visible query_id table)) (\<lambda>found.
       case found of
         None \<Rightarrow> Inl 404
       | Some saved \<Rightarrow>
           (case bind_params (sa_query saved) (dict_update (sa_params saved) params) of
              Inr (JObj d) \<Rightarrow>
                (case model_validate_query parse d of
                   Inl _ \<Rightarrow> Inl 422
                 | Inr q \<Rightarrow> run_query env claims q tables)
            | Inr _ \<Rightarrow> Inl 422
            | Inl _ \<Rightarrow> Inl 500)))"

section \<open>The report on a flag\<close>

datatype timeline_entry =
    T_run_started timestamp uuid
  | T_event timestamp string uuid
  | T_verdict timestamp string string uuid
  | T_hitl timestamp string uuid

fun entry_ts :: "timeline_entry \<Rightarrow> timestamp" where
  "entry_ts (T_run_started t _) = t"
| "entry_ts (T_event t _ _) = t"
| "entry_ts (T_verdict t _ _ _) = t"
| "entry_ts (T_hitl t _ _) = t"

record incident_report =
  ir_flag :: flag_row
  ir_run :: "(uuid \<times> run_row) option"
  ir_trace :: "event_row list"
  ir_verdict_chain :: "verdict_row list"
  ir_hitl_decisions :: "hitl_decision_row list"
  ir_timeline :: "timeline_entry list"

definition timeline_entries ::
  "(uuid \<Rightarrow> timestamp) \<Rightarrow> (uuid \<times> run_row) option \<Rightarrow> event_row list \<Rightarrow> verdict_row list \<Rightarrow> hitl_decision_row list \<Rightarrow> timeline_entry list" where
  "timeline_entries started run events verdicts hitl =
     (case run of None \<Rightarrow> [] | Some (u, _) \<Rightarrow> [T_run_started (started u) u]) @
     map (\<lambda>e. T_event (er_ts e) (er_event_type e) (er_event_id e)) events @
     map (\<lambda>v. T_verdict (vr_ts v) (vr_result v) (vr_detector v) (vr_verdict_id v)) verdicts @
     map (\<lambda>h. T_hitl (hd_ts h) (hd_decision h) (hd_hitl_id h)) hitl"

text \<open>\<open>started\<close> gives the \<^verbatim>\<open>started_at\<close> column of a run. \<open>Inr None\<close> is the answer for an unknown flag.\<close>

definition reconstruct_incident ::
  "api_env \<Rightarrow> (uuid \<Rightarrow> timestamp) \<Rightarrow> claims \<Rightarrow> string \<Rightarrow> api_state \<Rightarrow> nat + incident_report option" where
  "reconstruct_incident env started claims flag_id st =
     tenant_scope env claims (\<lambda>visible.
       sum_bind (get_flag env visible flag_id (ap_db st)) (\<lambda>found.
         case found of
           None \<Rightarrow> Inr None
         | Some flag \<Rightarrow>
             (let d = ap_db st;
                  run = find (\<lambda>(k, r). k = fr_run_id flag \<and> visible (rr_tenant_id r)) (db_runs d);
                  events = take 1000 (sort_key er_ts (filter (\<lambda>e. er_run_id e = fr_run_id flag \<and> visible (er_tenant_id e)) (db_events d)));
                  verdicts = sort_key vr_ts (filter (\<lambda>v. vr_run_id v = fr_run_id flag \<and> visible (vr_tenant_id v)) (db_verdicts d));
                  hitl = sort_key hd_ts (filter (\<lambda>h. hd_flag_id h = fr_flag_id flag) (ap_decisions st))
              in Inr (Some \<lparr> ir_flag = flag, ir_run = run, ir_trace = events, ir_verdict_chain = verdicts, ir_hitl_decisions = hitl,
                   ir_timeline = sort_key (\<lambda>e. datetime_isoformat (entry_ts e)) (timeline_entries started run events verdicts hitl) \<rparr>))))"

section \<open>Compiled statements\<close>

lemma validated_query:
  assumes "validate_query q = Inr q'"
  shows "q_resource q' = q_resource q" "q_resource q \<in> fst ` set ALLOWLIST" "1 \<le> q_limit q'" "q_limit q' = min (q_limit q) MAX_LIMIT"
    "fst ` set (q_filter q') \<subseteq> fst ` set (allowed (q_resource q'))" "q_order_by q' = q_order_by q"
proof -
  have r: "q_resource q \<in> fst ` set ALLOWLIST" "1 \<le> q_limit q"
    and v: "validate_filter_fields (normalise_filter_keys (q\<lparr> q_limit := min (q_limit q) MAX_LIMIT \<rparr>)) = Inr q'"
    using assms by (simp_all add: validate_query_def cap_limit_def split: if_splits)
  have q': "q' = normalise_filter_keys (q\<lparr> q_limit := min (q_limit q) MAX_LIMIT \<rparr>)"
    and sub: "fst ` set (q_filter q') \<subseteq> fst ` set (allowed (q_resource q'))"
    using v by (simp_all add: validate_filter_fields_def split: if_splits)
  show "q_resource q' = q_resource q" "q_limit q' = min (q_limit q) MAX_LIMIT" "q_order_by q' = q_order_by q"
    by (simp_all add: q' normalise_filter_keys_def Let_def)
  with r show "1 \<le> q_limit q'" by (simp add: MAX_LIMIT_def)
  show "q_resource q \<in> fst ` set ALLOWLIST" by (fact r)
  show "fst ` set (q_filter q') \<subseteq> fst ` set (allowed (q_resource q'))" by (fact sub)
qed

lemma operator_clause_col: "operator_clause now col p = Inr (c, op, v) \<Longrightarrow> c = col"
  by (cases p) (auto simp: operator_clause_def sum_bind_Inr_iff split: if_splits param.splits json.splits)

lemma field_clauses_cols:
  assumes "field_clauses now al (f, raw) = Inr cs" "(c, op, v) \<in> set cs"
  shows "dict_get al f = Some c \<and> c \<noteq> Sql_true"
proof -
  obtain col where col: "dict_get al f = Some col" using assms(1) by (auto simp: field_clauses_def split: option.splits)
  have ne: "col \<noteq> Sql_true" using assms col by (auto simp: field_clauses_def)
  have "c = col"
  proof (cases "\<exists>ops. raw = JObj ops")
    case True
    then obtain ops where "traverse (operator_clause now col) ops = Inr cs"
      using assms(1) col ne by (auto simp: field_clauses_def apply_operator_def split: col_expr.splits)
    then obtain p where "operator_clause now col p = Inr (c, op, v)"
      using assms(2) traverse_Inr_set(1) by metis
    then show ?thesis by (rule operator_clause_col)
  next
    case False
    then show ?thesis using assms col ne by (auto simp: field_clauses_def map_sum_Inr_iff split: col_expr.splits json.splits)
  qed
  with col ne show ?thesis by simp
qed

lemma build_select_parts:
  assumes "build_select ot now q = Inr s"
  shows "\<exists>css. traverse (field_clauses now (allowed (q_resource q))) (q_filter q) = Inr css \<and> st_where s = concat css"
    and "st_resource s = q_resource q" "st_limit s = q_limit q"
proof -
  obtain css where css: "traverse (field_clauses now (allowed (q_resource q))) (q_filter q) = Inr css"
    using assms unfolding build_select_def Let_def sum_bind_Inr_iff by blast
  note select = assms [unfolded build_select_def Let_def css sum_bind_simps]
  have "st_where s = concat css \<and> st_resource s = q_resource q \<and> st_limit s = q_limit q"
  proof (cases "q_order_by q")
    case None
    then show ?thesis using select by auto
  next
    case (Some f)
    show ?thesis
    proof (cases "dict_get (allowed (q_resource q)) f")
      case (Some c)
      then show ?thesis using select \<open>q_order_by q = Some f\<close> by (cases c; cases ot) auto
    qed (use select Some in simp)
  qed
  with css show "\<exists>css. traverse (field_clauses now (allowed (q_resource q))) (q_filter q) = Inr css \<and> st_where s = concat css"
    "st_resource s = q_resource q" "st_limit s = q_limit q" by blast+
qed

lemma build_select_cols:
  assumes "build_select ot now q = Inr s" "(c, op, v) \<in> set (st_where s)"
  shows "\<exists>f \<in> fst ` set (q_filter q). dict_get (allowed (q_resource q)) f = Some c \<and> c \<noteq> Sql_true"
proof -
  obtain css where css: "traverse (field_clauses now (allowed (q_resource q))) (q_filter q) = Inr css" "st_where s = concat css"
    using build_select_parts(1) [OF assms(1)] by blast
  obtain cs where cs: "cs \<in> set css" "(c, op, v) \<in> set cs" using assms(2) css(2) by auto
  obtain p where p: "p \<in> set (q_filter q)" "field_clauses now (allowed (q_resource q)) p = Inr cs"
    using traverse_Inr_set(1) [OF css(1) cs(1)] by blast
  then show ?thesis using field_clauses_cols [of now _ "fst p" "snd p" cs c op v] cs(2) by (intro bexI [of _ "fst p"]) simp_all
qed

text \<open>What is assumed of the server's \<^verbatim>\<open>ORDER BY\<close>: it permutes the rows.\<close>

definition sorts_rows :: "sql_server \<Rightarrow> bool" where
  "sorts_rows srv \<longleftrightarrow> (\<forall>ord rows. mset (sq_sort srv ord rows) = mset rows)"

lemma execute_rows:
  assumes "execute srv visible s table = Inr rows" "sorts_rows srv"
    and "hits = filter (\<lambda>r. (case row_tenant r of Some t \<Rightarrow> visible t | None \<Rightarrow> False) \<and> satisfies srv s r) table"
  shows "mset rows \<subseteq># mset hits \<and> length rows = min (nat (st_limit s)) (length hits)"
proof -
  have rows: "rows = take (nat (st_limit s)) (sq_sort srv (st_order s) hits)"
    using assms(1) by (simp add: execute_def assms(3) split: if_splits)
  have perm: "mset (sq_sort srv (st_order s) hits) = mset hits" using assms(2) by (simp add: sorts_rows_def)
  have "mset (take n xs) \<subseteq># mset xs" for n and xs :: "table_row list"
    by (metis append_take_drop_id mset_append mset_subset_eq_add_left)
  then have "mset rows \<subseteq># mset hits" unfolding rows perm [symmetric] .
  moreover have "length (sq_sort srv (st_order s) hits) = length hits" using perm by (metis size_mset)
  ultimately show ?thesis by (simp add: rows min.commute)
qed

section \<open>Properties\<close>

text \<open>C31. A search that succeeds answers with rows of the caller's tenant only, each row at most as often as it is
  stored: the rows of the queried table that satisfy all compiled conditions, all of them when they are
  not more than the limit, which is between 1 and 100000. Every condition is on a column of the
  allowlist of that table.\<close>

theorem search_scoped:
  assumes ok: "search env c body tables = Inr answers"
    and user: "get_current_user (cr_secret c) (cr_time c) (cr_bearer c) (cr_cookie c) = Inr claims"
    and tenant: "dict_get claims ''tenant_id'' = Some (JStr t)" "t \<noteq> []" and srv: "sorts_rows (se_server env)"
  shows "\<exists>q s rows u. validate_query body = Inr q \<and> build_select (se_order_true env) (ev_now (se_api env)) q = Inr s \<and>
    ev_uuid (se_api env) t = Some u \<and> answers = map row_to_dict rows \<and>
    (\<forall>hits. hits = filter (\<lambda>r. row_tenant r = Some u \<and> satisfies (se_server env) s r) (tables (q_resource body)) \<longrightarrow>
       mset rows \<subseteq># mset hits \<and> length rows = min (nat (st_limit s)) (length hits)) \<and>
    1 \<le> st_limit s \<and> st_limit s \<le> MAX_LIMIT \<and>
    (\<forall>(col, op, v) \<in> set (st_where s). col \<in> snd ` set (allowed (q_resource body)) \<and> col \<noteq> Sql_true)"
proof -
  obtain q where q: "validate_query body = Inr q" and run: "run_query env claims q tables = Inr answers"
    using ok user tenant by (auto simp: search_def split: sum.splits if_splits)
  note vq = validated_query [OF q]
  obtain s where s: "build_select (se_order_true env) (ev_now (se_api env)) q = Inr s"
    using run by (auto simp: run_query_def split: sum.splits)
  have jt: "json_str (JStr t) = t" by (simp add: json_str_def)
  obtain u where u: "ev_uuid (se_api env) t = Some u"
    using run tenant by (auto simp: run_query_def s tenant_scope_def tenant_policy_def jt split: option.splits)
  then have pol: "tenant_policy (se_api env) t = Some (\<lambda>x. x = u)" using tenant(2) by (simp add: tenant_policy_def)
  obtain rows where rows: "execute (se_server env) (\<lambda>x. x = u) s (tables (q_resource q)) = Inr rows" "answers = map row_to_dict rows"
    using run by (auto simp: run_query_def s tenant_scope_def tenant jt pol map_sum_Inr_iff)
  have vis: "(\<lambda>r. (case row_tenant r of Some x \<Rightarrow> x = u | None \<Rightarrow> False) \<and> satisfies (se_server env) s r) =
      (\<lambda>r. row_tenant r = Some u \<and> satisfies (se_server env) s r)"
    by (auto simp: fun_eq_iff split: option.splits)
  have "\<forall>(col, op, v) \<in> set (st_where s). col \<in> snd ` set (allowed (q_resource body)) \<and> col \<noteq> Sql_true"
    using build_select_cols [OF s] vq(1) by (force dest: map_of_SomeD)
  moreover have "mset rows \<subseteq># mset hits \<and> length rows = min (nat (st_limit s)) (length hits)"
    if "hits = filter (\<lambda>r. row_tenant r = Some u \<and> satisfies (se_server env) s r) (tables (q_resource body))" for hits
    by (rule execute_rows [OF rows(1) srv]) (simp only: that vis vq(1))
  moreover have "1 \<le> st_limit s" "st_limit s \<le> MAX_LIMIT" using vq build_select_parts(3) [OF s] by simp_all
  ultimately show ?thesis using q s u rows(2) by blast
qed

definition equality_server :: sql_server where
  "equality_server = \<lparr> sq_accepts = (\<lambda>_. True),
     sq_holds = (\<lambda>(col, _, p) r. case col of Col k \<Rightarrow> (case (dict_get r k, p) of (Some (C_plain j), P_json j') \<Rightarrow> j = j' | _ \<Rightarrow> False) | _ \<Rightarrow> False),
     sq_sort = (\<lambda>_ rows. rows), sq_jsonb = id \<rparr>"

definition sample_search :: search_env where
  "sample_search = \<lparr> se_api = sample_env, se_server = equality_server, se_order_true = None \<rparr>"

definition sample_query :: query where
  "sample_query = \<lparr> q_resource = ''flags'', q_filter = [(''severity'', JStr ''high''), (''evidence.event.tool_name'', JStr ''mail'')],
     q_limit = 5, q_order_by = None, q_desc = True \<rparr>"

definition table_flag :: "uuid \<Rightarrow> string \<Rightarrow> table_row" where
  "table_flag tenant severity = [(''tenant_id'', C_uuid tenant), (''severity'', C_plain (JStr severity))]"

definition sample_tables :: "string \<Rightarrow> table_row list" where
  "sample_tables _ = [table_flag sample_tenant ''high'', table_flag ''other'' ''high'', table_flag sample_tenant ''low'']"

theorem search_scoped_witness:
  "\<exists>answers. search sample_search sample_session sample_query sample_tables = Inr answers \<and> length answers = 1"
proof -
  let ?claims = "token_payload ''u'' sample_tenant ''reviewer'' 0 100"
  have user: "get_current_user (cr_secret sample_session) (cr_time sample_session) (cr_bearer sample_session) (cr_cookie sample_session) =
      Inr ?claims"
    by (simp add: sample_session_def session_def current_user_issued)
  define s where "s = \<lparr> st_resource = ''flags'', st_where = [(Col ''severity'', Op_eq, P_json (JStr ''high''))], st_order = None, st_limit = 5 \<rparr>"
  define q where "q = sample_query\<lparr> q_filter := [(''severity'', JStr ''high''), (''evidence__event__tool_name'', JStr ''mail'')] \<rparr>"
  have v: "validate_query sample_query = Inr q" unfolding q_def by code_simp
  have b: "build_select (se_order_true sample_search) (ev_now (se_api sample_search)) q = Inr s" unfolding q_def s_def by code_simp
  have pol: "tenant_policy sample_env sample_tenant = Some (\<lambda>x. x = sample_tenant)"
    by (simp add: tenant_policy_def sample_env_def sample_tenant_uuid)
  have ok: "\<exists>answers. search sample_search sample_session sample_query sample_tables = Inr answers"
  proof -
    have "se_api sample_search = sample_env" "sq_accepts (se_server sample_search) = (\<lambda>_. True)"
      by (simp_all add: sample_search_def equality_server_def)
    then show ?thesis using b by (simp add: search_def user v run_query_def tenant_scope_def json_str_def pol execute_def)
  qed
  then obtain answers where ans: "search sample_search sample_session sample_query sample_tables = Inr answers" ..
  have srv: "sorts_rows (se_server sample_search)" by (simp add: sorts_rows_def sample_search_def equality_server_def)
  have uid: "ev_uuid (se_api sample_search) sample_tenant = Some sample_tenant" by (simp add: sample_search_def sample_env_def)
  have hits: "length (filter (\<lambda>r. row_tenant r = Some sample_tenant \<and> satisfies (se_server sample_search) s r)
      (sample_tables (q_resource sample_query))) = 1"
    unfolding s_def by code_simp
  obtain rows where "answers = map row_to_dict rows" "length rows = min (nat (st_limit s)) 1"
    using search_scoped [OF ans user payload_claims(1) sample_tenant_uuid(2) srv] v b uid hits by auto
  then show ?thesis using ans by (simp add: s_def)
qed

text \<open>C32. The time line of a flag's report is in order of time although it is sorted by the texts of the time stamps,
  and it holds exactly one entry for the run, each of its first thousand events, each verdict and each
  decision, all of the caller's tenant and of that run or flag.\<close>

theorem timeline_chronological:
  assumes rec: "reconstruct_incident env started claims flag_id st = Inr (Some rep)"
    and tenant: "dict_get claims ''tenant_id'' = Some (JStr t)" "t \<noteq> []" "ev_uuid env t = Some u"
    and range: "\<forall>e \<in> set (ir_timeline rep). datetime_range (entry_ts e)"
  shows "sorted (map entry_ts (ir_timeline rep)) \<and>
    mset (ir_timeline rep) =
      mset (timeline_entries started (ir_run rep) (ir_trace rep) (ir_verdict_chain rep) (ir_hitl_decisions rep)) \<and>
    ir_trace rep = take 1000 (sort_key er_ts
      (filter (\<lambda>e. er_run_id e = fr_run_id (ir_flag rep) \<and> er_tenant_id e = u) (db_events (ap_db st)))) \<and>
    set (ir_verdict_chain rep) = {v \<in> set (db_verdicts (ap_db st)). vr_run_id v = fr_run_id (ir_flag rep) \<and> vr_tenant_id v = u} \<and>
    set (ir_hitl_decisions rep) = {h \<in> set (ap_decisions st). hd_flag_id h = fr_flag_id (ir_flag rep)} \<and>
    ir_flag rep \<in> set (db_flags (ap_db st)) \<and> fr_tenant_id (ir_flag rep) = u"
proof -
  have pol: "tenant_policy env t = Some (\<lambda>x. x = u)" using tenant(2,3) by (simp add: tenant_policy_def)
  obtain flag where flag: "get_flag env (\<lambda>x. x = u) flag_id (ap_db st) = Inr (Some flag)"
    using rec by (auto simp: reconstruct_incident_def tenant_scope_def tenant(1) json_str_def pol sum_bind_Inr_iff split: option.splits)
  then have mem: "flag \<in> set (db_flags (ap_db st)) \<and> fr_tenant_id flag = u"
    by (auto simp: get_flag_def find_Some_iff split: option.splits)
  let ?es = "take 1000 (sort_key er_ts (filter (\<lambda>e. er_run_id e = fr_run_id flag \<and> er_tenant_id e = u) (db_events (ap_db st))))"
  let ?vs = "sort_key vr_ts (filter (\<lambda>v. vr_run_id v = fr_run_id flag \<and> vr_tenant_id v = u) (db_verdicts (ap_db st)))"
  let ?hs = "sort_key hd_ts (filter (\<lambda>h. hd_flag_id h = fr_flag_id flag) (ap_decisions st))"
  let ?run = "find (\<lambda>(k, r). k = fr_run_id flag \<and> rr_tenant_id r = u) (db_runs (ap_db st))"
  let ?tl = "timeline_entries started ?run ?es ?vs ?hs"
  have rep: "rep = \<lparr> ir_flag = flag, ir_run = ?run, ir_trace = ?es, ir_verdict_chain = ?vs, ir_hitl_decisions = ?hs,
      ir_timeline = sort_key (\<lambda>e. datetime_isoformat (entry_ts e)) ?tl \<rparr>"
    using rec by (simp add: reconstruct_incident_def tenant_scope_def tenant(1) json_str_def pol flag Let_def)
  have "\<forall>e \<in> set ?tl. datetime_range (entry_ts e)" using range by (simp add: rep)
  then have "ir_timeline rep = sort_key entry_ts ?tl" by (simp add: rep sort_isoformat)
  then have "sorted (map entry_ts (ir_timeline rep))" "mset (ir_timeline rep) = mset ?tl" by simp_all
  then show ?thesis using mem by (auto simp: rep)
qed

definition sample_started :: "uuid \<Rightarrow> timestamp" where
  "sample_started _ = 5"

theorem timeline_chronological_witness:
  "\<exists>rep. reconstruct_incident sample_env sample_started (token_payload ''u'' sample_tenant ''reviewer'' 0 100) ''f''
      (sample_state\<lparr> ap_decisions := [sample_row, sample_row\<lparr> hd_hitl_id := ''h2'', hd_ts := 3 \<rparr>] \<rparr>) = Inr (Some rep) \<and>
     map entry_ts (ir_timeline rep) = [3, 7]"
proof -
  let ?st = "sample_state\<lparr> ap_decisions := [sample_row, sample_row\<lparr> hd_hitl_id := ''h2'', hd_ts := 3 \<rparr>] \<rparr>"
  let ?claims = "token_payload ''u'' sample_tenant ''reviewer'' 0 100"
  have pol: "tenant_policy sample_env sample_tenant = Some (\<lambda>x. x = sample_tenant)"
    by (simp add: tenant_policy_def sample_env_def sample_tenant_uuid)
  have uid: "ev_uuid sample_env sample_tenant = Some sample_tenant" by (simp add: sample_env_def)
  have "get_flag sample_env (\<lambda>u. u = sample_tenant) ''f'' (ap_db ?st) = Inr (Some sample_flag)"
    by (simp add: get_flag_def sample_env_def sample_state_def sample_flag_def)
  moreover have "sort_key hd_ts (filter (\<lambda>h. hd_flag_id h = fr_flag_id sample_flag) (ap_decisions ?st)) =
      [sample_row\<lparr> hd_hitl_id := ''h2'', hd_ts := 3 \<rparr>, sample_row]"
    by (simp add: sample_row_def sample_flag_def)
  ultimately obtain rep where rep: "reconstruct_incident sample_env sample_started ?claims ''f'' ?st = Inr (Some rep)"
      "mset (map entry_ts (ir_timeline rep)) = {#3, 7#}"
    by (simp add: reconstruct_incident_def tenant_scope_def json_str_def pol Let_def)
      (simp add: sample_state_def timeline_entries_def sample_row_def)
  have ts: "set (map entry_ts (ir_timeline rep)) = {3, 7}" using rep(2) by (metis set_mset_mset set_mset_add_mset_insert set_mset_empty)
  have small: "datetime_range 3" "datetime_range 7" by (simp_all add: datetime_range_def MICROS_PER_DAY_def)
  have "\<forall>e \<in> set (ir_timeline rep). datetime_range (entry_ts e)"
  proof
    fix e
    assume "e \<in> set (ir_timeline rep)"
    then have "entry_ts e \<in> {3, 7}" unfolding ts [symmetric] set_map by (rule imageI)
    then show "datetime_range (entry_ts e)" using small by (elim insertE) simp_all
  qed
  from timeline_chronological [OF rep(1) payload_claims(1) sample_tenant_uuid(2) uid this]
  have "sorted (map entry_ts (ir_timeline rep))" by blast
  then have "map entry_ts (ir_timeline rep) = sort [3, 7]"
    using rep(2) by (metis mset.simps properties_for_sort)
  then show ?thesis using rep(1) by auto
qed

text \<open>Two behaviours of the query language on concrete inputs: an alias and its internal name in one filter are merged
  and the first condition is lost, and a placeholder is also replaced where it is a key.\<close>

lemma alias_condition_lost:
  "map_sum id q_filter (validate_query (sample_query\<lparr> q_resource := ''verdicts'',
      q_filter := [(''evidence.event.tool_name'', JStr ''mail''), (''evidence__event__tool_name'', JStr ''search'')] \<rparr>)) =
    Inr [(''evidence__event__tool_name'', JStr ''search'')]"
  by code_simp

lemma placeholder_key_bound:
  "bind_params [(''filter'', JObj [(''$k'', JInt 1)])] [(''k'', JStr ''seq'')] = Inr (JObj [(''filter'', JObj [(''seq'', JInt 1)])])"
  by code_simp

end
