(* ===== verification/Replay.thy ===== *)
theory Replay
  imports Review Judge
begin

text \<open>
  Export of runs, \<^verbatim>\<open>auditor/api/replay.py\<close>, and the route of \<^verbatim>\<open>api/hitl_routes.py\<close> that is meant to use it. A bundle is
  the run as JSON with an HMAC-SHA256 over its canonical form. The schema library's JSON form of an event is
  an argument. The main result is that a bundle with a valid signature has the content that was signed.
\<close>

section \<open>Bundles\<close>

definition BUNDLE_VERSION :: int where
  "BUNDLE_VERSION = 1"

text \<open>\<open>dump\<close> is \<^verbatim>\<open>json.loads(event.model_dump_json())\<close>.\<close>

type_synonym event_dump = "event \<Rightarrow> (string, json) pydict"

definition canonical_json :: "json \<Rightarrow> bytes" where
  "canonical_json obj = utf8 (json_dumps obj)"

definition hmac_sign :: "(string, json) pydict \<Rightarrow> bytes \<Rightarrow> string" where
  "hmac_sign payload secret = hex (hmac_sha256 secret (canonical_json (JObj payload)))"

definition bundle_payload :: "event_dump \<Rightarrow> trace \<Rightarrow> (string, json) pydict" where
  "bundle_payload dump tr =
     [(''version'', JInt BUNDLE_VERSION), (''run_id'', JStr (tr_run_id tr)), (''tenant_id'', JStr (tr_tenant_id tr)),
      (''declared_goal'', opt_json (tr_declared_goal tr)), (''events'', JList (map (JObj \<circ> dump) (tr_events tr))),
      (''metadata'', JObj (tr_metadata tr))]"

definition build_export_bundle :: "event_dump \<Rightarrow> trace \<Rightarrow> bytes \<Rightarrow> (string, json) pydict" where
  "build_export_bundle dump tr secret =
     (let payload = bundle_payload dump tr in dict_update payload [(''signature'', JStr (hmac_sign payload secret))])"

text \<open>\<^verbatim>\<open>hmac.compare_digest\<close> refuses a signature that is not a text.\<close>

definition verify_export_bundle :: "(string, json) pydict \<Rightarrow> bytes \<Rightarrow> py_error + bool" where
  "verify_export_bundle bundle secret =
     (let sig = dict_get_or JNull bundle ''signature'' in
      if \<not> json_truthy sig then Inr False
      else (let payload = filter (\<lambda>(k, _). k \<noteq> ''signature'') bundle; expected = hmac_sign payload secret in
        case sig of JStr s \<Rightarrow> compare_digest s expected | _ \<Rightarrow> Inl TypeError))"

section \<open>Replay\<close>

definition reconstruct_run :: "coercions \<Rightarrow> uuid \<Rightarrow> uuid \<Rightarrow> db \<Rightarrow> trace" where
  "reconstruct_run co run_id tenant_id d = load_trace co run_id tenant_id d"

definition SLICE_SKIP :: "string list" where
  "SLICE_SKIP = [''event_id'', ''run_id'', ''tenant_id'', ''span_id'', ''parent_span_id'', ''schema_version'', ''channel'', ''pid'']"

definition event_line :: "(string, json) pydict \<Rightarrow> string" where
  "event_line d =
     (let parts = map (\<lambda>(k, v). k @ ''='' @ json_repr v)
            (filter (\<lambda>(k, v). k \<notin> set SLICE_SKIP \<and> k \<notin> set [''event_type'', ''ts''] \<and> v \<noteq> JNull) d)
      in ''  '' @ json_str (dict_get_or (JStr ''?'') d ''event_type'') @ '' ts='' @ json_str (dict_get_or (JStr ''?'') d ''ts'') @ '' '' @
         py_join '' '' parts)"

definition trace_to_slice :: "event_dump \<Rightarrow> trace \<Rightarrow> string" where
  "trace_to_slice dump tr =
     py_join [CHR 0x0A]
       ([''run_id='' @ tr_run_id tr, ''tenant_id='' @ tr_tenant_id tr, ''declared_goal='' @ json_repr (opt_json (tr_declared_goal tr)), ''events:''] @
        map (event_line \<circ> dump) (tr_events tr))"

definition replay_with_judge :: "event_dump \<Rightarrow> (judge_request \<Rightarrow> 'r) \<Rightarrow> trace \<Rightarrow> string \<Rightarrow> string \<Rightarrow> int \<Rightarrow> 'r" where
  "replay_with_judge dump judge tr category rubric prompt_version =
     judge \<lparr> jq_category = category, jq_rubric = rubric, jq_slice = trace_to_slice dump tr, jq_prompt_version = prompt_version \<rparr>"

text \<open>The route calls \<^verbatim>\<open>build_export_bundle(run_id, session)\<close>, two positional arguments for a function of one with a required
  keyword: \<^verbatim>\<open>TypeError\<close>, which the \<^verbatim>\<open>except\<close> clause does not name. The parameters of a function are its number of
  positional ones and its required keywords.\<close>

definition call_binds :: "nat \<times> string list \<Rightarrow> nat \<Rightarrow> string list \<Rightarrow> bool" where
  "call_binds sig positional keywords \<longleftrightarrow> positional = fst sig \<and> set keywords = set (snd sig)"

definition get_run_replay ::
  "api_env \<Rightarrow> credentials \<Rightarrow> string \<Rightarrow> (trace \<Rightarrow> (string, json) pydict) \<Rightarrow> (db \<Rightarrow> trace) \<Rightarrow> db \<Rightarrow> nat + (string, json) pydict" where
  "get_run_replay env c run_id bundle trace_of d =
     sum_bind (get_current_user (cr_secret c) (cr_time c) (cr_bearer c) (cr_cookie c)) (\<lambda>claims.
       tenant_scope env claims (\<lambda>visible.
         sum_bind (get_run env visible run_id d) (\<lambda>run.
           case run of
             None \<Rightarrow> Inl 404
           | Some _ \<Rightarrow> if call_binds (1, [''secret'']) 2 [] then Inr (bundle (trace_of d)) else Inl 500)))"

lemma replay_route_fails: "\<exists>status. get_run_replay env c run_id bundle trace_of d = Inl status"
  by (auto simp: get_run_replay_def call_binds_def tenant_scope_def sum_bind_def split: sum.split option.split)

section \<open>Properties\<close>

lemma hex_ascii: "list_all (\<lambda>c. (of_char c :: nat) < 128) (hex bs)"
proof -
  have d: "(of_char (hex_digit n) :: nat) < 128" if "n < 16" for n
  proof -
    have "list_all (\<lambda>n. (of_char (hex_digit n) :: nat) < 128) [0..<16]" by code_simp
    then show ?thesis using that by (simp add: list_all_iff)
  qed
  have "unat b div 16 < 16" for b :: byte using unsigned_less [of b, where ?'a = nat] by simp
  then show ?thesis using d by (induction bs) (simp_all add: hex_def hex_byte_def)
qed

lemma hmac_sign_ne: "hmac_sign payload secret \<noteq> []"
proof
  assume "hmac_sign payload secret = []"
  then have "hex (hmac_sha256 secret (canonical_json (JObj payload))) = hex []" by (simp add: hmac_sign_def hex_def)
  then have "hmac_sha256 secret (canonical_json (JObj payload)) = []" by (rule hex_inj)
  then show False using length_sha256 by (metis hmac_sha256_def list.size(3) zero_neq_numeral)
qed

lemma bundle_keys: "''signature'' \<notin> fst ` set (bundle_payload dump tr)"
  by (simp add: bundle_payload_def)

lemma built_bundle:
  "build_export_bundle dump tr secret = bundle_payload dump tr @ [(''signature'', JStr (hmac_sign (bundle_payload dump tr) secret))]"
  using bundle_keys [of dump tr] by (simp add: build_export_bundle_def Let_def dict_update_append)

definition unsigned :: "(string, json) pydict \<Rightarrow> (string, json) pydict" where
  "unsigned b = filter (\<lambda>(k, _). k \<noteq> ''signature'') b"

lemma built_signature: "dict_get (build_export_bundle dump tr secret) ''signature'' = Some (JStr (hmac_sign (bundle_payload dump tr) secret))"
  by (simp add: build_export_bundle_def Let_def dict_update_def dict_get_set)

lemma verify_signed:
  assumes "dict_get b ''signature'' = Some (JStr (hmac_sign (unsigned b) secret))"
  shows "verify_export_bundle b secret = Inr True"
  using hmac_sign_ne [of "unsigned b" secret] hex_ascii
  by (simp add: verify_export_bundle_def dict_get_or_def assms json_truthy_def compare_digest_def hmac_sign_def unsigned_def [symmetric])

lemma verified_signature:
  assumes "verify_export_bundle b secret = Inr True" "dict_get b ''signature'' = Some (JStr s)"
  shows "s = hmac_sign (unsigned b) secret"
  using assms by (auto simp: verify_export_bundle_def dict_get_or_def unsigned_def [symmetric] compare_digest_def Let_def split: if_splits)

lemma unsigned_built: "unsigned (build_export_bundle dump tr secret) = bundle_payload dump tr"
  by (simp add: unsigned_def built_bundle bundle_payload_def)


definition empty_run :: trace where
  "empty_run = \<lparr> tr_run_id = ''r'', tr_tenant_id = ''t'', tr_declared_goal = None, tr_events = [], tr_metadata = [] \<rparr>"

text \<open>The same bundle with its keys in the opposite order.\<close>

definition reordered :: "(string, json) pydict" where
  "reordered = rev (build_export_bundle (\<lambda>_. []) empty_run [7])"


end
