(* ===== verification/Admin.thy ===== *)
theory Admin
  imports Review Scanner Calibration Sampling Lifecycle
begin

text \<open>
  The administration routes (\<^verbatim>\<open>auditor/api/admin.py\<close>: calibration, roles, sampler settings, reset, scanner), the list of
  shadow verdicts (\<^verbatim>\<open>api/shadow_routes.py\<close>) and the live view of a run (\<^verbatim>\<open>api/agent_routes.py\<close>), over the modelled
  tables and services. The main result is about roles: however users log in and change roles, nobody becomes an
  administrator unless there was one.
\<close>

section \<open>Calibration\<close>

record calibration_row =
  ca_cal_id :: uuid
  ca_ts :: timestamp
  ca_judge_model :: string
  ca_judge_prompt_v :: int
  ca_per_category :: "(string, (string, json) pydict) pydict"
  ca_overall :: "(string, json) pydict"

definition get_latest_calibration_run :: "calibration_row list \<Rightarrow> calibration_row option" where
  "get_latest_calibration_run rows = (case by_newest ca_ts rows of [] \<Rightarrow> None | r # _ \<Rightarrow> Some r)"

definition insert_calibration_run :: "uuid \<Rightarrow> timestamp \<Rightarrow> calibration_report \<Rightarrow> calibration_row list \<Rightarrow> calibration_row list option" where
  "insert_calibration_run fresh now report rows =
     (if fresh \<in> ca_cal_id ` set rows then None
      else Some (rows @ [\<lparr> ca_cal_id = fresh, ca_ts = now, ca_judge_model = cr_judge_model report, ca_judge_prompt_v = cr_judge_prompt_v report,
        ca_per_category = cr_per_category report, ca_overall = cr_overall report \<rparr>]))"

definition calibration_run_to_dict :: "calibration_row \<Rightarrow> (string, json) pydict" where
  "calibration_run_to_dict r =
     [(''ts'', JStr (datetime_isoformat (ca_ts r))), (''judge_model'', JStr (ca_judge_model r)), (''judge_prompt_v'', JInt (ca_judge_prompt_v r)),
      (''per_category'', JObj (map (\<lambda>(c, m). (c, JObj m)) (ca_per_category r))), (''overall'', JObj (ca_overall r))]"

definition get_latest_calibration :: "credentials \<Rightarrow> calibration_row list \<Rightarrow> nat + (string, json) pydict" where
  "get_latest_calibration c rows =
     map_sum id (\<lambda>_. case get_latest_calibration_run rows of None \<Rightarrow> [] | Some r \<Rightarrow> calibration_run_to_dict r) (authorised c [''admin''])"

text \<open>An exception of a predictor ends the request; a failed insertion does not. \<open>db_up\<close> says whether the database
  accepts the row.\<close>

definition run_calibration ::
  "api_env \<Rightarrow> bool \<Rightarrow> calibration_job \<Rightarrow> string \<Rightarrow> ground_truth_entry list \<Rightarrow> credentials \<Rightarrow> calibration_row list \<Rightarrow>
   nat + calibration_report \<times> calibration_row list" where
  "run_calibration env db_up job ts entries c rows =
     sum_bind (authorised c [''admin'']) (\<lambda>_.
       case calibration_run job ts entries of
         Inl _ \<Rightarrow> Inl 500
       | Inr (report, _) \<Rightarrow>
           Inr (report, case insert_calibration_run (ev_fresh env) (ev_now env) report rows of
             Some rows' \<Rightarrow> if db_up then rows' else rows | None \<Rightarrow> rows))"

section \<open>Roles\<close>

definition VALID_ROLES :: "string list" where
  "VALID_ROLES = [''admin'', ''reviewer'', ''readonly'']"

definition find_user_by_id :: "api_env \<Rightarrow> user_row list \<Rightarrow> string \<Rightarrow> nat + user_row option" where
  "find_user_by_id env users user_id =
     (case ev_uuid env user_id of None \<Rightarrow> Inl 500 | Some u \<Rightarrow> Inr (find (\<lambda>r. us_user_id r = u) users))"

definition grant_role ::
  "api_env \<Rightarrow> credentials \<Rightarrow> string \<Rightarrow> string \<Rightarrow> user_row list \<Rightarrow> nat + (string, json) pydict \<times> user_row list" where
  "grant_role env c user_id role users =
     sum_bind (authorised c [''admin'']) (\<lambda>claims.
       if role \<notin> set VALID_ROLES then Inl 422
       else sum_bind (find_user_by_id env users user_id) (\<lambda>found.
         case found of
           None \<Rightarrow> Inl 404
         | Some user \<Rightarrow>
             Inr ([(''user_id'', JStr user_id), (''role'', JStr role), (''previous_role'', JStr (us_role user))],
               map (\<lambda>r. if us_user_id r = us_user_id user then r\<lparr> us_role := role \<rparr> else r) users)))"

section \<open>Sampler settings\<close>

record sampler_body =
  sb_mode :: "string option"
  sb_rate :: "rat option"
  sb_every_n :: "int option"
  sb_interval_seconds :: "rat option"
  sb_critical_risk_threshold :: "int option"

definition or_current :: "'a option \<Rightarrow> 'a \<Rightarrow> 'a" where
  "or_current v cur = (case v of None \<Rightarrow> cur | Some x \<Rightarrow> x)"

definition merge_settings :: "sampler_body \<Rightarrow> sampler_settings \<Rightarrow> sampler_settings" where
  "merge_settings b cur =
     \<lparr> ss_mode = or_current (sb_mode b) (ss_mode cur), ss_rate = or_current (sb_rate b) (ss_rate cur),
       ss_every_n = or_current (sb_every_n b) (ss_every_n cur),
       ss_interval_seconds = or_current (sb_interval_seconds b) (ss_interval_seconds cur),
       ss_critical_risk_threshold = or_current (sb_critical_risk_threshold b) (ss_critical_risk_threshold cur) \<rparr>"

definition get_sampler_route :: "credentials \<Rightarrow> runtime \<Rightarrow> nat + sampler_settings" where
  "get_sampler_route c rt = map_sum id (\<lambda>_. rt_settings rt) (authorised c REVIEW_ROLES)"

definition update_sampler :: "credentials \<Rightarrow> sampler_body \<Rightarrow> runtime \<Rightarrow> nat + sampler_settings \<times> runtime" where
  "update_sampler c b rt =
     sum_bind (authorised c [''admin'']) (\<lambda>_.
       case set_settings (merge_settings b (rt_settings rt)) rt of
         Inl _ \<Rightarrow> Inl 400
       | Inr rt' \<Rightarrow> Inr (rt_settings rt', rt'))"

section \<open>Reset\<close>

definition RESET_TABLES :: "string list" where
  "RESET_TABLES =
     [''incident_action_items'', ''incident_comments'', ''incidents'', ''hitl_decisions'', ''shadow_verdicts'', ''verdicts'', ''flags'',
      ''sampler_decisions'', ''audit_log'', ''memory_embeddings'', ''memory_entries'', ''events'', ''runs'']"

text \<open>The references between these tables; \<^verbatim>\<open>CASCADE\<close> truncates what refers to a truncated table.\<close>

definition FOREIGN_KEYS :: "(string \<times> string) list" where
  "FOREIGN_KEYS =
     [(''events'', ''runs''), (''gate_decisions'', ''events''), (''sampler_decisions'', ''runs''), (''verdicts'', ''runs''),
      (''flags'', ''runs''), (''hitl_decisions'', ''flags''), (''hitl_decisions'', ''users''), (''memory_embeddings'', ''memory_entries''),
      (''incidents'', ''flags''), (''incidents'', ''users''), (''incident_comments'', ''incidents''), (''incident_comments'', ''users''),
      (''incident_action_items'', ''incidents''), (''incident_action_items'', ''users''), (''shadow_verdicts'', ''runs'')]"

definition referring :: "string list \<Rightarrow> string list" where
  "referring ts = ts @ map fst (filter (\<lambda>(a, b). b \<in> set ts \<and> a \<notin> set ts) FOREIGN_KEYS)"

definition truncated :: "string list \<Rightarrow> string list" where
  "truncated targets = (referring ^^ length FOREIGN_KEYS) targets"

definition truncate_tables :: "string list \<Rightarrow> api_state \<Rightarrow> api_state" where
  "truncate_tables ts st =
     (let d = ap_db st; keep = (\<lambda>t. t \<notin> set ts) in
      st\<lparr> ap_db := d\<lparr> db_runs := (if keep ''runs'' then db_runs d else []), db_events := (if keep ''events'' then db_events d else []),
            db_gate_decisions := (if keep ''gate_decisions'' then db_gate_decisions d else []),
            db_verdicts := (if keep ''verdicts'' then db_verdicts d else []), db_flags := (if keep ''flags'' then db_flags d else []),
            db_incidents := (if keep ''incidents'' then db_incidents d else []) \<rparr>,
          ap_users := (if keep ''users'' then ap_users st else []),
          ap_decisions := (if keep ''hitl_decisions'' then ap_decisions st else []),
          ap_comments := (if keep ''incident_comments'' then ap_comments st else []),
          ap_items := (if keep ''incident_action_items'' then ap_items st else []),
          ap_log := (if keep ''audit_log'' then ap_log st else []) \<rparr>)"

definition reset_demo_data :: "string list \<Rightarrow> credentials \<Rightarrow> api_state \<Rightarrow> nat + string list \<times> api_state" where
  "reset_demo_data existing c st =
     map_sum id (\<lambda>_. (let targets = filter (\<lambda>t. t \<in> set existing) RESET_TABLES in
       (targets, if targets = [] then st else truncate_tables (truncated targets) st))) (authorised c [''admin''])"

section \<open>Scanner\<close>

text \<open>Only a \<^verbatim>\<open>ValueError\<close> of \<^verbatim>\<open>_parse_since\<close> is handled.\<close>

definition run_pii_scanner ::
  "(string \<Rightarrow> string list) \<Rightarrow> scan_ids \<Rightarrow> (string \<Rightarrow> timestamp option) \<Rightarrow> timestamp \<Rightarrow> string option \<Rightarrow> credentials \<Rightarrow>
   memory_row list option \<Rightarrow> db \<Rightarrow> nat + scan_summary \<times> db" where
  "run_pii_scanner detect ids fromiso now since c table d =
     sum_bind (authorised c [''admin'']) (\<lambda>claims.
       case parse_since fromiso now since of
         Inl Time_ValueError \<Rightarrow> Inl 400
       | Inl Time_OverflowError \<Rightarrow> Inl 500
       | Inr t \<Rightarrow>
           (case dict_get claims ''tenant_id'' of
              Some (JStr tenant) \<Rightarrow>
                if tenant = [] then Inl 400
                else (case parse_uuid tenant of None \<Rightarrow> Inl 500 | Some u \<Rightarrow> Inr (run_scan detect ids now u t table d))
            | _ \<Rightarrow> Inl 400))"

section \<open>Shadow verdicts\<close>

definition list_shadow_verdicts ::
  "string option \<Rightarrow> string option \<Rightarrow> nat \<Rightarrow> credentials \<Rightarrow> shadow_row list \<Rightarrow> nat + verdict list" where
  "list_shadow_verdicts detector_name asi_category limit c rows =
     sum_bind (authorised c REVIEW_ROLES) (\<lambda>_.
       if limit < 1 \<or> 500 < limit then Inl 422
       else Inr (take limit (by_newest vd_ts
         (filter (\<lambda>v. opt_match detector_name (vd_detector v) \<and> opt_match asi_category (vd_asi_category v)) (map sh_verdict rows)))))"

section \<open>The live view of a run\<close>

record sampler_row =
  sr_run_id :: uuid
  sr_tier_fired :: string
  sr_reason :: string
  sr_cohort_rate :: "rat option"

record agent_view =
  av_harness_status :: string
  av_audited :: bool
  av_run :: "run_row option"
  av_sampler :: "sampler_row option"
  av_events :: "event_row list"
  av_checks :: "(check, verdict_row list) pydict"
  av_flag :: "flag_row option"
  av_incident :: "incident option"

definition group_row :: "(check, verdict_row list) pydict \<Rightarrow> verdict_row \<Rightarrow> (check, verdict_row list) pydict" where
  "group_row grouped v =
     (if vr_result v = ''OK'' then grouped
      else case check_for_detector (vr_detector v) (Some (vr_asi_category v)) of
        None \<Rightarrow> grouped
      | Some k \<Rightarrow> dict_set k (dict_get_or [] grouped k @ [v]) grouped)"

definition audit_complete :: "sampler_row option \<Rightarrow> verdict_row list \<Rightarrow> bool" where
  "audit_complete s verdicts = (case s of None \<Rightarrow> False | Some r \<Rightarrow> sr_tier_fired r = ''NONE'' \<or> verdicts \<noteq> [])"

text \<open>\<open>live\<close> is the registry of running processes: the status of a run it knows.\<close>

definition get_agent_run ::
  "(string \<Rightarrow> string option) \<Rightarrow> sampler_row list \<Rightarrow> credentials \<Rightarrow> string \<Rightarrow> db \<Rightarrow> nat + agent_view" where
  "get_agent_run live samplers c run_id d =
     sum_bind (authorised c REVIEW_ROLES) (\<lambda>_.
       case parse_uuid run_id of
         None \<Rightarrow> Inl 400
       | Some u \<Rightarrow>
           (let run = dict_get (db_runs d) u in
            if run = None \<and> live run_id = None then Inl 404
            else (let sampler = find (\<lambda>s. sr_run_id s = u) samplers;
                      verdicts = filter (\<lambda>v. vr_run_id v = u) (db_verdicts d);
                      flag = find (\<lambda>f. fr_run_id f = u) (db_flags d)
                  in Inr \<lparr> av_harness_status = (case live run_id of None \<Rightarrow> ''unknown'' | Some s \<Rightarrow> s),
                       av_audited = audit_complete sampler verdicts, av_run = run, av_sampler = sampler,
                       av_events = take 500 (sort_key er_ts (filter (\<lambda>e. er_run_id e = u) (db_events d))),
                       av_checks = foldl group_row [] verdicts, av_flag = flag,
                       av_incident = (case flag of None \<Rightarrow> None
                         | Some f \<Rightarrow> find (\<lambda>i. ic_primary_flag_id i = fr_flag_id f) (db_incidents d)) \<rparr>)))"

section \<open>Who can become an administrator\<close>

text \<open>Users log in and get tokens; whoever holds a token may ask for a change of roles at any time.\<close>

inductive role_step :: "login_settings \<Rightarrow> user_row list \<times> string set \<Rightarrow> user_row list \<times> string set \<Rightarrow> bool" for settings where
  logs_in: "login settings users now email password = Inr resp \<Longrightarrow>
     role_step settings (users, toks) (users, insert (lr_access_token resp) toks)"
| changes_role: "tok \<in> toks \<Longrightarrow> cr_secret c = ls_jwt_secret settings \<Longrightarrow> extract_raw_token (cr_bearer c) (cr_cookie c) = Some tok \<Longrightarrow>
     grant_role env c user_id role users = Inr (answer, users') \<Longrightarrow> role_step settings (users, toks) (users', toks)"

inductive role_reach :: "login_settings \<Rightarrow> user_row list \<Rightarrow> user_row list \<times> string set \<Rightarrow> bool" for settings users0 where
  start: "role_reach settings users0 (users0, {})"
| step: "role_reach settings users0 s \<Longrightarrow> role_step settings s s' \<Longrightarrow> role_reach settings users0 s'"

definition no_admin :: "user_row list \<Rightarrow> bool" where
  "no_admin users \<longleftrightarrow> (\<forall>u \<in> set users. us_role u \<noteq> ''admin'')"

definition harmless :: "login_settings \<Rightarrow> string \<Rightarrow> bool" where
  "harmless settings tok \<longleftrightarrow>
     (\<exists>now u t r ttl. tok = issue_token (ls_jwt_secret settings) now u t r ttl \<and> r \<noteq> ''admin'')"

lemma login_token:
  assumes "login settings users now email password = Inr resp" "no_admin users"
  shows "harmless settings (lr_access_token resp)"
proof -
  obtain u where u: "find_user_by_email users email = Some u"
      "lr_access_token resp = issue_token (ls_jwt_secret settings) now (us_user_id u) (us_tenant_id u) (us_role u) (ls_jwt_ttl_seconds settings)"
    using assms(1) by (auto simp: login_def split: if_splits option.splits)
  then have "us_role u \<noteq> ''admin''" using assms(2) by (auto simp: find_user_by_email_def find_Some_iff no_admin_def)
  then show ?thesis using u(2) unfolding harmless_def by blast
qed

lemma harmless_refused:
  assumes "harmless settings tok" "cr_secret c = ls_jwt_secret settings" "extract_raw_token (cr_bearer c) (cr_cookie c) = Some tok"
  shows "\<exists>status. authorised c [''admin''] = Inl status"
proof -
  obtain now u t r ttl where tok: "tok = issue_token (ls_jwt_secret settings) now u t r ttl" "r \<noteq> ''admin''"
    using assms(1) unfolding harmless_def by blast
  have "get_current_user (cr_secret c) (cr_time c) (cr_bearer c) (cr_cookie c) =
      get_current_user (cr_secret c) (cr_time c) (Some tok) None"
    using tok(1) by (simp add: get_current_user_def assms(3)) (simp add: extract_raw_token_def issue_token_def Let_def)
  then show ?thesis
    using tok(2) by (simp add: authorised_def assms(2) tok(1) current_user_issued require_role_issued)
qed

section \<open>Properties\<close>

text \<open>C37. Nobody becomes an administrator by himself: if no user is one, then after any sequence of logins and of
  requests to change a role, with any token that was handed out and at any time, there is still none and
  no role has changed.\<close>

theorem no_role_escalation:
  assumes "role_reach settings users0 (users, toks)" "no_admin users0"
  shows "users = users0 \<and> (\<forall>tok \<in> toks. \<forall>c. cr_secret c = ls_jwt_secret settings \<longrightarrow>
    extract_raw_token (cr_bearer c) (cr_cookie c) = Some tok \<longrightarrow> (\<exists>status. authorised c [''admin''] = Inl status))"
proof -
  have "users = users0 \<and> (\<forall>tok \<in> toks. harmless settings tok)"
    using assms
  proof (induction "(users, toks)" arbitrary: users toks rule: role_reach.induct)
    case (step s)
    obtain us ts where s: "s = (us, ts)" by (cases s)
    have IH: "us = users0" "\<forall>tok \<in> ts. harmless settings tok" using step.hyps(2) [OF s] step.prems by simp_all
    from step.hyps(3) [unfolded s] show ?case
    proof cases
      case (logs_in now email password resp)
      then show ?thesis using IH login_token [OF logs_in(3)] step.prems by auto
    next
      case (changes_role tok c env user_id role answer)
      then show ?thesis using harmless_refused [of settings tok c] IH by (auto simp: grant_role_def)
    qed
  qed simp
  then show ?thesis using harmless_refused by blast
qed

definition dev_settings :: login_settings where
  "dev_settings = \<lparr> ls_jwt_secret = ''k'', ls_jwt_ttl_seconds = 100, ls_dev_login_enabled = True \<rparr>"

definition lone_reviewer :: user_row where
  "lone_reviewer = \<lparr> us_user_id = ''u'', us_tenant_id = ''t'', us_email = ''a'', us_role = ''reviewer'', us_oidc_subject = None, us_created_at = 0 \<rparr>"

theorem no_role_escalation_witness:
  "\<exists>tok. role_reach dev_settings [lone_reviewer] ([lone_reviewer], {tok}) \<and>
     (\<forall>c. cr_secret c = ''k'' \<longrightarrow> extract_raw_token (cr_bearer c) (cr_cookie c) = Some tok \<longrightarrow> (\<exists>status. authorised c [''admin''] = Inl status))"
proof -
  obtain resp where "login dev_settings [lone_reviewer] 0 ''a'' [] = Inr resp"
    by (simp add: login_def dev_settings_def find_user_by_email_def lone_reviewer_def)
  then have reach: "role_reach dev_settings [lone_reviewer] ([lone_reviewer], {lr_access_token resp})"
    using role_reach.step [OF role_reach.start role_step.logs_in] by blast
  moreover have "no_admin [lone_reviewer]" by (simp add: no_admin_def lone_reviewer_def)
  moreover have "ls_jwt_secret dev_settings = ''k''" by (simp add: dev_settings_def)
  ultimately show ?thesis using no_role_escalation [OF reach] by (metis singletonI)
qed

section \<open>Tenants and the administration routes\<close>

text \<open>An administrator of one tenant changes the role of a user of any tenant: the look-up is by identifier only.\<close>

lemma grant_ignores_tenant:
  assumes "later < now + ttl" "role \<in> set VALID_ROLES" "ev_uuid env uid = Some u" "find (\<lambda>r. us_user_id r = u) users = Some row"
  shows "grant_role env (session secret now adm tenant ''admin'' ttl later) uid role users =
    Inr ([(''user_id'', JStr uid), (''role'', JStr role), (''previous_role'', JStr (us_role row))],
      map (\<lambda>r. if us_user_id r = us_user_id row then r\<lparr> us_role := role \<rparr> else r) users)"
  using assms by (simp add: grant_role_def authorised_session find_user_by_id_def)

text \<open>A reset empties the log of every tenant and keeps the users; the verifier accepts what is left.\<close>

lemma truncated_range: "set ts \<subseteq> set (truncated ts) \<and> set (truncated ts) \<subseteq> set ts \<union> fst ` set FOREIGN_KEYS"
proof -
  have "set ts \<subseteq> set ((referring ^^ n) ts) \<and> set ((referring ^^ n) ts) \<subseteq> set ts \<union> fst ` set FOREIGN_KEYS" for n
  proof (induction n)
    case (Suc n)
    have "set xs \<subseteq> set (referring xs) \<and> set (referring xs) \<subseteq> set xs \<union> fst ` set FOREIGN_KEYS" for xs
      unfolding referring_def by auto
    with Suc show ?case by (simp del: set_append) blast
  qed simp
  then show ?thesis unfolding truncated_def by blast
qed

lemma reset_erases_log:
  assumes "reset_demo_data existing c st = Inr (targets, st')" "''audit_log'' \<in> set existing"
  shows "ap_log st' = [] \<and> ap_users st' = ap_users st \<and> cv_ok (verify tenant (ap_log st')) \<and> cv_count (verify tenant (ap_log st')) = 0"
proof -
  have targets: "targets = filter (\<lambda>t. t \<in> set existing) RESET_TABLES"
      "st' = (if targets = [] then st else truncate_tables (truncated targets) st)"
    using assms(1) by (auto simp: reset_demo_data_def Let_def map_sum_Inr_iff)
  have log: "''audit_log'' \<in> set targets" using assms(2) unfolding targets(1) by (simp add: RESET_TABLES_def)
  then have "''audit_log'' \<in> set (truncated targets)" using truncated_range [of targets] by blast
  moreover have "''users'' \<notin> set targets" unfolding targets(1) by (simp add: RESET_TABLES_def)
  moreover have "''users'' \<notin> fst ` set FOREIGN_KEYS" by code_simp
  ultimately have "ap_log st' = [] \<and> ap_users st' = ap_users st"
    using targets(2) log truncated_range [of targets] by (auto simp: truncate_tables_def Let_def)
  moreover have "cv_ok (verify tenant []) \<and> cv_count (verify tenant []) = 0" by (simp add: verify_def tenant_rows_def verify_chain_def)
  ultimately show ?thesis by simp
qed

end
