(* ===== verification/Harness.thy ===== *)
theory Harness
  imports Event_Store
begin

text \<open>
  The owner of harness processes, \<^verbatim>\<open>auditor/harness_runner.py\<close>: the environment a child gets, the life of one run from
  the request to the reaper, the registry with its expiry, and termination. What the operating system does (minting
  and writing certificates, opening the log, spawning, waiting, signals) is an argument. The main results
  are that no secret of the parent reaches the child, and that no running process is ever dropped from the registry
  and every reaped one has its final state.
\<close>

section \<open>The environment of the child\<close>

definition ENV_ALLOWLIST_EXACT :: "string list" where
  "ENV_ALLOWLIST_EXACT =
     [''PATH'', ''PYTHONPATH'', ''PYTHONUNBUFFERED'', ''HOME'', ''USER'', ''TZ'', ''LANG'', ''SYSTEMROOT'', ''WINDIR'', ''COMSPEC'', ''PATHEXT'',
      ''APPDATA'', ''LOCALAPPDATA'', ''PROGRAMDATA'', ''PROGRAMFILES'', ''PROGRAMFILES(X86)'', ''TEMP'', ''TMP'', ''TMPDIR'',
      ''ANTHROPIC_API_KEY'', ''LITELLM_BASE_URL'', ''LITELLM_API_KEY'', ''AGENT_MODEL'', ''JUDGE_MODEL'']"

definition ENV_ALLOWLIST_PREFIXES :: "string list" where
  "ENV_ALLOWLIST_PREFIXES = [''LC_'']"

definition ENV_DENYLIST_PREFIXES :: "string list" where
  "ENV_DENYLIST_PREFIXES =
     [''JWT_'', ''SECRET_'', ''POSTGRES_'', ''DATABASE_'', ''DB_'', ''OIDC_'', ''OAUTH_'', ''OPA_'', ''REDIS_'', ''MINIO_'', ''S3_'', ''AWS_'',
      ''AZURE_'', ''GCP_'', ''GOOGLE_APPLICATION_'', ''FLY_API_'', ''SLACK_'']"

definition denied :: "string \<Rightarrow> bool" where
  "denied key = list_ex (startswith key) ENV_DENYLIST_PREFIXES"

definition forwarded :: "string \<Rightarrow> bool" where
  "forwarded key = (key \<in> set ENV_ALLOWLIST_EXACT \<or> list_ex (startswith key) ENV_ALLOWLIST_PREFIXES)"

type_synonym environ = "(string, string) pydict"

definition child_env_step :: "environ \<Rightarrow> string \<times> string \<Rightarrow> environ" where
  "child_env_step out kv = (case kv of (key, v) \<Rightarrow> if denied key then out else if forwarded key then dict_set key v out else out)"

definition build_child_env :: "environ \<Rightarrow> environ \<Rightarrow> environ" where
  "build_child_env parent_env overrides = dict_update (foldl child_env_step [] parent_env) overrides"

section \<open>Runs\<close>

record harness_run =
  hr_run_id :: string
  hr_tenant_id :: uuid
  hr_task :: string
  hr_max_turns :: int
  hr_status :: string
  hr_exit_code :: "int option"
  hr_started_at :: "timestamp option"
  hr_ended_at :: "timestamp option"
  hr_pid :: "int option"
  hr_log_open :: bool

definition from_request :: "string \<Rightarrow> string \<Rightarrow> int \<Rightarrow> uuid \<Rightarrow> harness_run" where
  "from_request fresh task max_turns tenant_id =
     \<lparr> hr_run_id = fresh, hr_tenant_id = tenant_id, hr_task = task, hr_max_turns = max_turns, hr_status = ''pending'',
       hr_exit_code = None, hr_started_at = None, hr_ended_at = None, hr_pid = None, hr_log_open = False \<rparr>"

type_synonym registry = "(string, harness_run) pydict"

definition get_run_entry :: "registry \<Rightarrow> string \<Rightarrow> harness_run option" where
  "get_run_entry reg run_id = dict_get reg run_id"

definition REGISTRY_TTL_SECONDS :: rat where
  "REGISTRY_TTL_SECONDS = 1800"

text \<open>\<^verbatim>\<open>time.time()\<close> is a float of seconds, and so is \<^verbatim>\<open>ended_at.timestamp()\<close>.\<close>

definition run_expired :: "rat \<Rightarrow> harness_run \<Rightarrow> bool" where
  "run_expired now r =
     (case hr_ended_at r of None \<Rightarrow> False | Some t \<Rightarrow> REGISTRY_TTL_SECONDS < fsub now (f64 (of_int t / 1000000)))"

definition sweep_expired_runs :: "rat \<Rightarrow> registry \<Rightarrow> registry" where
  "sweep_expired_runs now reg =
     (let expired = map fst (filter (\<lambda>(_, r). run_expired now r) reg) in foldl (\<lambda>d k. AList.delete k d) reg expired)"

text \<open>The operating system at one start: the paths of the minted certificate, whether the log file opens, and what
  spawning a child with an environment gives; \<open>None\<close> is an exception.\<close>

record spawn_host =
  ho_environ :: environ
  ho_mint :: "(string \<times> string \<times> string) option"
  ho_log_opens :: bool
  ho_spawn :: "environ \<Rightarrow> int option"
  ho_time :: rat
  ho_now :: timestamp

definition env_or :: "environ \<Rightarrow> string \<Rightarrow> string \<Rightarrow> string" where
  "env_or e k d = dict_get_or d e k"

definition run_overrides :: "spawn_host \<Rightarrow> string \<times> string \<times> string \<Rightarrow> harness_run \<Rightarrow> environ" where
  "run_overrides h paths r =
     (let (cert, key, ca) = paths in
      [(''HARNESS_MODE'', ''agent''), (''HARNESS_TASK'', hr_task r), (''HARNESS_MAX_TURNS'', str_int (hr_max_turns r)),
       (''HARNESS_CERT'', cert), (''HARNESS_KEY'', key), (''HARNESS_CA'', ca), (''HARNESS_RUN_ID'', hr_run_id r),
       (''HARNESS_TENANT_ID'', hr_tenant_id r), (''GATE_TIMEOUT_MS'', env_or (ho_environ h) ''GATE_TIMEOUT_MS'' ''500''),
       (''IPC_MTLS_ENABLED'', env_or (ho_environ h) ''IPC_MTLS_ENABLED'' ''false'')])"

datatype start_error = Already_started | Mint_failed | Log_failed | Spawn_failed

text \<open>\<^verbatim>\<open>start\<close>: the run as it is left, the registry, and the error if there is one.\<close>

definition start :: "spawn_host \<Rightarrow> harness_run \<Rightarrow> registry \<Rightarrow> start_error option \<times> harness_run \<times> registry" where
  "start h r reg =
     (if hr_pid r \<noteq> None then (Some Already_started, r, reg)
      else (let reg' = sweep_expired_runs (ho_time h) reg in
        case ho_mint h of
          None \<Rightarrow> (Some Mint_failed, r, reg')
        | Some paths \<Rightarrow>
            (let env = build_child_env (ho_environ h) (run_overrides h paths r) in
             if \<not> ho_log_opens h then (Some Log_failed, r, reg')
             else (let r' = r\<lparr> hr_log_open := True \<rparr> in
               case ho_spawn h env of
                 None \<Rightarrow> (Some Spawn_failed, r', reg')
               | Some pid \<Rightarrow>
                   (let r'' = r'\<lparr> hr_pid := Some pid, hr_started_at := Some (ho_now h), hr_status := ''running'' \<rparr> in
                    (None, r'', dict_set (hr_run_id r'') r'' reg'))))))"

definition terminal_status :: "int \<Rightarrow> string" where
  "terminal_status code = (if code = 0 then ''completed'' else ''exited('' @ str_int code @ '')'')"

text \<open>\<^verbatim>\<open>_reap\<close>: \<open>waited\<close> is the exit code, or \<open>None\<close> when waiting raised; \<open>loop_up\<close> says whether the main loop runs and
  the database answers in time.\<close>

definition reap :: "int option \<Rightarrow> timestamp \<Rightarrow> bool \<Rightarrow> harness_run \<Rightarrow> db \<Rightarrow> harness_run \<times> db" where
  "reap waited now loop_up r d =
     (let code = (case waited of None \<Rightarrow> - 1 | Some c \<Rightarrow> c) in
      (r\<lparr> hr_exit_code := Some code, hr_ended_at := Some now, hr_status := terminal_status code, hr_log_open := False \<rparr>,
       if loop_up then mark_run_completed now (hr_run_id r) d else d))"

datatype signal = Sig_terminate | Sig_kill

text \<open>\<^verbatim>\<open>terminate\<close>: the result of the first \<^verbatim>\<open>poll\<close> and those until the deadline (\<open>True\<close> when the child has ended).\<close>

definition terminate :: "harness_run \<Rightarrow> bool \<Rightarrow> bool list \<Rightarrow> signal list" where
  "terminate r ended polls =
     (if hr_pid r = None \<or> ended then [] else Sig_terminate # (if list_ex id polls then [] else [Sig_kill]))"

definition terminate_all_live_runs :: "(string \<Rightarrow> bool \<times> bool list) \<Rightarrow> registry \<Rightarrow> (string \<times> signal list) list" where
  "terminate_all_live_runs watch reg = map (\<lambda>(k, r). (k, terminate r (fst (watch k)) (snd (watch k)))) reg"

section \<open>The child's environment, by key\<close>

lemma child_env_step_get:
  "dict_get (child_env_step out (key, v)) k = (if k = key \<and> \<not> denied key \<and> forwarded key then Some v else dict_get out k)"
  by (simp add: child_env_step_def dict_get_set)

lemma child_env_fold:
  "dict_get (foldl child_env_step out parent) k =
     (if \<not> denied k \<and> forwarded k then (case dict_get (rev parent) k of Some v \<Rightarrow> Some v | None \<Rightarrow> dict_get out k) else dict_get out k)"
proof (induction parent arbitrary: out)
  case (Cons kv parent)
  obtain key v where kv: "kv = (key, v)" by (cases kv)
  show ?case unfolding foldl.simps Cons.IH kv child_env_step_get by (auto simp: map_add_def split: option.splits)
qed simp

lemma child_env_get:
  "dict_get (build_child_env parent ov) k =
     (case dict_get (rev ov) k of Some v \<Rightarrow> Some v
      | None \<Rightarrow> if \<not> denied k \<and> forwarded k then dict_get (rev parent) k else None)"
  by (auto simp: build_child_env_def dict_get_update child_env_fold split: option.splits)

lemma overrides_not_denied: "k \<in> fst ` set (run_overrides h paths r) \<Longrightarrow> \<not> denied k"
proof -
  have "list_all (\<lambda>k. \<not> denied k) [''HARNESS_MODE'', ''HARNESS_TASK'', ''HARNESS_MAX_TURNS'', ''HARNESS_CERT'', ''HARNESS_KEY'', ''HARNESS_CA'',
      ''HARNESS_RUN_ID'', ''HARNESS_TENANT_ID'', ''GATE_TIMEOUT_MS'', ''IPC_MTLS_ENABLED'']"
    by code_simp
  moreover have "map fst (run_overrides h paths r) = [''HARNESS_MODE'', ''HARNESS_TASK'', ''HARNESS_MAX_TURNS'', ''HARNESS_CERT'', ''HARNESS_KEY'',
      ''HARNESS_CA'', ''HARNESS_RUN_ID'', ''HARNESS_TENANT_ID'', ''GATE_TIMEOUT_MS'', ''IPC_MTLS_ENABLED'']"
    by (cases paths) (simp add: run_overrides_def)
  ultimately show "k \<in> fst ` set (run_overrides h paths r) \<Longrightarrow> \<not> denied k"
    by (simp only: list_all_iff set_map [symmetric]) blast
qed

section \<open>The registry\<close>

lemma sweep_get:
  assumes "wf_dict reg"
  shows "dict_get (sweep_expired_runs now reg) k = (case dict_get reg k of Some r \<Rightarrow> if run_expired now r then None else Some r | None \<Rightarrow> None)"
proof -
  have del: "dict_get (foldl (\<lambda>d k. AList.delete k d) reg ks) k = (if k \<in> set ks then None else dict_get reg k)" for ks and reg :: registry
    by (induction ks arbitrary: reg) (auto simp: delete_conv)
  have "k \<in> set (map fst (filter (\<lambda>(_, r). run_expired now r) reg)) \<longleftrightarrow> (\<exists>r. dict_get reg k = Some r \<and> run_expired now r)"
    using assms by (force simp: wf_dict_def)
  then show ?thesis unfolding sweep_expired_runs_def Let_def del by (auto split: option.split)
qed

lemma wf_sweep: "wf_dict reg \<Longrightarrow> wf_dict (sweep_expired_runs now reg)"
proof -
  have "wf_dict reg \<Longrightarrow> wf_dict (foldl (\<lambda>d k. AList.delete k d) reg ks)" for ks and reg :: registry
    by (induction ks arbitrary: reg) (auto simp: wf_dict_def distinct_delete)
  then show "wf_dict reg \<Longrightarrow> ?thesis" by (simp add: sweep_expired_runs_def Let_def)
qed

definition run_state :: "harness_run \<Rightarrow> bool" where
  "run_state r \<longleftrightarrow>
     (if hr_ended_at r = None then hr_status r = ''running'' \<and> hr_pid r \<noteq> None \<and> hr_exit_code r = None \<and> hr_log_open r
      else \<not> hr_log_open r \<and> hr_pid r \<noteq> None \<and> (\<exists>c. hr_exit_code r = Some c \<and> hr_status r = terminal_status c))"

definition registry_sound :: "registry \<Rightarrow> bool" where
  "registry_sound reg \<longleftrightarrow> wf_dict reg \<and> (\<forall>k r. dict_get reg k = Some r \<longrightarrow> hr_run_id r = k \<and> run_state r)"

text \<open>What happens to the registry and the database: a new run is started, well or badly, and a reaper finishes.\<close>

inductive harness_step :: "registry \<times> db \<Rightarrow> registry \<times> db \<Rightarrow> bool" where
  starts: "dict_get reg fresh = None \<Longrightarrow> start h (from_request fresh task turns tenant) reg = (err, r, reg') \<Longrightarrow>
     harness_step (reg, d) (reg', d)"
| reaped: "dict_get reg k = Some r \<Longrightarrow> hr_ended_at r = None \<Longrightarrow> reap waited now loop_up r d = (r', d') \<Longrightarrow>
     harness_step (reg, d) (dict_set k r' reg, d')"

inductive harness_reach :: "db \<Rightarrow> registry \<times> db \<Rightarrow> bool" for d0 where
  fresh_process: "harness_reach d0 ([], d0)"
| then_step: "harness_reach d0 s \<Longrightarrow> harness_step s s' \<Longrightarrow> harness_reach d0 s'"

lemma sweep_sound: "registry_sound reg \<Longrightarrow> registry_sound (sweep_expired_runs now reg)"
  by (auto simp: registry_sound_def wf_sweep sweep_get split: option.splits if_splits)

lemma sweep_running: "registry_sound reg \<Longrightarrow> dict_get reg k = Some r \<Longrightarrow> hr_ended_at r = None \<Longrightarrow>
    dict_get (sweep_expired_runs now reg) k = Some r"
  by (simp add: registry_sound_def sweep_get run_expired_def)

lemma register_sound:
  "registry_sound reg \<Longrightarrow> hr_run_id r = k \<Longrightarrow> run_state r \<Longrightarrow> registry_sound (dict_set k r reg)"
  by (auto simp: registry_sound_def dict_get_set)

lemma start_cases:
  assumes "start h (from_request fresh task turns tenant) reg = (err, r, reg')"
  obtains "reg' = sweep_expired_runs (ho_time h) reg"
  | "err = None" "hr_run_id r = fresh" "run_state r" "reg' = dict_set fresh r (sweep_expired_runs (ho_time h) reg)"
  using assms
  by (auto simp: start_def from_request_def Let_def run_state_def split: option.splits if_splits prod.splits)

lemma step_sound:
  assumes "harness_step (reg, d) (reg', d')" "registry_sound reg"
  shows "registry_sound reg'"
    and "dict_get reg k = Some r \<Longrightarrow> hr_ended_at r = None \<Longrightarrow> dict_get reg' k \<noteq> None"
proof -
  have "registry_sound reg' \<and> (dict_get reg k = Some r \<longrightarrow> hr_ended_at r = None \<longrightarrow> dict_get reg' k \<noteq> None)"
    using assms(1)
  proof cases
    case (starts fresh h task turns tenant err r')
    show ?thesis
      by (rule start_cases [OF starts(3)]) (use assms(2) sweep_running in \<open>auto simp: dict_get_set intro: sweep_sound register_sound\<close>)
  next
    case (reaped k' r0 waited now loop_up r')
    have "hr_run_id r0 = k'" "run_state r0" using assms(2) reaped by (auto simp: registry_sound_def)
    moreover have "hr_run_id r' = hr_run_id r0" "run_state r0 \<Longrightarrow> run_state r'"
      using reaped by (auto simp: reap_def Let_def run_state_def)
    ultimately show ?thesis using assms(2) reaped(1) by (auto simp: dict_get_set intro: register_sound)
  qed
  then show "registry_sound reg'" "dict_get reg k = Some r \<Longrightarrow> hr_ended_at r = None \<Longrightarrow> dict_get reg' k \<noteq> None" by blast+
qed

lemma reap_completes:
  assumes "reap waited now True r d = (r', d')" "dict_get (db_runs d') (hr_run_id r) = Some row"
  shows "rr_status row \<noteq> ''running''"
  using assms by (auto simp: reap_def Let_def mark_run_completed_def dict_get_set split: option.splits if_splits)

section \<open>Properties\<close>

text \<open>C38. The harness gets no secret of the auditor: the environment of a started child has only the ten variables of
  its run and variables of the allowlist with the parent's values, and none whose name starts with a
  prefix of the denylist.\<close>

theorem child_env_withholds_secrets:
  assumes "start h r reg = (None, r', reg')" "wf_dict (ho_environ h)"
  shows "\<exists>paths env. ho_mint h = Some paths \<and> env = build_child_env (ho_environ h) (run_overrides h paths r) \<and> ho_spawn h env = hr_pid r' \<and>
    hr_pid r' \<noteq> None \<and>
    (\<forall>k v. dict_get env k = Some v \<longrightarrow> \<not> denied k \<and>
       (k \<in> fst ` set (run_overrides h paths r) \<or> forwarded k \<and> dict_get (ho_environ h) k = Some v))"
proof -
  obtain paths where paths: "ho_mint h = Some paths"
      "ho_spawn h (build_child_env (ho_environ h) (run_overrides h paths r)) = hr_pid r'" "hr_pid r' \<noteq> None"
    using assms(1) by (auto simp: start_def Let_def split: option.splits if_splits)
  have "set (rev (ho_environ h)) = set (ho_environ h)" by simp
  then have rev: "map_of (rev (ho_environ h)) = map_of (ho_environ h)"
    using assms(2) map_of_inject_set [of "rev (ho_environ h)" "ho_environ h"] by (simp add: wf_dict_def rev_map [symmetric])
  have "\<not> denied k \<and> (k \<in> fst ` set (run_overrides h paths r) \<or> forwarded k \<and> dict_get (ho_environ h) k = Some v)"
    if "dict_get (build_child_env (ho_environ h) (run_overrides h paths r)) k = Some v" for k v
  proof (cases "dict_get (rev (run_overrides h paths r)) k")
    case None
    then show ?thesis using that unfolding child_env_get rev by (simp split: if_splits)
  next
    case (Some w)
    then have "k \<in> fst ` set (run_overrides h paths r)" by (force dest: map_of_SomeD)
    then show ?thesis using overrides_not_denied by blast
  qed
  with paths show ?thesis by blast
qed

definition sample_host :: spawn_host where
  "sample_host = \<lparr> ho_environ = [(''PATH'', ''/bin''), (''JWT_SECRET'', ''x'')], ho_mint = Some (''c'', ''k'', ''a''), ho_log_opens = True,
     ho_spawn = (\<lambda>_. Some 42), ho_time = 0, ho_now = 5 \<rparr>"

definition sample_run :: harness_run where
  "sample_run = from_request ''r'' ''task'' 12 ''t''"

definition started_run :: harness_run where
  "started_run = sample_run\<lparr> hr_log_open := True, hr_pid := Some 42, hr_started_at := Some 5, hr_status := ''running'' \<rparr>"

lemma sample_start: "start sample_host sample_run [] = (None, started_run, [(''r'', started_run)])"
  by (simp add: start_def sample_host_def sample_run_def started_run_def from_request_def sweep_expired_runs_def Let_def)

theorem child_env_withholds_secrets_witness:
  "\<exists>env. ho_spawn sample_host env = hr_pid started_run \<and> dict_get env ''JWT_SECRET'' = None"
proof -
  have "wf_dict (ho_environ sample_host)" by (simp add: wf_dict_def sample_host_def)
  from child_env_withholds_secrets [OF sample_start this] obtain env where
    env: "ho_spawn sample_host env = hr_pid started_run" "\<forall>k v. dict_get env k = Some v \<longrightarrow> \<not> denied k"
    by blast
  have "denied ''JWT_SECRET''" by code_simp
  then have "dict_get env ''JWT_SECRET'' = None" using env(2) by (cases "dict_get env ''JWT_SECRET''") auto
  with env(1) show ?thesis by blast
qed

text \<open>C39. Whatever is started, fails to start and exits, every entry of the registry is a run with a live process, an
  open log and the status running, or a reaped one with its exit code, the status that goes with it and a
  closed log; and an entry that has not been reaped is never dropped, in particular not by the sweep of
  expired entries.\<close>

theorem harness_registry_sound:
  assumes "harness_reach d0 (reg, d)"
  shows "(\<forall>k r. dict_get reg k = Some r \<longrightarrow> hr_run_id r = k \<and> run_state r) \<and>
    (\<forall>reg' d' k r. harness_step (reg, d) (reg', d') \<longrightarrow> dict_get reg k = Some r \<longrightarrow> hr_ended_at r = None \<longrightarrow>
       (\<exists>r'. dict_get reg' k = Some r' \<and> hr_run_id r' = k \<and> run_state r'))"
proof -
  have sound: "registry_sound reg"
    using assms
  proof (induction "(reg, d)" arbitrary: reg d rule: harness_reach.induct)
    case fresh_process
    then show ?case by (simp add: registry_sound_def wf_dict_def)
  next
    case (then_step s)
    then show ?case by (cases s) (metis step_sound(1))
  qed
  have "\<exists>r'. dict_get reg' k = Some r' \<and> hr_run_id r' = k \<and> run_state r'"
    if "harness_step (reg, d) (reg', d')" "dict_get reg k = Some r" "hr_ended_at r = None" for reg' d' k r
    using step_sound [OF that(1) sound] that(2,3) unfolding registry_sound_def by blast
  then show ?thesis using sound unfolding registry_sound_def by blast
qed

theorem harness_registry_sound_witness:
  "\<exists>reg. harness_reach example_db (reg, example_db) \<and> (\<exists>r. dict_get reg ''r'' = Some r \<and> run_state r)"
proof -
  have "start sample_host (from_request ''r'' ''task'' 12 ''t'') [] = (None, started_run, [(''r'', started_run)])"
    using sample_start by (simp only: sample_run_def)
  then have "harness_step ([], example_db) ([(''r'', started_run)], example_db)"
    by (intro harness_step.starts [of "[]" "''r''"]) simp_all
  then have reach: "harness_reach example_db ([(''r'', started_run)], example_db)"
    using harness_reach.then_step [OF harness_reach.fresh_process] by blast
  have "dict_get [(''r'', started_run)] ''r'' = Some started_run" by simp
  then have "run_state started_run" using harness_registry_sound [OF reach] by blast
  then show ?thesis using reach by (intro exI [of _ "[(''r'', started_run)]"]) simp
qed

end
