(* ===== verification/Spec2Isabelle.thy ===== *)
theory Spec2Isabelle
  imports Prelude Binary64 Verdicts Incidents Sha256 Canonical_Json Audit_Log Events Correlation Py_Regex Sampling Lifecycle
    Orchestration Detectors Ipc Gate Event_Store Telemetry Dispatch Calibration Json_Loads Auth
    Py_Datetime Review Hitl Provenance Judge Judge_Detectors Redactor Scanner Catalog Audit_Of_Audit Iso_Order Query
    Replay Admin Harness
begin

text \<open>
  Verification of the core of the AI-Auditor service (\<^verbatim>\<open>src/auditor\<close>), which observes runs of AI
  agents, gates their tool calls, stores what they did, runs detectors over it and turns the findings
  into flags, incidents and entries of a tamper-evident log.

  \<^bold>\<open>The program and how its parts interact.\<close> The auditor starts a harness process with a certificate of its
  own. The harness talks to the auditor through the telemetry SDK over length-prefixed frames on a mutually
  authenticated connection. The dispatcher redacts and stores every event and answers gate requests; when
  the connection ends it marks the run as completed and schedules one audit. An audit loads the run's
  trace from the store, the sampler decides whether it is looked at, the orchestrator runs the registered
  detectors (subject to their lifecycle state), some of which ask a language-model judge through a cache,
  the aggregator makes one flag of their verdicts, and the flag opens an incident and goes to human
  review. Reviewers log in, decide on flags, move incidents, search the records and export runs over the
  HTTP API. Lifecycle changes and decisions are appended to a hash-chained audit log. Periodic jobs score
  the detectors against labelled traces, check the judge against a second opinion and scan what is
  stored for personal data.

  \<^bold>\<open>Which theory models which part.\<close> Each theory starts with the definitions, one for each function of the
  source and of the same name where HOL has no constant of that name, and ends with the properties.

  The language and its library:

  \<^item> \<open>Prelude\<close>: Python's strings (code points below 256), UUID texts, insertion-ordered dictionaries,
    JSON values, comprehensions that may raise, \<^verbatim>\<open>max(..., key=...)\<close>.
  \<^item> \<open>Binary64\<close>: floating-point arithmetic as rounding of exact rationals. The locale \<open>rounding\<close> states
    what the other theories use of it (monotone, exact on small integers) and is interpreted on
    \<open>rnd64\<close> as \<open>b64\<close>.
  \<^item> \<open>Sha256\<close>, \<open>Canonical_Json\<close>, \<open>Json_Loads\<close>: the hash, \<^verbatim>\<open>json.dumps\<close> in its three layouts with \<^verbatim>\<open>repr\<close> of
    floats, and \<^verbatim>\<open>json.loads\<close>, which is shown to invert it on values without floats.
  \<^item> \<open>Py_Regex\<close>: a backtracking matcher for the regular expressions of the code, with number formats.
  \<^item> \<open>Py_Datetime\<close>, \<open>Iso_Order\<close>: time stamps, their ISO texts, and that the texts are ordered as the times are.

  Observing and gating a run:

  \<^item> \<open>Harness\<close> (\<^verbatim>\<open>harness_runner.py\<close>): environment, start, reaper and registry of the harness processes.
  \<^item> \<open>Ipc\<close> (\<^verbatim>\<open>ipc/protocol.py\<close>, \<^verbatim>\<open>ipc/auth.py\<close>, names of \<^verbatim>\<open>auth/ca.py\<close>): framing, peer identity.
  \<^item> \<open>Telemetry\<close> (\<^verbatim>\<open>src/harness/telemetry/sdk.py\<close>): the client side of the gate.
  \<^item> \<open>Gate\<close> (\<^verbatim>\<open>inline_gate/\<close>): policy engine with its cache, call budget, scan of outbound text, and their
    combination.
  \<^item> \<open>Dispatch\<close> (\<^verbatim>\<open>ipc/dispatch.py\<close>, \<^verbatim>\<open>ipc/server.py\<close>): the connection handler.
  \<^item> \<open>Event_Store\<close> (\<^verbatim>\<open>events/proto_bridge.py\<close>, \<^verbatim>\<open>events/store.py\<close>, \<^verbatim>\<open>db/models.py\<close>): from the wire event
    through redaction to rows, and back to a typed trace.
  \<^item> \<open>Redactor\<close> (\<^verbatim>\<open>audit_log/redactor.py\<close>): substitution and detection of personal data in texts and values.
  \<^item> \<open>Scanner\<close> (\<^verbatim>\<open>scanner/memory_log_scan.py\<close>): the scan of what is stored.

  Detecting:

  \<^item> \<open>Events\<close> (\<^verbatim>\<open>events/schemas.py\<close>, \<^verbatim>\<open>detectors/base.py\<close>, \<^verbatim>\<open>registry.py\<close>): events, traces, registration.
  \<^item> \<open>Correlation\<close> (\<^verbatim>\<open>events/correlator.py\<close>, \<^verbatim>\<open>inline_gate/divergence.py\<close>): which kernel-observed
    actions were declared, and the findings about those that were not.
  \<^item> \<open>Sampling\<close> (\<^verbatim>\<open>async_pipeline/\<close>): signals, runtime policy, sampler, budget. The locale
    \<open>novelty_index\<close> is interpreted on the in-memory index as \<open>mem_novelty\<close>.
  \<^item> \<open>Lifecycle\<close> (\<^verbatim>\<open>detectors/lifecycle.py\<close> with its policy file): the states of a detector version. The
    locale \<open>lifecycle_store\<close> is the contract of a store and is interpreted on both stores of the code,
    \<open>mem_store\<close> and \<open>db_store\<close>.
  \<^item> \<open>Detectors\<close>, \<open>Catalog\<close> (\<^verbatim>\<open>detectors/asi02\<close> to \<^verbatim>\<open>asi08\<close>): the deterministic detectors and the start-up
    check of tool files.
  \<^item> \<open>Judge\<close> (\<^verbatim>\<open>judge/client.py\<close>, \<^verbatim>\<open>cache.py\<close>): the language-model judge with its parsing, escalation and cache.
  \<^item> \<open>Judge_Detectors\<close>, \<open>Provenance\<close> (\<^verbatim>\<open>asi01\<close>, \<^verbatim>\<open>asi06\<close>, \<^verbatim>\<open>asi06_cross_run\<close>, \<^verbatim>\<open>asi09\<close>, \<^verbatim>\<open>asi10\<close>,
    \<^verbatim>\<open>instruction_following\<close>): the detectors that ask the judge, and the walk through poisoned memory.
  \<^item> \<open>Orchestration\<close> (\<^verbatim>\<open>async_pipeline/orchestrator.py\<close>, \<^verbatim>\<open>pipeline.py\<close>): fan-out, crash isolation,
    routing by lifecycle state, sampling-to-flag.
  \<^item> \<open>Verdicts\<close> (\<^verbatim>\<open>verdicts/\<close>): schemas, severity, aggregation into a flag, operator checks.
  \<^item> \<open>Calibration\<close>, \<open>Audit_Of_Audit\<close> (\<^verbatim>\<open>calibration/\<close>): confusion matrices and the nightly job, the cross-check of
    the judge.

  Acting on findings:

  \<^item> \<open>Incidents\<close> (\<^verbatim>\<open>incidents/\<close>): the state machine with its role and documentation gates against an
    inductive specification of the documented graph, comments, action items, similarity.
  \<^item> \<open>Audit_Log\<close> (\<^verbatim>\<open>audit_log/chain.py\<close>, \<^verbatim>\<open>writer.py\<close>, \<^verbatim>\<open>verifier.py\<close>): the hash chain. The locale
    \<open>chain_hashing\<close> holds for any hash and any link function; it is interpreted on SHA-256 as
    \<open>sha_chain\<close>.
  \<^item> \<open>Hitl\<close> (\<^verbatim>\<open>hitl/\<close>): routing of flags by severity, the review queue, notifiers.
  \<^item> \<open>Auth\<close> (\<^verbatim>\<open>api/auth.py\<close>, \<^verbatim>\<open>auth_routes.py\<close>): tokens, roles, login. The locale \<open>text_codec\<close> is the law of an
    encoding with its decoding and is interpreted on URL-safe base64 as \<open>b64url\<close>.
  \<^item> \<open>Review\<close> (\<^verbatim>\<open>api/hitl_routes.py\<close>, \<^verbatim>\<open>incidents_routes.py\<close>, \<^verbatim>\<open>db/tenancy.py\<close>): decisions on flags, incident
    routes, row-level scoping.
  \<^item> \<open>Query\<close> (\<^verbatim>\<open>audit_log/query.py\<close>, \<^verbatim>\<open>api/search_routes.py\<close>): the query language and the report on a flag.
  \<^item> \<open>Replay\<close> (\<^verbatim>\<open>api/replay.py\<close>): signed export bundles.
  \<^item> \<open>Admin\<close> (\<^verbatim>\<open>api/admin.py\<close>, \<^verbatim>\<open>shadow_routes.py\<close>, \<^verbatim>\<open>agent_routes.py\<close>): roles, settings, reset, live view.

  State is passed explicitly: a record per component (the tables of the database, the dispatcher, the
  client, the runtime policy, the registry), returned updated. An exception is the left of a sum. Calls of
  collaborators whose results are not used are recorded as effects, in order.

  \<^bold>\<open>What the properties show.\<close> Severity and content of a flag are what the verdicts determine, and more
  verdicts never weaken it; incidents and detector versions move only along the documented graphs and
  through their gates; a log written by the writer verifies and binds its entries up to collisions of
  the hash, and what its verifier cannot see is stated as such; the correlator reports exactly the
  undeclared actions; sampling obeys its modes; crashes and findings always flag; frames, stored
  events, tokens and export bundles round-trip; the gate fails closed and its budget is exact; every
  connection's run is audited once; a judge's verdict is always spelled out in a model's answer, and its
  cache repeats the first answer; the walk through poisoned memory ends and is exact; redaction and
  detection agree; a scan flags exactly the leaking runs; a changed tool file is reported; the nightly
  job's comparison of floats decides the exact inequality; high and critical flags stay in the review
  queue until acknowledged; decisions are recorded and scoped; searches return rows of the caller's tenant
  only; roles do not escalate; a harness gets no secret of its parent and is never dropped while it runs.
  Some properties state a defect of the code as it is (what verification of the log cannot see, late
  answers are misapplied, unsigned messages are never seen, an unreachable judge is silent, the
  cross-check of the judge reads the judge's own cache, incident routes are not scoped by tenant).

  \<^bold>\<open>Bounds and fuel.\<close> The search for cycles carries the number of nodes as fuel and \<^verbatim>\<open>json.loads\<close> twice the
  length of its input; both are proved to be enough on every input. The walk through poisoned memory is a
  recursion with a termination proof on the unvisited runs and the queue. Other loops over finite lists are
  structural recursion. Binary64 leaves out infinities, NaN and overflow. The exactness of the calibration
  thresholds is stated for at most \<open>2 ^ 40\<close> entries. Texts have code points below 256; where input may leave
  that range (\<^verbatim>\<open>json.loads\<close>) the model says so by a result of its own.

  \<^bold>\<open>Code that is an argument.\<close> The policy server's answer; the Redis commands of the budget, the cache and the
  review queue (with their documented laws as hypotheses); the analyzer package and its recognizers; the
  coercions of the schema library and its JSON form of an event; the protobuf codec; the judge's
  network; the driver's reading of UUID texts, \<^verbatim>\<open>date.fromisoformat\<close> and \<^verbatim>\<open>datetime.fromisoformat\<close>; what the
  SQL server does with a condition, an order or a JSONB value; the enforcer; files, processes and signals of
  the operating system; the iteration order of sets; secrets, clocks and fresh identifiers.

  \<^bold>\<open>Not modelled.\<close> Embeddings (third-party models), process enforcement, kernel collectors and the IPC
  transport (operating-system calls), key handling of the certificate authority (third-party
  cryptography), the stubs that raise (\<^verbatim>\<open>auth/jwt.py\<close>, \<^verbatim>\<open>auth/rbac.py\<close>, \<^verbatim>\<open>auth/oidc.py\<close>), configuration,
  logging and metrics, application start-up and health routes, database sessions and migrations apart from
  the tenant policies, generated protobuf code, the demonstration agents and scripts. What is left is
  input and output, wiring, third-party code and test programs.
\<close>

section \<open>Storage and detection\<close>

lemma asi07_ok:
  assumes "\<And>e s r h sig. e \<in> set (tr_events tr) \<Longrightarrow> e_body e = InterAgentMessage s r h sig \<Longrightarrow> sig \<noteq> []"
  shows "VIOLATION \<notin> vd_result ` set (asi07_run env tr)"
proof -
  have "asi07_event e = []" if "e \<in> set (asi07_messages tr)" for e
    using that by (auto simp: asi07_messages_def asi07_event_def split: event_body.split dest: assms)
  then have "concat (map asi07_event (asi07_messages tr)) = []" by simp
  then show ?thesis unfolding asi07_run_def Let_def by (simp add: evidence_verdict_def)
qed

definition unsigned_message :: wire_event where
  "unsigned_message = example_wire ''agent.message'' 1 (W_agent_message example_uuid example_uuid [1] [])"

definition unsigned_dict :: "(string, json) pydict" where
  "unsigned_dict = wire_base unsigned_message @
     [(''sender_id'', JStr example_uuid), (''receiver_id'', JStr example_uuid), (''message_hash'', JStr ''01''),
      (''signature'', JNull)]"

text \<open>C23. The detector of unsigned inter-agent messages cannot fire on a stored run: the bridge turns an
  empty signature into a null, the row is then refused by the schema of the message and dropped from
  the trace, so whatever events came over the wire, and whatever the run, the loaded trace never
  yields a violation.\<close>

theorem unsigned_messages_unseen:
  assumes "co_bytes co JNull = None" and "redaction_visible rx" and "jsonb_laws (rx_jsonb rx)" and "from_wire rx loads d"
  shows "VIOLATION \<notin> vd_result ` set (asi07_run env (load_trace co run tenant d))"
  by (rule asi07_ok) (erule (1) loaded_message_signed [OF assms])

theorem unsigned_messages_unseen_witness:
  "\<exists>d. store_event example_redaction [] unsigned_dict 5 example_db = Inr (example_uuid, d) \<and>
     event_to_dict (\<lambda>_. Inl ValueError) unsigned_message = Inr unsigned_dict \<and>
     VIOLATION \<notin> vd_result ` set (asi07_run \<lparr> ve_id = [], ve_now = 0 \<rparr>
       (load_trace example_coercions example_uuid example_uuid d))"
proof -
  have ev: "event_to_dict (\<lambda>_. Inl ValueError) unsigned_message = Inr unsigned_dict" by code_simp
  let ?fs = "[(''sender_id'', JStr example_uuid), (''receiver_id'', JStr example_uuid), (''message_hash'', JStr ''01''),
        (''signature'', JNull)]"
  have f: "wire_fields (\<lambda>_. Inl ValueError) (we_payload unsigned_message) = Inr ?fs" by code_simp
  have wf: "wire_wf unsigned_message"
    by (simp add: wire_wf_def unsigned_message_def example_wire_def example_uuid_canonical)
  have ts: "event_ts 5 unsigned_message = 5" by (simp add: event_ts_def unsigned_message_def example_wire_def)
  have ids: "we_event_id unsigned_message = example_uuid" "we_run_id unsigned_message = example_uuid"
      "we_event_type unsigned_message = ''agent.message''"
    by (simp_all add: unsigned_message_def example_wire_def)
  have clean: "fst (redact_payload example_redaction ?fs) = ?fs"
    by (simp add: redact_payload_def example_redaction_def structural_def)
  obtain r where r: "event_row_of example_redaction [] unsigned_dict 5 = Inr r" "er_event_id r = example_uuid"
      "er_run_id r = example_uuid" "er_channel r \<in> {''VOLUNTARY'', ''INVOLUNTARY''}" "er_event_type r = ''agent.message''"
      "er_payload r = ?fs"
    using event_row_of_wire [OF f wf, of unsigned_dict example_redaction "[]" 5]
    by (simp add: unsigned_dict_def ts ids stored_row_fields clean)
  obtain p where p: "rx_jsonb example_redaction ?fs = Some p"
  proof -
    have "example_jsonb ?fs \<noteq> None" by code_simp
    then show ?thesis using that by (auto simp: example_redaction_def)
  qed
  let ?d = "example_db\<lparr> db_events := [r\<lparr> er_payload := p \<rparr>] \<rparr>"
  have st: "store_event example_redaction [] unsigned_dict 5 example_db = Inr (example_uuid, ?d)"
    using r p by (simp add: store_event_def event_insertable_def example_db_def upsert_run_def)
  have "from_wire example_redaction (\<lambda>_. Inl ValueError) example_db"
    by (simp add: from_wire_def example_db_def upsert_run_def)
  then have "from_wire example_redaction (\<lambda>_. Inl ValueError) ?d" using ev st by (rule store_event_from_wire)
  moreover have "redaction_visible example_redaction"
    by (simp add: redaction_visible_def example_redaction_def hex_space_def)
  moreover have "jsonb_laws (rx_jsonb example_redaction)" by (simp add: example_redaction_def example_jsonb_laws)
  moreover have "co_bytes example_coercions JNull = None" by (simp add: example_coercions_def)
  ultimately show ?thesis using ev st unsigned_messages_unseen by blast
qed

end
